(* ===== verification/Prelude.thy ===== *)
theory Prelude
  imports Main "HOL-Library.Word" "HOL-Library.AList"
begin

text \<open>
  Shared vocabulary of the development: the error and result types of
  \<^verbatim>\<open>modules/utility/include/utility/{error,result}.hpp\<close>, the combinators of
  \<^verbatim>\<open>std::expected\<close> the sources chain results with, machine sizes with their
  wrap-around written out, decimal formatting, and the two generic interfaces most
  components use: invariants of a step relation and encode/decode round trips.
\<close>

section \<open>Names of the model's types\<close>

type_synonym byte = "8 word"
type_synonym uint32 = "32 word"

text \<open>
  \<^verbatim>\<open>gv::Error\<close> is a \<^verbatim>\<open>std::runtime_error\<close> with a message; its source location never
  influences the program. \<^verbatim>\<open>Result<T>\<close> is \<^verbatim>\<open>std::expected<T, Error>\<close>.
\<close>

datatype error = Error (what_of: string)

type_synonym 'a result = "error + 'a"

text \<open>
  Code that leaves the \<^verbatim>\<open>Result\<close> discipline: a thrown \<^verbatim>\<open>std::exception\<close> with its
  \<^verbatim>\<open>what()\<close>, a failed \<^verbatim>\<open>assert\<close> or \<^verbatim>\<open>std::abort\<close>, behaviour the language leaves
  undefined (\<^verbatim>\<open>std::unreachable\<close>, a read out of range), and a thread that waits for something
  that can no longer happen.
\<close>

datatype fault = Throw (message: string) | Abort | Undefined | Deadlock

section \<open>Collections of rewrite rules\<close>

named_theorems result_simps \<open>equations of the \<^verbatim>\<open>std::expected\<close> combinators\<close>
named_theorems size_simps \<open>wrap-around sizes inside their range\<close>

section \<open>The combinators of std::expected\<close>

definition and_then :: "'e + 'a \<Rightarrow> ('a \<Rightarrow> 'e + 'b) \<Rightarrow> 'e + 'b" where
  "and_then r f = (case r of Inl e \<Rightarrow> Inl e | Inr a \<Rightarrow> f a)"

definition transform :: "'e + 'a \<Rightarrow> ('a \<Rightarrow> 'b) \<Rightarrow> 'e + 'b" where
  "transform r f = (case r of Inl e \<Rightarrow> Inl e | Inr a \<Rightarrow> Inr (f a))"

definition or_else :: "'e + 'a \<Rightarrow> ('e \<Rightarrow> 'e + 'a) \<Rightarrow> 'e + 'a" where
  "or_else r f = (case r of Inl e \<Rightarrow> f e | Inr a \<Rightarrow> Inr a)"

definition has_value :: "'e + 'a \<Rightarrow> bool" where
  "has_value r = (case r of Inl _ \<Rightarrow> False | Inr _ \<Rightarrow> True)"

lemma and_then_Inl [simp, result_simps]: "and_then (Inl e) f = Inl e"
  by (simp add: and_then_def)

lemma and_then_Inr [simp, result_simps]: "and_then (Inr a) f = f a"
  by (simp add: and_then_def)

lemma transform_Inl [simp, result_simps]: "transform (Inl e) f = Inl e"
  by (simp add: transform_def)

lemma transform_Inr [simp, result_simps]: "transform (Inr a) f = Inr (f a)"
  by (simp add: transform_def)

lemma or_else_Inl [simp, result_simps]: "or_else (Inl e) f = f e"
  by (simp add: or_else_def)

lemma or_else_Inr [simp, result_simps]: "or_else (Inr a) f = Inr a"
  by (simp add: or_else_def)

lemma has_value_simps [simp, result_simps]: "has_value (Inr a)" "\<not> has_value (Inl e)"
  by (simp_all add: has_value_def)

lemma and_then_eq_Inr_iff: "and_then r f = Inr b \<longleftrightarrow> (\<exists>a. r = Inr a \<and> f a = Inr b)"
  by (cases r) auto

lemma and_then_eq_Inl_iff:
  "and_then r f = Inl e \<longleftrightarrow> r = Inl e \<or> (\<exists>a. r = Inr a \<and> f a = Inl e)"
  by (cases r) auto

lemma transform_eq_Inr_iff: "transform r f = Inr b \<longleftrightarrow> (\<exists>a. r = Inr a \<and> f a = b)"
  by (cases r) auto

section \<open>Sizes\<close>

text \<open>
  \<^verbatim>\<open>size_t\<close> is 64 bits wide on the supported hosts. A counter is a natural number below
  \<open>size_modulus\<close>, and each arithmetic operation of the code wraps around explicitly.
\<close>

definition size_modulus :: nat where
  "size_modulus = 2 ^ 64"

definition size_inc :: "nat \<Rightarrow> nat" where
  "size_inc n = (n + 1) mod size_modulus"

definition size_dec :: "nat \<Rightarrow> nat" where
  "size_dec n = (n + (size_modulus - 1)) mod size_modulus"

definition size_add :: "nat \<Rightarrow> nat \<Rightarrow> nat" where
  "size_add m n = (m + n) mod size_modulus"

definition size_sub :: "nat \<Rightarrow> nat \<Rightarrow> nat" where
  "size_sub m n = (m + (size_modulus - n)) mod size_modulus"

lemma size_modulus_pos [simp]: "0 < size_modulus"
  by (simp add: size_modulus_def)

lemma size_inc_exact [simp, size_simps]: "n + 1 < size_modulus \<Longrightarrow> size_inc n = n + 1"
  by (simp add: size_inc_def)

lemma size_dec_exact [simp, size_simps]:
  assumes "0 < n" "n < size_modulus"
  shows "size_dec n = n - 1"
proof -
  have "n + (size_modulus - 1) = (n - 1) + size_modulus"
    using assms by simp
  then have "size_dec n = (n - 1) mod size_modulus"
    by (simp only: size_dec_def mod_add_self2)
  then show ?thesis
    using assms by simp
qed

lemma size_dec_zero: "size_dec 0 = size_modulus - 1"
  by (simp add: size_dec_def)

lemma size_add_exact [simp, size_simps]: "m + n < size_modulus \<Longrightarrow> size_add m n = m + n"
  by (simp add: size_add_def)

lemma size_sub_exact [simp, size_simps]:
  assumes "n \<le> m" "m < size_modulus"
  shows "size_sub m n = m - n"
proof -
  have "m + (size_modulus - n) = (m - n) + size_modulus"
    using assms by simp
  then have "size_sub m n = (m - n) mod size_modulus"
    by (simp only: size_sub_def mod_add_self2)
  then show ?thesis
    using assms by simp
qed

lemma small_size: "n \<le> 1000 \<Longrightarrow> n < size_modulus"
  by (simp add: size_modulus_def)

section \<open>Formatting of numbers\<close>

text \<open>\<^verbatim>\<open>std::format("{}", n)\<close> prints an integer in decimal, with a sign when it is negative.\<close>

fun show_nat :: "nat \<Rightarrow> string" where
  "show_nat n = (if n < 10 then [char_of (48 + n)] else show_nat (n div 10) @ [char_of (48 + n mod 10)])"

declare show_nat.simps [simp del]

definition show_int :: "int \<Rightarrow> string" where
  "show_int i = (if i < 0 then ''-'' @ show_nat (nat (- i)) else show_nat (nat i))"

section \<open>Association lists as finite maps\<close>

text \<open>
  \<open>tally P al\<close> counts the entries of a finite map whose value satisfies \<open>P\<close>; the rules say how
  an update of one entry changes the count.
\<close>

definition tally :: "('v \<Rightarrow> bool) \<Rightarrow> ('k \<times> 'v) list \<Rightarrow> nat" where
  "tally P al = length (filter (\<lambda>kv. P (snd kv)) al)"

lemma tally_Nil [simp]: "tally P [] = 0"
  by (simp add: tally_def)

lemma tally_append [simp]: "tally P (al @ bl) = tally P al + tally P bl"
  by (simp add: tally_def)

lemma tally_Cons [simp]: "tally P (kv # al) = of_bool (P (snd kv)) + tally P al"
  by (simp add: tally_def)

lemma tally_update:
  "map_of al k = Some v \<Longrightarrow> tally P (AList.update k v' al) + of_bool (P v) = tally P al + of_bool (P v')"
  by (induction al) (auto simp: tally_def)

lemma tally_update_new:
  "map_of al k = None \<Longrightarrow> tally P (AList.update k v' al) = tally P al + of_bool (P v')"
  by (induction al) (auto simp: tally_def)

lemma tally_pos_iff: "0 < tally P al \<longleftrightarrow> (\<exists>kv \<in> set al. P (snd kv))"
  by (auto simp: tally_def filter_empty_conv)

lemma tally_mono: "(\<And>v. P v \<Longrightarrow> Q v) \<Longrightarrow> tally P al \<le> tally Q al"
  by (induction al) (auto simp: tally_def)

lemma tally_disjoint:
  "(\<And>v. P v \<Longrightarrow> \<not> Q v) \<Longrightarrow> tally (\<lambda>v. P v \<or> Q v) al = tally P al + tally Q al"
  by (induction al) (auto simp: of_bool_def)

lemma tally_map: "tally P (map (\<lambda>(k, v). (k, f v)) al) = tally (\<lambda>v. P (f v)) al"
  by (induction al) auto

lemma update_new: "map_of al k = None \<Longrightarrow> AList.update k v al = al @ [(k, v)]"
  by (induction al) (auto split: if_splits)

lemma tally_keys:
  assumes "distinct (map fst al)" "distinct ks" "\<And>k v. map_of al k = Some v \<Longrightarrow> P v \<Longrightarrow> k \<in> set ks"
  shows "tally P al \<le> length ks"
proof -
  let ?hits = "filter (\<lambda>kv. P (snd kv)) al"
  have "distinct (map fst ?hits)"
    using assms(1) by (rule distinct_map_filter)
  moreover have "set (map fst ?hits) \<subseteq> set ks"
    using assms(1,3) by (auto simp: map_of_is_SomeI)
  ultimately have "length (map fst ?hits) \<le> length ks"
    using assms(2) by (metis card_mono distinct_card finite_set)
  then show ?thesis
    by (simp add: tally_def)
qed

lemma tally_keys_ge:
  assumes "distinct ks" "\<And>k. k \<in> set ks \<Longrightarrow> \<exists>v. map_of al k = Some v \<and> P v"
  shows "length ks \<le> tally P al"
proof -
  let ?hits = "filter (\<lambda>kv. P (snd kv)) al"
  have "set ks \<subseteq> set (map fst ?hits)"
    using assms(2) by (force dest: map_of_SomeD)
  then have "card (set ks) \<le> length (map fst ?hits)"
    by (meson List.finite_set card_length card_mono le_trans)
  then show ?thesis
    using assms(1) by (simp add: tally_def distinct_card)
qed

lemma length_delete:
  "distinct (map fst al) \<Longrightarrow> k \<in> fst ` set al \<Longrightarrow> Suc (length (AList.delete k al)) = length al"
  by (induction al) (auto simp: AList.delete_id image_iff)

section \<open>Reachable states and invariants\<close>

text \<open>
  A component with several threads is a step relation; a step is one critical section of
  one thread. \<open>reachable\<close> is the least set that holds the initial states and is closed
  under steps.
\<close>

inductive reachable :: "('s \<Rightarrow> bool) \<Rightarrow> ('s \<Rightarrow> 's \<Rightarrow> bool) \<Rightarrow> 's \<Rightarrow> bool"
  for init :: "'s \<Rightarrow> bool" and step :: "'s \<Rightarrow> 's \<Rightarrow> bool" where
  reach_init: "init s \<Longrightarrow> reachable init step s"
| reach_step: "reachable init step s \<Longrightarrow> step s t \<Longrightarrow> reachable init step t"

locale step_invariant =
  fixes init :: "'s \<Rightarrow> bool"
    and step :: "'s \<Rightarrow> 's \<Rightarrow> bool"
    and inv :: "'s \<Rightarrow> bool"
  assumes inv_init: "init s \<Longrightarrow> inv s"
    and inv_step: "inv s \<Longrightarrow> step s t \<Longrightarrow> inv t"
begin

lemma inv_reachable: "reachable init step s \<Longrightarrow> inv s"
  by (induction rule: reachable.induct) (blast intro: inv_init inv_step)+

end

text \<open>
  A component that winds down: in a phase that steps do not leave, every step makes a measure
  smaller, and something can be done until the component has finished. Then every run in that phase is
  bounded by the measure, it can only get stuck when the component has finished, and it can always
  be continued until then.
\<close>

locale winding_down =
  fixes step :: "'s \<Rightarrow> 's \<Rightarrow> bool"
    and phase :: "'s \<Rightarrow> bool"
    and left :: "'s \<Rightarrow> nat"
    and finished :: "'s \<Rightarrow> bool"
  assumes phase_step: "phase s \<Longrightarrow> step s t \<Longrightarrow> phase t \<and> left t < left s"
    and phase_progress: "phase s \<Longrightarrow> \<not> finished s \<Longrightarrow> \<exists>t. step s t"
begin

lemma run_bound: "(step ^^ n) s t \<Longrightarrow> phase s \<Longrightarrow> phase t \<and> n + left t \<le> left s"
proof (induction n arbitrary: t)
  case (Suc n)
  then obtain u where u: "(step ^^ n) s u" "step u t"
    by auto
  then have "phase u" "n + left u \<le> left s"
    using Suc by blast+
  then show ?case
    using phase_step [OF _ u(2)] by force
qed simp

lemma run_ends: "phase s \<Longrightarrow> (step ^^ n) s t \<Longrightarrow> n \<le> left s \<and> ((\<nexists>u. step t u) \<longrightarrow> finished t)"
  using run_bound phase_progress by fastforce

lemma run_finishes: "phase s \<Longrightarrow> \<exists>t. step\<^sup>*\<^sup>* s t \<and> finished t"
proof (induction "left s" arbitrary: s rule: less_induct)
  case less
  show ?case
  proof (cases "finished s")
    case False
    then obtain u where u: "step s u"
      using phase_progress less.prems by blast
    then obtain t where "step\<^sup>*\<^sup>* u t" "finished t"
      using less.hyps [of u] phase_step [OF less.prems u] by blast
    then show ?thesis
      using u by (blast intro: converse_rtranclp_into_rtranclp)
  qed blast
qed

end

section \<open>Encodings\<close>

text \<open>
  The contract between a writer and a reader of a format: on the values the writer accepts,
  the reader gives back what was written.
\<close>

locale codec =
  fixes valid :: "'a \<Rightarrow> bool"
    and enc :: "'a \<Rightarrow> 'b"
    and dec :: "'b \<Rightarrow> 'e + 'a"
  assumes dec_enc: "valid a \<Longrightarrow> dec (enc a) = Inr a"
begin

lemma enc_injective: "valid a \<Longrightarrow> valid b \<Longrightarrow> enc a = enc b \<Longrightarrow> a = b"
  using dec_enc by (metis sum.inject(2))

lemma dec_total_on_image: "valid a \<Longrightarrow> \<exists>b. dec (enc a) = Inr b"
  using dec_enc by blast

end

section \<open>Characters and bytes\<close>

definition string_bytes :: "string \<Rightarrow> byte list" where
  "string_bytes s = map (\<lambda>c. word_of_nat (of_char c)) s"

definition bytes_string :: "byte list \<Rightarrow> string" where
  "bytes_string bs = map (\<lambda>b. char_of (unat b)) bs"

lemma byte_range: "unat (b :: byte) mod 256 = unat b"
proof -
  have "unat b < 2 ^ LENGTH(8)"
    by (rule unsigned_less)
  then show ?thesis
    by simp
qed

lemma string_bytes_bytes_string [simp]: "string_bytes (bytes_string bs) = bs"
  by (simp add: string_bytes_def bytes_string_def comp_def byte_range)

end
