(* ===== verification/Algorithm.thy ===== *)
theory Algorithm
  imports Prelude
begin

text \<open>
  \<^verbatim>\<open>modules/utility/include/utility/algorithm.hpp\<close>: the three overloads of
  \<^verbatim>\<open>safe_cast_int\<close> (chosen by the signedness of the two types) and the integer powers
  \<^verbatim>\<open>ipow\<close> and \<^verbatim>\<open>ipow2\<close>. A C++ integer type is its signedness and its width; a value is an
  \<open>int\<close>, and a \<^verbatim>\<open>static_cast\<close> is the two's complement conversion to the type's width.
  The lemmas show that the widened comparisons of the casts decide exactly whether the value
  fits, that the result is never changed, and what the powers are at their width.
\<close>

section \<open>Integer types\<close>

record int_type =
  is_signed :: bool
  bits :: nat

definition type_min :: "int_type \<Rightarrow> int" where
  "type_min t = (if is_signed t then - (2 ^ (bits t - 1)) else 0)"

definition type_max :: "int_type \<Rightarrow> int" where
  "type_max t = (if is_signed t then 2 ^ (bits t - 1) - 1 else 2 ^ bits t - 1)"

definition in_type :: "int_type \<Rightarrow> int \<Rightarrow> bool" where
  "in_type t v \<longleftrightarrow> type_min t \<le> v \<and> v \<le> type_max t"

definition static_cast :: "int_type \<Rightarrow> int \<Rightarrow> int" where
  "static_cast t v = (if is_signed t then signed_take_bit (bits t - 1) v else take_bit (bits t) v)"

definition make_unsigned :: "int_type \<Rightarrow> int_type" where
  "make_unsigned t = t\<lparr>is_signed := False\<rparr>"

definition int_t :: int_type where
  "int_t = \<lparr>is_signed = True, bits = 32\<rparr>"

definition int64_t :: int_type where
  "int64_t = \<lparr>is_signed = True, bits = 64\<rparr>"

definition size_t :: int_type where
  "size_t = \<lparr>is_signed = False, bits = 64\<rparr>"

section \<open>Checked conversions\<close>

text \<open>Both types signed or both unsigned.\<close>

definition safe_cast_same :: "int_type \<Rightarrow> int_type \<Rightarrow> int \<Rightarrow> fault + int" where
  "safe_cast_same r t v =
     (let wider = (if bits r \<le> bits t then t else r)
      in if static_cast wider v < static_cast wider (type_min r)
         then Inl (Throw ''value < result min'')
         else if static_cast wider v > static_cast wider (type_max r)
         then Inl (Throw ''value > result max'')
         else Inr (static_cast r v))"

text \<open>From a signed type to an unsigned one.\<close>

definition safe_cast_to_unsigned :: "int_type \<Rightarrow> int_type \<Rightarrow> int \<Rightarrow> fault + int" where
  "safe_cast_to_unsigned r t v =
     (let wider = (if bits r \<le> bits t then make_unsigned t else r)
      in if v < 0 then Inl (Throw ''value < 0'')
         else if static_cast wider v > static_cast wider (type_max r)
         then Inl (Throw ''value > result max'')
         else Inr (static_cast r v))"

text \<open>From an unsigned type to a signed one.\<close>

definition safe_cast_to_signed :: "int_type \<Rightarrow> int_type \<Rightarrow> int \<Rightarrow> fault + int" where
  "safe_cast_to_signed r t v =
     (let wider = (if bits r \<le> bits t then t else make_unsigned r)
      in if static_cast wider v > static_cast wider (type_max r)
         then Inl (Throw ''value > result max'')
         else Inr (static_cast r v))"

text \<open>Overload resolution: the \<^verbatim>\<open>enable_if\<close> conditions select one overload.\<close>

definition safe_cast_int :: "int_type \<Rightarrow> int_type \<Rightarrow> int \<Rightarrow> fault + int" where
  "safe_cast_int r t v =
     (if is_signed r = is_signed t then safe_cast_same r t v
      else if is_signed t then safe_cast_to_unsigned r t v
      else safe_cast_to_signed r t v)"

section \<open>Powers\<close>

text \<open>
  \<^verbatim>\<open>while (exponent-- > 0U) result *= base\<close>, at the width of the result type; the final
  decrement of the exponent past zero is not observed.
\<close>

function ipow_loop :: "'r::len word \<Rightarrow> 'e::len word \<Rightarrow> 'r word \<Rightarrow> 'r word" where
  "ipow_loop base expo acc = (if expo > 0 then ipow_loop base (expo - 1) (acc * base) else acc)"
  by pat_completeness auto
termination
  by (relation "measure (\<lambda>(base, expo, acc). unat expo)") (auto simp: unat_minus_one unat_gt_0 word_gt_0)

declare ipow_loop.simps [simp del]

definition ipow :: "'b::len word \<Rightarrow> 'e::len word \<Rightarrow> 'r::len word" where
  "ipow base expo = ipow_loop (ucast base) expo 1"

text \<open>The instance for \<^verbatim>\<open>size_t\<close>: the base \<^verbatim>\<open>2U\<close> is 32 bits wide, the result 64.\<close>

definition ipow2 :: "64 word \<Rightarrow> 64 word" where
  "ipow2 expo = ipow (2 :: 32 word) expo"

section \<open>A cast keeps the values of the type it casts to\<close>

lemma static_cast_in_type:
  assumes "in_type t v" "0 < bits t"
  shows "static_cast t v = v"
proof (cases "is_signed t")
  case True
  have "signed_take_bit (bits t - 1) v = v"
    using assms True by (intro signed_take_bit_int_eq_self) (auto simp: in_type_def type_min_def type_max_def)
  with True show ?thesis
    by (simp add: static_cast_def)
next
  case False
  have "take_bit (bits t) v = v"
    using assms False by (intro take_bit_int_eq_self) (auto simp: in_type_def type_min_def type_max_def)
  with False show ?thesis
    by (simp add: static_cast_def)
qed

lemma power_pred_less: "a \<le> b \<Longrightarrow> (2::int) ^ a - 1 \<le> 2 ^ b - 1"
  by (intro diff_right_mono power_increasing) auto

lemma type_range_mono:
  assumes "is_signed r = is_signed t" "bits r \<le> bits t"
  shows "type_min t \<le> type_min r" and "type_max r \<le> type_max t"
  unfolding type_min_def type_max_def
  using assms power_pred_less [of "bits r" "bits t"] power_pred_less [of "bits r - 1" "bits t - 1"]
  by (simp_all only: diff_le_mono split: if_split) auto

lemma type_max_signed_unsigned:
  assumes "is_signed s" "\<not> is_signed u" "bits s \<le> bits u"
  shows "type_max s \<le> type_max u"
  unfolding type_max_def
  using assms power_pred_less [of "bits s - 1" "bits u"] by (simp only: if_True if_False)

lemma type_min_nonpos: "type_min t \<le> 0"
  by (simp add: type_min_def)

lemma in_wider_same:
  assumes "is_signed r = is_signed t" "bits r \<le> bits t" "in_type r v"
  shows "in_type t v"
  using type_range_mono [OF assms(1,2)] assms(3) by (auto simp: in_type_def)

lemma type_bounds_in_type:
  assumes "0 < bits t"
  shows "in_type t (type_min t)" and "in_type t (type_max t)"
  using assms by (auto simp: in_type_def type_min_def type_max_def)

lemma safe_cast_same_exact:
  assumes "is_signed r = is_signed t" "0 < bits r" "0 < bits t" "in_type t v"
  shows "safe_cast_same r t v =
    (if v < type_min r then Inl (Throw ''value < result min'')
     else if type_max r < v then Inl (Throw ''value > result max'') else Inr v)"
proof -
  define wider where "wider = (if bits r \<le> bits t then t else r)"
  have pos: "0 < bits wider"
    using assms by (simp add: wider_def)
  have "in_type wider v" "in_type wider (type_min r)" "in_type wider (type_max r)"
    using assms type_bounds_in_type by (auto simp: wider_def intro: in_wider_same)
  then have eqs: "static_cast wider v = v" "static_cast wider (type_min r) = type_min r"
      "static_cast wider (type_max r) = type_max r"
    using pos by (auto intro: static_cast_in_type)
  have "\<not> v < type_min r \<Longrightarrow> \<not> type_max r < v \<Longrightarrow> static_cast r v = v"
    using assms(2) by (intro static_cast_in_type) (auto simp: in_type_def)
  with eqs show ?thesis
    by (auto simp: safe_cast_same_def Let_def wider_def [symmetric])
qed

lemma signed_max_fits_unsigned:
  assumes "is_signed s" "\<not> is_signed u" "bits s \<le> bits u" "0 \<le> v" "v \<le> type_max s"
  shows "in_type u v"
  using type_max_signed_unsigned [OF assms(1-3)] assms by (simp add: in_type_def type_min_def)

lemma safe_cast_to_unsigned_exact:
  assumes "\<not> is_signed r" "is_signed t" "0 < bits r" "0 < bits t" "in_type t v"
  shows "safe_cast_to_unsigned r t v =
    (if v < type_min r then Inl (Throw ''value < 0'')
     else if type_max r < v then Inl (Throw ''value > result max'') else Inr v)"
proof (cases "v < 0")
  case True
  with assms show ?thesis
    by (simp add: safe_cast_to_unsigned_def Let_def type_min_def)
next
  case False
  define wider where "wider = (if bits r \<le> bits t then make_unsigned t else r)"
  have unsigned: "\<not> is_signed wider" and pos: "0 < bits wider"
    and widths: "bits t \<le> bits wider" "bits r \<le> bits wider"
    using assms by (auto simp: wider_def make_unsigned_def)
  have "in_type wider v"
    using assms(2,5) False widths(1) unsigned by (simp add: signed_max_fits_unsigned [of t] in_type_def [of t])
  moreover have "in_type wider (type_max r)"
    using assms(1) unsigned widths(2) type_bounds_in_type(2) [OF assms(3)] by (simp add: in_wider_same [of r])
  ultimately have eqs: "static_cast wider v = v" "static_cast wider (type_max r) = type_max r"
    using pos by (simp_all add: static_cast_in_type)
  have "v \<le> type_max r \<Longrightarrow> static_cast r v = v"
    using False assms(1,3) by (intro static_cast_in_type) (simp_all add: in_type_def type_min_def)
  with eqs False assms(1) show ?thesis
    by (auto simp: safe_cast_to_unsigned_def Let_def wider_def [symmetric] type_min_def)
qed

lemma safe_cast_to_signed_exact:
  assumes "is_signed r" "\<not> is_signed t" "0 < bits r" "0 < bits t" "in_type t v"
  shows "safe_cast_to_signed r t v =
    (if type_max r < v then Inl (Throw ''value > result max'') else Inr v)"
proof -
  define wider where "wider = (if bits r \<le> bits t then t else make_unsigned r)"
  have unsigned: "\<not> is_signed wider" and pos: "0 < bits wider"
    and widths: "bits t \<le> bits wider" "bits r \<le> bits wider"
    using assms by (auto simp: wider_def make_unsigned_def)
  have nonneg: "0 \<le> v" "0 \<le> type_max r"
    using assms by (auto simp: in_type_def type_min_def type_max_def)
  have "in_type wider v"
    using assms(2,5) unsigned widths(1) by (simp add: in_wider_same [of t])
  moreover have "in_type wider (type_max r)"
    using assms(1) unsigned widths(2) nonneg by (simp add: signed_max_fits_unsigned [of r])
  ultimately have eqs: "static_cast wider v = v" "static_cast wider (type_max r) = type_max r"
    using pos by (simp_all add: static_cast_in_type)
  have "v \<le> type_max r \<Longrightarrow> static_cast r v = v"
    using nonneg assms(3) type_min_nonpos [of r] by (intro static_cast_in_type) (simp_all add: in_type_def)
  with eqs show ?thesis
    by (auto simp: safe_cast_to_signed_def Let_def wider_def [symmetric])
qed

lemmas safe_cast_exact = safe_cast_same_exact safe_cast_to_unsigned_exact safe_cast_to_signed_exact

lemma safe_cast_int_Inr_iff:
  assumes "0 < bits r" "0 < bits t" "in_type t v"
  shows "safe_cast_int r t v = Inr x \<longleftrightarrow> x = v \<and> in_type r v"
proof -
  have "is_signed r \<Longrightarrow> \<not> is_signed t \<Longrightarrow> type_min r \<le> v"
    using assms(3) type_min_nonpos [of r] by (simp add: in_type_def type_min_def [of t])
  with assms show ?thesis
    by (auto simp: safe_cast_int_def safe_cast_exact in_type_def split: if_splits)
qed

section \<open>Powers\<close>

lemma ipow_loop_power: "ipow_loop base expo acc = acc * base ^ unat expo"
proof (induction base expo acc rule: ipow_loop.induct)
  case (1 base expo acc)
  show ?case
  proof (cases "expo > 0")
    case True
    then have "unat expo = Suc (unat (expo - 1))"
      by (metis Suc_pred' unat_gt_0 unat_minus_one word_gt_0)
    with True 1 show ?thesis
      by (simp add: ipow_loop.simps [of base expo acc] mult.assoc)
  next
    case False
    then have "expo = 0"
      by (simp add: word_gt_0)
    then show ?thesis
      by (simp add: ipow_loop.simps [of base 0 acc])
  qed
qed

lemma ipow_power: "ipow base expo = ucast base ^ unat expo"
  by (simp add: ipow_def ipow_loop_power)

lemma ipow2_power: "ipow2 expo = 2 ^ unat expo"
  by (simp add: ipow2_def ipow_power)

lemma unat_two_power: "unat ((2::64 word) ^ n) = (if n < 64 then 2 ^ n else 0)"
proof (cases "n < 64")
  case True
  then have "uint ((2::64 word) ^ n) = 2 ^ n"
    by (intro uint_2p) (simp add: word_gt_0 exp_eq_zero_iff)
  with True show ?thesis
    by (simp add: unat_eq_nat_uint nat_power_eq)
next
  case False
  then have "(2::64 word) ^ n = 0"
    by (simp add: exp_eq_zero_iff)
  then show ?thesis
    by (simp only: False if_False unat_0)
qed

section \<open>Properties\<close>

text \<open>
  \<^verbatim>\<open>safe_cast_int\<close> returns a value of the source type unchanged when the target type has it,
  and throws, naming the bound that is exceeded, in every other case; this holds for the three
  overloads and for all pairs of widths, so the widened comparisons never convert a value wrongly.
\<close>

theorem safe_cast_int_exact:
  assumes "0 < bits r" "0 < bits t" "in_type t v"
  shows "safe_cast_int r t v =
    (if in_type r v then Inr v
     else if type_max r < v then Inl (Throw ''value > result max'')
     else if is_signed r then Inl (Throw ''value < result min'')
     else Inl (Throw (if is_signed t then ''value < 0'' else ''value < result min'')))"
proof -
  have "is_signed r \<Longrightarrow> \<not> is_signed t \<Longrightarrow> type_min r \<le> v"
    using assms(3) type_min_nonpos [of r] by (simp add: in_type_def type_min_def [of t])
  moreover have "type_min r \<le> type_max r"
    using type_bounds_in_type [OF assms(1)] by (simp add: in_type_def)
  ultimately show ?thesis
    using assms by (auto simp: safe_cast_int_def safe_cast_exact in_type_def)
qed

theorem safe_cast_int_exact_witness:
  "safe_cast_int int_t size_t 2147483648 = Inl (Throw ''value > result max'')"
  using safe_cast_int_exact [of int_t size_t 2147483648]
  by (simp add: int_t_def size_t_def in_type_def type_min_def type_max_def)

text \<open>
  \<^verbatim>\<open>ipow2\<close> on \<^verbatim>\<open>size_t\<close> is the power of two while it fits in 64 bits and wraps to 0 for every
  larger exponent, and \<^verbatim>\<open>ipow\<close> is the power at the width of its result.
\<close>

theorem ipow_values:
  "unat (ipow2 expo) = (if unat expo < 64 then 2 ^ unat expo else 0) \<and>
   (ipow base expo' :: 'r::len word) = ucast base ^ unat expo'"
  by (simp add: ipow2_power ipow_power unat_two_power)

end
