(* ===== verification/Base64.thy ===== *)
theory Base64
  imports Prelude
begin

unbundle bit_operations_syntax

text \<open>
  \<^verbatim>\<open>modules/utility/include/utility/encoding/base64.hpp\<close>: the encoder, the length and
  validity pre-pass and the decoder, on bytes, with the code's alphabet, its 256-entry
  decoding table and its 32-bit shifts and masks.
  A container of characters or of \<^verbatim>\<open>std::byte\<close> is a list of bytes: every template instance
  casts its elements to \<^verbatim>\<open>std::uint8_t\<close> first. The lemmas give the round trip, the exact set
  of inputs the decoder accepts with the exception each other input raises, that the branch
  marked \<^verbatim>\<open>std::unreachable\<close> is not reached, and the lengths the code reserves.
\<close>

section \<open>Tables\<close>

definition alphabet :: "byte list" where
  "alphabet = map of_char ''ABCDEFGHIJKLMNOPQRSTUVWXYZabcdefghijklmnopqrstuvwxyz0123456789+/''"

definition pad_chars :: "byte list list" where
  "pad_chars = [map of_char '''', map of_char ''=='', map of_char ''='']"

definition pad_char :: byte where
  "pad_char = of_char (CHR ''='')"

definition decode_able_invalid_char :: byte where
  "decode_able_invalid_char = 0xff"

definition bitmask_6 :: uint32 where
  "bitmask_6 = push_bit 6 1 - 1"

definition bitmask_8 :: uint32 where
  "bitmask_8 = push_bit 8 1 - 1"

definition decode_table :: "byte list" where
  "decode_table =
    [0xff, 0xff, 0xff, 0xff, 0xff, 0xff, 0xff, 0xff, 0xff, 0xff, 0xff, 0xff, 0xff, 0xff, 0xff, 0xff,
     0xff, 0xff, 0xff, 0xff, 0xff, 0xff, 0xff, 0xff, 0xff, 0xff, 0xff, 0xff, 0xff, 0xff, 0xff, 0xff,
     0xff, 0xff, 0xff, 0xff, 0xff, 0xff, 0xff, 0xff, 0xff, 0xff, 0xff, 0x3e, 0xff, 0xff, 0xff, 0x3f,
     0x34, 0x35, 0x36, 0x37, 0x38, 0x39, 0x3a, 0x3b, 0x3c, 0x3d, 0xff, 0xff, 0xff, 0xff, 0xff, 0xff,
     0xff, 0x00, 0x01, 0x02, 0x03, 0x04, 0x05, 0x06, 0x07, 0x08, 0x09, 0x0a, 0x0b, 0x0c, 0x0d, 0x0e,
     0x0f, 0x10, 0x11, 0x12, 0x13, 0x14, 0x15, 0x16, 0x17, 0x18, 0x19, 0xff, 0xff, 0xff, 0xff, 0xff,
     0xff, 0x1a, 0x1b, 0x1c, 0x1d, 0x1e, 0x1f, 0x20, 0x21, 0x22, 0x23, 0x24, 0x25, 0x26, 0x27, 0x28,
     0x29, 0x2a, 0x2b, 0x2c, 0x2d, 0x2e, 0x2f, 0x30, 0x31, 0x32, 0x33, 0xff, 0xff, 0xff, 0xff, 0xff,
     0xff, 0xff, 0xff, 0xff, 0xff, 0xff, 0xff, 0xff, 0xff, 0xff, 0xff, 0xff, 0xff, 0xff, 0xff, 0xff,
     0xff, 0xff, 0xff, 0xff, 0xff, 0xff, 0xff, 0xff, 0xff, 0xff, 0xff, 0xff, 0xff, 0xff, 0xff, 0xff,
     0xff, 0xff, 0xff, 0xff, 0xff, 0xff, 0xff, 0xff, 0xff, 0xff, 0xff, 0xff, 0xff, 0xff, 0xff, 0xff,
     0xff, 0xff, 0xff, 0xff, 0xff, 0xff, 0xff, 0xff, 0xff, 0xff, 0xff, 0xff, 0xff, 0xff, 0xff, 0xff,
     0xff, 0xff, 0xff, 0xff, 0xff, 0xff, 0xff, 0xff, 0xff, 0xff, 0xff, 0xff, 0xff, 0xff, 0xff, 0xff,
     0xff, 0xff, 0xff, 0xff, 0xff, 0xff, 0xff, 0xff, 0xff, 0xff, 0xff, 0xff, 0xff, 0xff, 0xff, 0xff,
     0xff, 0xff, 0xff, 0xff, 0xff, 0xff, 0xff, 0xff, 0xff, 0xff, 0xff, 0xff, 0xff, 0xff, 0xff, 0xff,
     0xff, 0xff, 0xff, 0xff, 0xff, 0xff, 0xff, 0xff, 0xff, 0xff, 0xff, 0xff, 0xff, 0xff, 0xff, 0xff]"

definition encode_char :: "uint32 \<Rightarrow> byte" where
  "encode_char g = alphabet ! unat g"

definition decode_char :: "byte \<Rightarrow> byte" where
  "decode_char c = decode_table ! unat c"

section \<open>Encoding\<close>

definition calc_encoded_length_impl :: "64 word \<Rightarrow> 64 word" where
  "calc_encoded_length_impl len = 4 * ((len + 2) div 3)"

text \<open>
  The main loop consumes three bytes at a time; the two tails are the cases of the
  \<^verbatim>\<open>switch\<close> on the remaining length.
\<close>

fun base64_encode :: "byte list \<Rightarrow> byte list" where
  "base64_encode (x0 # x1 # x2 # rest) =
     (let b0 = push_bit 16 (ucast x0 :: uint32);
          b1 = push_bit 8 (ucast x1 :: uint32);
          b2 = (ucast x2 :: uint32);
          bx = b0 OR b1 OR b2;
          g0 = drop_bit 18 bx AND bitmask_6;
          g1 = drop_bit 12 bx AND bitmask_6;
          g2 = drop_bit 6 bx AND bitmask_6;
          g3 = bx AND bitmask_6
      in encode_char g0 # encode_char g1 # encode_char g2 # encode_char g3 # base64_encode rest)"
| "base64_encode [] = []"
| "base64_encode [x0] =
     (let bx = push_bit 16 (ucast x0 :: uint32);
          g0 = drop_bit 18 bx AND bitmask_6;
          g1 = drop_bit 12 bx AND bitmask_6
      in [encode_char g0, encode_char g1] @ pad_chars ! 1)"
| "base64_encode [x0, x1] =
     (let b0 = push_bit 16 (ucast x0 :: uint32);
          b1 = push_bit 8 (ucast x1 :: uint32);
          bx = b0 OR b1;
          g0 = drop_bit 18 bx AND bitmask_6;
          g1 = drop_bit 12 bx AND bitmask_6;
          g2 = drop_bit 6 bx AND bitmask_6
      in [encode_char g0, encode_char g1, encode_char g2] @ pad_chars ! 2)"

section \<open>Decoding\<close>

record decoded_length_result =
  decoded_length :: nat
  encoded_length :: nat
  pad_length :: nat

text \<open>The scan of the pre-pass: the number of padding characters, or the exception.\<close>

fun count_padding :: "byte list \<Rightarrow> nat \<Rightarrow> fault + nat" where
  "count_padding [] pads = Inr pads"
| "count_padding (c # cs) pads =
     (if c = pad_char then count_padding cs (pads + 1)
      else if decode_char c = decode_able_invalid_char then Inl (Throw ''base64: invalid input'')
      else if pads > 0 then Inl (Throw ''base64: junk after padding'')
      else count_padding cs pads)"

definition calc_decoded_length_impl :: "byte list \<Rightarrow> fault + decoded_length_result" where
  "calc_decoded_length_impl input =
     (if length input mod 4 \<noteq> 0 then Inl (Throw ''base64: invalid input length'')
      else and_then (count_padding input 0) (\<lambda>pads.
        if pads > 2 then Inl (Throw ''base64: invalid padding'')
        else Inr \<lparr>decoded_length = (length input div 4) * 3 - pads,
                  encoded_length = length input, pad_length = pads\<rparr>))"

text \<open>
  The decoding loop over \<^verbatim>\<open>input_length\<close> remaining characters, then the \<^verbatim>\<open>switch\<close>; its
  default branch is \<^verbatim>\<open>std::unreachable\<close>.
\<close>

fun decode_loop :: "byte list \<Rightarrow> fault + byte list" where
  "decode_loop (c0 # c1 # c2 # c3 # rest) =
     (let g0 = (ucast (decode_char c0) :: uint32);
          g1 = (ucast (decode_char c1) :: uint32);
          g2 = (ucast (decode_char c2) :: uint32);
          g3 = (ucast (decode_char c3) :: uint32);
          bx = push_bit 18 g0 OR push_bit 12 g1 OR push_bit 6 g2 OR g3;
          b0 = ucast (drop_bit 16 bx AND bitmask_8);
          b1 = ucast (drop_bit 8 bx AND bitmask_8);
          b2 = ucast (bx AND bitmask_8)
      in transform (decode_loop rest) (\<lambda>bs. b0 # b1 # b2 # bs))"
| "decode_loop [] = Inr []"
| "decode_loop [c0, c1] =
     (let g0 = (ucast (decode_char c0) :: uint32);
          g1 = (ucast (decode_char c1) :: uint32);
          bx = push_bit 18 g0 OR push_bit 12 g1
      in Inr [ucast (drop_bit 16 bx AND bitmask_8)])"
| "decode_loop [c0, c1, c2] =
     (let g0 = (ucast (decode_char c0) :: uint32);
          g1 = (ucast (decode_char c1) :: uint32);
          g2 = (ucast (decode_char c2) :: uint32);
          bx = push_bit 18 g0 OR push_bit 12 g1 OR push_bit 6 g2
      in Inr [ucast (drop_bit 16 bx AND bitmask_8), ucast (drop_bit 8 bx AND bitmask_8)])"
| "decode_loop [c0] = Inl Undefined"

definition base64_decode :: "byte list \<Rightarrow> fault + byte list" where
  "base64_decode input =
     (if input = [] then Inr []
      else and_then (calc_decoded_length_impl input) (\<lambda>calc.
        decode_loop (take (encoded_length calc - pad_length calc) input)))"

section \<open>What the format is\<close>

text \<open>
  A well-formed text is a body of alphabet characters followed by at most two padding
  characters, a multiple of four characters in all.
\<close>

definition well_formed :: "byte list \<Rightarrow> byte list \<Rightarrow> nat \<Rightarrow> bool" where
  "well_formed input body k \<longleftrightarrow>
     input = body @ replicate k pad_char \<and> set body \<subseteq> set alphabet \<and> k \<le> 2 \<and> length input mod 4 = 0"

section \<open>The table inverts the alphabet\<close>

lemma length_alphabet [simp]: "length alphabet = 64"
  by (simp add: alphabet_def)

lemma length_decode_table [simp]: "length decode_table = 256"
  by (simp add: decode_table_def)

lemma alphabet_codes:
  "alphabet =
    [65, 66, 67, 68, 69, 70, 71, 72, 73, 74, 75, 76, 77, 78, 79, 80, 81, 82, 83, 84, 85, 86, 87, 88, 89, 90,
     97, 98, 99, 100, 101, 102, 103, 104, 105, 106, 107, 108, 109, 110, 111, 112, 113, 114, 115, 116, 117,
     118, 119, 120, 121, 122, 48, 49, 50, 51, 52, 53, 54, 55, 56, 57, 43, 47]"
  by (simp add: alphabet_def)

lemma table_inverts_alphabet: "map decode_char alphabet = map of_nat [0..<64]"
  unfolding decode_char_def alphabet_codes decode_table_def by (simp add: upt_rec)

lemma pad_not_in_alphabet: "pad_char \<notin> set alphabet"
  by (simp add: alphabet_codes pad_char_def)

lemma bitmask_6_mask: "bitmask_6 = mask 6"
  by (simp add: bitmask_6_def mask_eq_exp_minus_1)

lemma bitmask_8_mask: "bitmask_8 = mask 8"
  by (simp add: bitmask_8_def mask_eq_exp_minus_1)

lemma decode_encode_char:
  assumes "unat g < 64"
  shows "decode_char (encode_char g) = ucast g"
proof -
  have "decode_char (encode_char g) = map decode_char alphabet ! unat g"
    using assms by (simp add: encode_char_def)
  also have "\<dots> = of_nat (unat g)"
    using assms by (simp add: table_inverts_alphabet)
  also have "\<dots> = ucast g"
    by simp
  finally show ?thesis .
qed

section \<open>Regrouping bits: four groups of six are three bytes\<close>

lemma unat_take_bit_6: "unat (take_bit 6 (x :: uint32)) < 64"
  using take_bit_nat_less_exp [of 6 "unat x"] by (simp add: unsigned_take_bit_eq)

lemma ucast_take_bit_6: "ucast (ucast (take_bit 6 (x :: uint32)) :: byte) = take_bit 6 x"
  by (rule bit_word_eqI) (auto simp: bit_simps)

lemma decode_masked:
  "ucast (decode_char (encode_char (x AND bitmask_6))) = take_bit 6 (x :: uint32)"
  by (simp add: decode_encode_char bitmask_6_mask unat_take_bit_6 ucast_take_bit_6 flip: take_bit_eq_mask)

lemma take_bit_split:
  fixes y :: uint32
  shows "take_bit (m + k) y = push_bit k (take_bit m (drop_bit k y)) OR take_bit k y"
proof (rule bit_word_eqI)
  fix n
  assume "n < LENGTH(32)"
  then show "bit (take_bit (m + k) y) n = bit (push_bit k (take_bit m (drop_bit k y)) OR take_bit k y) n"
    by (cases "n < k") (auto simp: bit_simps)
qed

lemma regroup:
  fixes y :: uint32
  shows "push_bit 18 (take_bit 6 (drop_bit 18 y)) OR push_bit 12 (take_bit 6 (drop_bit 12 y))
     OR push_bit 6 (take_bit 6 (drop_bit 6 y)) OR take_bit 6 y = take_bit 24 y"
  using take_bit_split [of 6 18 y] take_bit_split [of 6 12 y] take_bit_split [of 6 6 y]
  by (simp add: or.assoc)

lemma byte_bit_less: "bit (x :: byte) n \<Longrightarrow> n < 8"
  using bit_imp_le_length [of x n] by simp

lemma unpack3:
  fixes x0 x1 x2 :: byte
  defines "y \<equiv> push_bit 16 (ucast x0 :: uint32) OR push_bit 8 (ucast x1) OR ucast x2"
  shows "take_bit 8 (drop_bit 16 (take_bit 24 y)) = ucast x0"
    and "take_bit 8 (drop_bit 8 (take_bit 24 y)) = ucast x1"
    and "take_bit 8 (take_bit 24 y) = ucast x2"
  unfolding y_def by ((rule bit_word_eqI, force simp: bit_simps dest: byte_bit_less)+)

lemma unpack2:
  fixes x0 x1 :: byte
  defines "y \<equiv> push_bit 16 (ucast x0 :: uint32) OR push_bit 8 (ucast x1)"
  shows "take_bit 8 (drop_bit 16 y) = ucast x0" and "take_bit 8 (drop_bit 8 y) = ucast x1"
  unfolding y_def by ((rule bit_word_eqI, force simp: bit_simps dest: byte_bit_less)+)

lemma unpack1: "take_bit 8 (drop_bit 16 (push_bit 16 (ucast (x0 :: byte) :: uint32))) = ucast x0"
  by (rule bit_word_eqI) (force simp: bit_simps dest: byte_bit_less)

lemma ucast_byte_id: "ucast (ucast (x :: byte) :: uint32) = x"
  by (rule bit_word_eqI) (auto simp: bit_simps dest: byte_bit_less)

lemmas bits_of_groups = ucast_byte_id decode_masked regroup bitmask_8_mask take_bit_eq_mask [symmetric]

lemma tail1:
  fixes y :: uint32
  shows "take_bit 8 (drop_bit 16 (push_bit 18 (take_bit 6 (drop_bit 18 y)) OR push_bit 12 (take_bit 6 (drop_bit 12 y)))) =
    take_bit 8 (drop_bit 16 y)"
proof (rule bit_word_eqI)
  fix n
  assume "n < LENGTH(32)"
  show "bit (take_bit 8 (drop_bit 16 (push_bit 18 (take_bit 6 (drop_bit 18 y)) OR push_bit 12 (take_bit 6 (drop_bit 12 y))))) n
    = bit (take_bit 8 (drop_bit 16 y)) n"
    by (cases "n < 2"; cases "n < 8") (auto simp: bit_simps add.commute)
qed

lemma tail2:
  fixes y :: uint32
  shows "take_bit 8 (drop_bit 8 (push_bit 18 (take_bit 6 (drop_bit 18 y)) OR push_bit 12 (take_bit 6 (drop_bit 12 y))
      OR push_bit 6 (take_bit 6 (drop_bit 6 y)))) = take_bit 8 (drop_bit 8 y)"
    and "take_bit 8 (drop_bit 16 (push_bit 18 (take_bit 6 (drop_bit 18 y)) OR push_bit 12 (take_bit 6 (drop_bit 12 y))
      OR push_bit 6 (take_bit 6 (drop_bit 6 y)))) = take_bit 8 (drop_bit 16 y)"
proof -
  define z where "z = push_bit 18 (take_bit 6 (drop_bit 18 y)) OR push_bit 12 (take_bit 6 (drop_bit 12 y))
      OR push_bit 6 (take_bit 6 (drop_bit 6 y))"
  have "z OR take_bit 6 y = take_bit 24 y"
    using regroup [of y] by (simp add: z_def or.assoc)
  then have "drop_bit 6 (z OR take_bit 6 y) = drop_bit 6 (take_bit 24 y)"
    by simp
  then have z: "drop_bit 6 z = drop_bit 6 (take_bit 24 y)"
    by (simp add: drop_bit_take_bit)
  have "drop_bit 8 z = drop_bit 2 (drop_bit 6 z)" "drop_bit 16 z = drop_bit 10 (drop_bit 6 z)"
    by simp_all
  then have "drop_bit 8 z = drop_bit 8 (take_bit 24 y)" "drop_bit 16 z = drop_bit 16 (take_bit 24 y)"
    unfolding z by simp_all
  then show "take_bit 8 (drop_bit 8 z) = take_bit 8 (drop_bit 8 y)"
    and "take_bit 8 (drop_bit 16 z) = take_bit 8 (drop_bit 16 y)"
    by (simp_all add: drop_bit_take_bit)
qed

lemma table_entries:
  "list_all (\<lambda>(i, v). v = decode_able_invalid_char \<or> (unat v < 64 \<and> alphabet ! unat v = of_nat i)) (enumerate 0 decode_table)"
  unfolding decode_table_def alphabet_codes decode_able_invalid_char_def
  by simp

lemma decodable_iff: "decode_char c \<noteq> decode_able_invalid_char \<longleftrightarrow> c \<in> set alphabet"
proof
  assume valid: "decode_char c \<noteq> decode_able_invalid_char"
  have len: "unat c < length decode_table"
    using unsigned_less [of c] by simp
  then have "(unat c, decode_char c) \<in> set (enumerate 0 decode_table)"
    by (simp add: in_set_enumerate_eq decode_char_def)
  with table_entries have "decode_char c = decode_able_invalid_char \<or>
      (unat (decode_char c) < 64 \<and> alphabet ! unat (decode_char c) = of_nat (unat c))"
    by (auto simp: list_all_iff)
  with valid have "unat (decode_char c) < 64" "alphabet ! unat (decode_char c) = c"
    by auto
  then show "c \<in> set alphabet"
    by (metis length_alphabet nth_mem)
next
  assume "c \<in> set alphabet"
  then obtain i where "i < 64" "c = alphabet ! i"
    by (auto simp: in_set_conv_nth)
  then have "decode_char c = map decode_char alphabet ! i"
    by simp
  also have "\<dots> = of_nat i"
    using \<open>i < 64\<close> by (simp add: table_inverts_alphabet)
  finally have "unat (decode_char c) = i"
    using \<open>i < 64\<close> by (simp add: unat_of_nat take_bit_nat_eq_self)
  with \<open>i < 64\<close> show "decode_char c \<noteq> decode_able_invalid_char"
    by (auto simp: decode_able_invalid_char_def)
qed

lemma encode_char_in_alphabet: "encode_char (x AND bitmask_6) \<in> set alphabet"
  unfolding encode_char_def bitmask_6_mask take_bit_eq_mask [symmetric]
  by (intro nth_mem) (simp add: unat_take_bit_6)

section \<open>The pre-pass\<close>

lemma count_padding_body:
  "set body \<subseteq> set alphabet \<Longrightarrow> count_padding (body @ rest) 0 = count_padding rest 0"
  by (induction body) (use pad_not_in_alphabet decodable_iff in auto)

lemma count_padding_pads: "count_padding (replicate k pad_char) n = Inr (n + k)"
  by (induction k arbitrary: n) auto

lemma count_padding_Inr:
  assumes "count_padding cs n = Inr k"
  shows "if n = 0 then \<exists>body. set body \<subseteq> set alphabet \<and> cs = body @ replicate k pad_char
    else cs = replicate (k - n) pad_char \<and> n \<le> k"
  using assms
proof (induction cs n rule: count_padding.induct)
  case (1 pads)
  then show ?case
    by (auto intro: exI [of _ "[]"])
next
  case (2 c cs pads)
  consider (pad) "c = pad_char" | (body) "c \<noteq> pad_char" "decode_char c \<noteq> decode_able_invalid_char" "pads = 0"
    using "2.prems" by (auto split: if_splits)
  then show ?case
  proof cases
    case pad
    with "2.IH"(1) "2.prems" have "cs = replicate (k - (pads + 1)) pad_char" "pads + 1 \<le> k"
      by auto
    then have "c # cs = replicate (k - pads) pad_char" "pads \<le> k"
      using pad by (auto simp flip: replicate_Suc simp: Suc_diff_Suc)
    then show ?thesis
      by (auto intro: exI [of _ "[]"])
  next
    case body
    with "2.IH"(2) "2.prems" obtain b where "set b \<subseteq> set alphabet" "cs = b @ replicate k pad_char"
      by auto
    moreover have "c \<in> set alphabet"
      using body decodable_iff by simp
    ultimately show ?thesis
      using body by (auto intro: exI [of _ "c # b"])
  qed
qed

section \<open>The decoding loop\<close>

lemma decode_loop_total:
  "length cs mod 4 \<noteq> 1 \<Longrightarrow> \<exists>bs. decode_loop cs = Inr bs \<and> length bs = length cs * 3 div 4"
proof (induction cs rule: decode_loop.induct)
  case (1 c0 c1 c2 c3 rest)
  from "1.prems" have "length rest mod 4 \<noteq> 1"
    by simp
  with "1.IH" obtain bs where "decode_loop rest = Inr bs" "length bs = length rest * 3 div 4"
    by metis
  then show ?case
    by (simp add: Let_def)
qed (simp_all add: Let_def)

lemma encode_shape:
  "\<exists>body k. well_formed (base64_encode bs) body k \<and> decode_loop body = Inr bs"
proof (induction bs rule: base64_encode.induct)
  case (1 x0 x1 x2 rest)
  then obtain body k where wf: "well_formed (base64_encode rest) body k" and dec: "decode_loop body = Inr rest"
    by blast
  define y where "y = push_bit 16 (ucast x0 :: uint32) OR push_bit 8 (ucast x1) OR ucast x2"
  define group where "group = [encode_char (drop_bit 18 y AND bitmask_6), encode_char (drop_bit 12 y AND bitmask_6),
      encode_char (drop_bit 6 y AND bitmask_6), encode_char (y AND bitmask_6)]"
  have enc: "base64_encode (x0 # x1 # x2 # rest) = group @ base64_encode rest"
    by (simp add: group_def y_def Let_def)
  have "set group \<subseteq> set alphabet"
    by (simp add: group_def encode_char_in_alphabet)
  then have "well_formed (base64_encode (x0 # x1 # x2 # rest)) (group @ body) k"
    using wf by (auto simp: well_formed_def enc group_def simp del: base64_encode.simps)
  moreover have "decode_loop (group @ body) = Inr (x0 # x1 # x2 # rest)"
    using unpack3 [of x0 x1 x2, folded y_def]
    by (simp add: group_def Let_def dec bits_of_groups del: drop_bit_or take_bit_or take_bit_take_bit)
  ultimately show ?case
    by blast
next
  case 2
  show ?case
    by (auto simp: well_formed_def intro: exI [of _ "[]"] exI [of _ 0])
next
  case (3 x0)
  define y where "y = push_bit 16 (ucast x0 :: uint32)"
  define body where "body = [encode_char (drop_bit 18 y AND bitmask_6), encode_char (drop_bit 12 y AND bitmask_6)]"
  have "decode_loop body = Inr [x0]"
    using unpack1 [of x0, folded y_def]
    by (simp add: body_def Let_def bits_of_groups tail1 del: drop_bit_or)
  moreover have "well_formed (base64_encode [x0]) body 2"
    by (simp add: well_formed_def body_def y_def encode_char_in_alphabet pad_chars_def pad_char_def Let_def numeral_2_eq_2)
  ultimately show ?case
    by blast
next
  case (4 x0 x1)
  define y where "y = push_bit 16 (ucast x0 :: uint32) OR push_bit 8 (ucast x1)"
  define body where "body = [encode_char (drop_bit 18 y AND bitmask_6), encode_char (drop_bit 12 y AND bitmask_6),
      encode_char (drop_bit 6 y AND bitmask_6)]"
  have "decode_loop body = Inr [x0, x1]"
    using unpack2 [of x0 x1, folded y_def]
    by (simp add: body_def Let_def bits_of_groups tail2 del: drop_bit_or)
  moreover have "well_formed (base64_encode [x0, x1]) body 1"
    by (simp add: well_formed_def body_def y_def encode_char_in_alphabet pad_chars_def pad_char_def Let_def)
  ultimately show ?case
    by blast
qed


section \<open>The whole decoder\<close>

lemma decode_well_formed:
  assumes "well_formed input body k"
  shows "base64_decode input = decode_loop body"
proof (cases "input = []")
  case True
  with assms show ?thesis
    by (simp add: well_formed_def base64_decode_def)
next
  case False
  from assms have input: "input = body @ replicate k pad_char" and "set body \<subseteq> set alphabet"
    and k: "k \<le> 2" and len: "length input mod 4 = 0"
    unfolding well_formed_def by blast+
  then have "count_padding input 0 = Inr k"
    by (simp add: count_padding_body count_padding_pads)
  with k len have "calc_decoded_length_impl input = Inr \<lparr>decoded_length = (length input div 4) * 3 - k,
      encoded_length = length input, pad_length = k\<rparr>"
    by (simp add: calc_decoded_length_impl_def)
  moreover have "take (length input - k) input = body"
    by (simp add: input)
  ultimately show ?thesis
    using False by (simp add: base64_decode_def)
qed

lemma count_padding_throws: "count_padding cs n = Inl f \<Longrightarrow> \<exists>msg. f = Throw msg"
  by (induction cs n rule: count_padding.induct) (auto split: if_splits)

lemma decode_ill_formed:
  assumes "\<nexists>body k. well_formed input body k"
  shows "\<exists>msg. base64_decode input = Inl (Throw msg)"
proof -
  have "input \<noteq> []"
    using assms by (auto simp: well_formed_def)
  moreover have "\<exists>msg. calc_decoded_length_impl input = Inl (Throw msg)"
  proof (cases "count_padding input 0")
    case (Inl f)
    with count_padding_throws [OF Inl] show ?thesis
      by (auto simp: calc_decoded_length_impl_def)
  next
    case (Inr k)
    with assms show ?thesis
      using count_padding_Inr [OF Inr] by (auto simp: calc_decoded_length_impl_def well_formed_def)
  qed
  ultimately show ?thesis
    by (auto simp: base64_decode_def)
qed

lemma quads_minus_padding:
  assumes "n + k = 4 * q" "k \<le> 2"
  shows "n mod 4 \<noteq> (1::nat)" and "n * 3 div 4 = q * 3 - k"
proof -
  have "n mod 4 \<noteq> 1 \<and> n * 3 div 4 = q * 3 - k"
  proof (cases q)
    case 0
    with assms show ?thesis
      by simp
  next
    case (Suc p)
    have "k = 0 \<or> k = Suc 0 \<or> k = Suc (Suc 0)"
      using assms(2) by linarith
    then have "n = 4 * p + 4 \<and> k = 0 \<or> n = 4 * p + 3 \<and> k = 1 \<or> n = 4 * p + 2 \<and> k = 2"
      using assms(1) Suc by linarith
    then show ?thesis
      using Suc by (elim disjE conjE) (simp_all, presburger)
  qed
  then show "n mod 4 \<noteq> (1::nat)" and "n * 3 div 4 = q * 3 - k"
    by blast+
qed

lemma well_formed_body_length:
  assumes "well_formed input body k"
  shows "length body mod 4 \<noteq> 1" and "length body * 3 div 4 = length input div 4 * 3 - k"
proof -
  from assms have "length body + k = 4 * (length input div 4)" "k \<le> 2"
    by (auto simp: well_formed_def)
  from quads_minus_padding [OF this]
  show "length body mod 4 \<noteq> 1" and "length body * 3 div 4 = length input div 4 * 3 - k"
    by simp_all
qed

lemma length_base64_encode: "length (base64_encode bs) = 4 * ((length bs + 2) div 3)"
proof (induction bs rule: base64_encode.induct)
  case (1 x0 x1 x2 rest)
  have "(5 + length rest) div 3 = Suc ((length rest + 2) div 3)"
    using div_add_self2 [of 3 "length rest + 2"] by simp
  moreover have "length (base64_encode rest) = 4 * ((length rest + 2) div 3)"
    by (rule 1) simp_all
  ultimately show ?case
    by (simp add: Let_def)
qed (simp_all add: Let_def pad_chars_def)

lemma decode_encode: "base64_decode (base64_encode bs) = Inr bs"
  using encode_shape [of bs] decode_well_formed by auto

interpretation b64: codec "\<lambda>_. True" base64_encode base64_decode
  by unfold_locales (rule decode_encode)

lemma calc_encoded_length_exact:
  assumes "length bs < 2 ^ 62"
  shows "unat (calc_encoded_length_impl (of_nat (length bs))) = 4 * ((length bs + 2) div 3)"
proof -
  have "unat (of_nat (length bs) + 2 :: 64 word) = length bs + 2"
    using assms by (simp add: unat_word_ariths unat_of_nat take_bit_nat_eq_self)
  then have "unat ((of_nat (length bs) + 2 :: 64 word) div 3) = (length bs + 2) div 3"
    by (simp add: unat_div)
  then show ?thesis
    using assms by (simp add: calc_encoded_length_impl_def unat_word_ariths)
qed

section \<open>Properties\<close>

text \<open>
  C14. Decoding what the encoder wrote gives back the original bytes, for every input.
\<close>

theorem base64_round_trip: "base64_decode (base64_encode bs) = Inr bs"
  by (rule b64.dec_enc) simp

text \<open>
  C26. The decoder accepts exactly the well-formed texts and then returns three bytes for every
  four characters less the padding; every other text raises an exception, and the branch the
  code marks as unreachable is never taken.
\<close>

theorem base64_decode_domain:
  "case base64_decode input of
     Inr out \<Rightarrow> \<exists>body k. well_formed input body k \<and> length out = length input div 4 * 3 - k
   | Inl f \<Rightarrow> (\<exists>msg. f = Throw msg) \<and> (\<nexists>body k. well_formed input body k)"
proof (cases "\<exists>body k. well_formed input body k")
  case True
  then obtain body k where wf: "well_formed input body k"
    by blast
  with decode_loop_total [OF well_formed_body_length(1) [OF wf]] show ?thesis
    by (auto simp: decode_well_formed well_formed_body_length intro!: exI [of _ body] exI [of _ k])
next
  case False
  with decode_ill_formed [OF False] show ?thesis
    by auto
qed

text \<open>
  The encoder's output is exactly as long as the number of bytes it reserves, for every
  input below \<open>2 ^ 62\<close> bytes (beyond it the size computation wraps around).
\<close>

theorem base64_encode_reserves_exactly:
  "length bs < 2 ^ 62 \<Longrightarrow>
    unat (calc_encoded_length_impl (of_nat (length bs))) = length (base64_encode bs)"
  by (simp add: calc_encoded_length_exact length_base64_encode)

theorem base64_encode_reserves_exactly_witness:
  "unat (calc_encoded_length_impl (of_nat (length [1, 2 :: byte]))) = length (base64_encode [1, 2])"
  by (rule base64_encode_reserves_exactly) simp

end
