(* ===== verification/Strings.thy ===== *)
theory Strings
  imports Prelude "HOL-Library.Sublist"
begin

text \<open>
  \<^verbatim>\<open>modules/utility/src/string.cpp\<close> and \<^verbatim>\<open>string.hpp\<close>: trimming, case-insensitive
  comparison and search, prefix and suffix tests, splitting, joining and replacing. A
  \<^verbatim>\<open>std::string\<close> or \<^verbatim>\<open>std::string_view\<close> is a list of characters (bytes); a \<^verbatim>\<open>std::u8string\<close>
  has the same bytes, so the conversions between the two are the identity. The lemmas relate
  each loop to a reference definition: the three case-insensitive comparisons agree, splitting
  loses no character, replacing is the leftmost replacement of every occurrence and returns for
  every non-empty pattern, and they say exactly where trimming and the suffix test differ from
  what their names promise.
\<close>

section \<open>Characters\<close>

text \<open>
  \<^verbatim>\<open>std::toupper\<close> in the \<^verbatim>\<open>"C"\<close> locale on a \<^verbatim>\<open>char\<close>, which is signed on the supported hosts:
  the value is the sign-extended byte, and only the letters a to z change.
\<close>

definition char_value :: "char \<Rightarrow> int" where
  "char_value c = sint (of_char c :: byte)"

definition toupper :: "char \<Rightarrow> int" where
  "toupper c = (let v = char_value c in if 97 \<le> v \<and> v \<le> 122 then v - 32 else v)"

definition white_space :: "char set" where
  "white_space = {CHR 0x09, CHR 0x0A, CHR 0x0C, CHR 0x0D, CHR '' ''}"

definition string_from_u8string :: "string \<Rightarrow> string" where
  "string_from_u8string s = s"

definition u8string_from_string :: "string \<Rightarrow> string" where
  "u8string_from_string s = s"

section \<open>Trimming\<close>

text \<open>The loops over the index from the left, and over the length still kept from the right.\<close>

fun trim_left_loop :: "string \<Rightarrow> char set \<Rightarrow> string \<Rightarrow> string" where
  "trim_left_loop s chars [] = s"
| "trim_left_loop s chars (c # rest) = (if c \<notin> chars then c # rest else trim_left_loop s chars rest)"

definition string_trim_left :: "string \<Rightarrow> char set \<Rightarrow> string" where
  "string_trim_left s chars = trim_left_loop s chars s"

fun trim_right_loop :: "string \<Rightarrow> char set \<Rightarrow> nat \<Rightarrow> string" where
  "trim_right_loop s chars 0 = s"
| "trim_right_loop s chars (Suc j) = (if s ! j \<notin> chars then take (Suc j) s else trim_right_loop s chars j)"

definition string_trim_right :: "string \<Rightarrow> char set \<Rightarrow> string" where
  "string_trim_right s chars = trim_right_loop s chars (length s)"

definition string_trim :: "string \<Rightarrow> char set \<Rightarrow> string" where
  "string_trim s chars = string_trim_left (string_trim_right s chars) chars"

text \<open>The in-place variant counts the length down and resizes.\<close>

fun trimmed_length :: "string \<Rightarrow> char set \<Rightarrow> nat \<Rightarrow> nat" where
  "trimmed_length s chars 0 = 0"
| "trimmed_length s chars (Suc j) = (if s ! j \<notin> chars then Suc j else trimmed_length s chars j)"

definition string_trim_right_in_place :: "string \<Rightarrow> char set \<Rightarrow> string" where
  "string_trim_right_in_place s chars =
     (let len = trimmed_length s chars (length s) in if len \<noteq> length s then take len s else s)"

section \<open>Comparison\<close>

fun compare_ci_loop :: "string \<Rightarrow> string \<Rightarrow> int option" where
  "compare_ci_loop (x # xs) (y # ys) =
     (let a = toupper x; b = toupper y
      in if a < b then Some (-1) else if a > b then Some 1 else compare_ci_loop xs ys)"
| "compare_ci_loop _ _ = None"

definition string_compare_ci :: "string \<Rightarrow> string \<Rightarrow> int" where
  "string_compare_ci first second =
     (case compare_ci_loop first second of
        Some r \<Rightarrow> r
      | None \<Rightarrow> if length first < length second then -1
                else if length first > length second then 1 else 0)"

text \<open>\<^verbatim>\<open>std::ranges::lexicographical_compare\<close> and \<^verbatim>\<open>std::ranges::equal\<close> with a predicate.\<close>

fun lexicographical_compare :: "('a \<Rightarrow> 'a \<Rightarrow> bool) \<Rightarrow> 'a list \<Rightarrow> 'a list \<Rightarrow> bool" where
  "lexicographical_compare lt (x # xs) (y # ys) =
     (if lt x y then True else if lt y x then False else lexicographical_compare lt xs ys)"
| "lexicographical_compare lt xs ys = (xs = [] \<and> ys \<noteq> [])"

definition string_compare_less_ci :: "string \<Rightarrow> string \<Rightarrow> bool" where
  "string_compare_less_ci first second = lexicographical_compare (\<lambda>a b. toupper a < toupper b) first second"

definition string_equals_ci :: "string \<Rightarrow> string \<Rightarrow> bool" where
  "string_equals_ci first second = list_all2 (\<lambda>a b. toupper a = toupper b) first second"

section \<open>Searching\<close>

text \<open>
  \<^verbatim>\<open>std::search\<close>: the least position where the pattern occurs, the length of the text when
  there is none; an empty pattern is found at the start.
\<close>

fun matches_here :: "('a \<Rightarrow> 'b \<Rightarrow> bool) \<Rightarrow> 'a list \<Rightarrow> 'b list \<Rightarrow> bool" where
  "matches_here eq xs [] = True"
| "matches_here eq [] (p # ps) = False"
| "matches_here eq (x # xs) (p # ps) = (eq x p \<and> matches_here eq xs ps)"

fun std_search :: "('a \<Rightarrow> 'b \<Rightarrow> bool) \<Rightarrow> 'a list \<Rightarrow> 'b list \<Rightarrow> nat" where
  "std_search eq [] ps = 0"
| "std_search eq (x # xs) ps = (if matches_here eq (x # xs) ps then 0 else Suc (std_search eq xs ps))"

text \<open>The match is a subrange: it is empty when nothing was found and when the needle is empty.\<close>

definition string_contains_ci :: "string \<Rightarrow> string \<Rightarrow> bool" where
  "string_contains_ci needle haystack =
     (if needle = [] \<and> haystack = [] then True
      else if haystack = [] then False
      else (let pos = std_search (\<lambda>a b. toupper a = toupper b) haystack needle
            in pos < length haystack \<and> needle \<noteq> []))"

fun starts_with_loop :: "string \<Rightarrow> string \<Rightarrow> nat \<Rightarrow> nat \<Rightarrow> bool" where
  "starts_with_loop haystack needle i 0 = True"
| "starts_with_loop haystack needle i (Suc left) =
     (if haystack ! i \<noteq> needle ! i then False else starts_with_loop haystack needle (Suc i) left)"

definition string_starts_with :: "string \<Rightarrow> string \<Rightarrow> bool" where
  "string_starts_with haystack needle =
     (if length haystack < length needle then False
      else if haystack = [] \<and> needle = [] then True
      else starts_with_loop haystack needle 0 (length needle))"

text \<open>
  The loop of the suffix test runs while \<^verbatim>\<open>j > 0\<close>. An empty needle with a non-empty haystack
  starts it at \<^verbatim>\<open>j == SIZE_MAX\<close>, a read far outside the needle.
\<close>

fun ends_with_loop :: "string \<Rightarrow> string \<Rightarrow> nat \<Rightarrow> nat \<Rightarrow> bool" where
  "ends_with_loop haystack needle i 0 = True"
| "ends_with_loop haystack needle i (Suc j) =
     (if haystack ! i \<noteq> needle ! (Suc j) then False else ends_with_loop haystack needle (i - 1) j)"

definition string_ends_with :: "string \<Rightarrow> string \<Rightarrow> fault + bool" where
  "string_ends_with haystack needle =
     (if length haystack < length needle then Inr False
      else if haystack = [] \<and> needle = [] then Inr True
      else if needle = [] then Inl Undefined
      else Inr (ends_with_loop haystack needle (length haystack - 1) (length needle - 1)))"

section \<open>Splitting and joining\<close>

text \<open>\<^verbatim>\<open>input.find_first_of(separator, b)\<close>, with \<open>None\<close> for \<^verbatim>\<open>npos\<close>.\<close>

definition find_first_of :: "string \<Rightarrow> char \<Rightarrow> nat \<Rightarrow> nat option" where
  "find_first_of input sep b =
     (let k = length (takeWhile (\<lambda>c. c \<noteq> sep) (drop b input))
      in if b + k < length input then Some (b + k) else None)"

text \<open>The common loop of the three split functions: the tokens, and the final position \<^verbatim>\<open>a\<close>.\<close>

function split_loop :: "string \<Rightarrow> char \<Rightarrow> nat \<Rightarrow> string list \<times> nat" where
  "split_loop input sep a =
     (case find_first_of input sep a of
        None \<Rightarrow> ([], a)
      | Some b \<Rightarrow> (let (items, a') = split_loop input sep (Suc b)
                   in (take (b - a) (drop a input) # items, a')))"
  by pat_completeness auto
termination
  by (relation "measure (\<lambda>(input, sep, a). length input - a)")
    (auto simp: find_first_of_def Let_def split: if_splits)

declare split_loop.simps [simp del]

definition string_split :: "string \<Rightarrow> char \<Rightarrow> string list" where
  "string_split input sep =
     (let (items, a) = split_loop input sep 0
      in if length input - a > 0 then items @ [drop a input] else items)"

definition string_split_with_remainder :: "string \<Rightarrow> char \<Rightarrow> string list \<times> string" where
  "string_split_with_remainder input sep =
     (let (items, a) = split_loop input sep 0
      in (items, if length input - a > 0 then drop a input else []))"

text \<open>The callback variant hands the same tokens to the callback, one after the other.\<close>

definition string_split_cb :: "string \<Rightarrow> char \<Rightarrow> (string \<Rightarrow> 's \<Rightarrow> 's) \<Rightarrow> 's \<Rightarrow> 's" where
  "string_split_cb input sep cb st =
     (let (items, a) = split_loop input sep 0; st' = fold cb items st
      in if length input - a > 0 then cb (drop a input) st' else st')"

fun join_loop :: "string \<Rightarrow> string list \<Rightarrow> nat \<Rightarrow> string \<Rightarrow> string" where
  "join_loop glue [] i joined = joined"
| "join_loop glue (x # xs) i joined =
     join_loop glue xs (Suc i) ((if i > 0 then joined @ glue else joined) @ x)"

definition string_join :: "string \<Rightarrow> string list \<Rightarrow> string" where
  "string_join glue container = join_loop glue container 0 []"

section \<open>Replacing\<close>

text \<open>
  The loop may run forever, so its value is an option: \<open>None\<close> means that it does not return.
\<close>

partial_function (option) replace_loop :: "string \<Rightarrow> string \<Rightarrow> string \<Rightarrow> nat \<Rightarrow> string \<Rightarrow> string option" where
  "replace_loop input pattern replacement left result =
     (let found = left + std_search (=) (drop left input) pattern;
          result' = result @ take (found - left) (drop left input)
      in if found \<ge> length input then Some result'
         else replace_loop input pattern replacement (found + length pattern) (result' @ replacement))"

definition string_replace :: "string \<Rightarrow> string \<Rightarrow> string \<Rightarrow> string option" where
  "string_replace input pattern replacement =
     (if input = [] then Some [] else replace_loop input pattern replacement 0 [])"

section \<open>Reference definitions\<close>

definition strip_right :: "string \<Rightarrow> char set \<Rightarrow> string" where
  "strip_right s chars = rev (dropWhile (\<lambda>c. c \<in> chars) (rev s))"

definition strip :: "string \<Rightarrow> char set \<Rightarrow> string" where
  "strip s chars = dropWhile (\<lambda>c. c \<in> chars) (strip_right s chars)"

function replace_all :: "string \<Rightarrow> string \<Rightarrow> string \<Rightarrow> string" where
  "replace_all pattern replacement [] = []"
| "replace_all pattern replacement (x # xs) =
     (if matches_here (=) (x # xs) pattern
      then replacement @ replace_all pattern replacement (drop (length pattern - 1) xs)
      else x # replace_all pattern replacement xs)"
  by pat_completeness auto
termination
  by (relation "measure (\<lambda>(p, r, s). length s)") auto

section \<open>Lemmas: trimming\<close>

lemma trim_left_loop_dropWhile:
  "trim_left_loop s chars xs = (if set xs \<subseteq> chars then s else dropWhile (\<lambda>c. c \<in> chars) xs)"
  by (induction xs) auto

lemma string_trim_left_eq:
  "string_trim_left s chars = (if set s \<subseteq> chars then s else dropWhile (\<lambda>c. c \<in> chars) s)"
  by (simp add: string_trim_left_def trim_left_loop_dropWhile)

lemma strip_right_append_in: "c \<in> chars \<Longrightarrow> strip_right (xs @ [c]) chars = strip_right xs chars"
  by (simp add: strip_right_def)

lemma strip_right_append_notin: "c \<notin> chars \<Longrightarrow> strip_right (xs @ [c]) chars = xs @ [c]"
  by (simp add: strip_right_def)

lemma take_trimmed_length:
  "j \<le> length s \<Longrightarrow> take (trimmed_length s chars j) s = strip_right (take j s) chars"
  by (induction j)
    (auto simp: take_Suc_conv_app_nth strip_right_append_in strip_right_append_notin strip_right_def [of "[]"])

lemma trim_right_in_place_eq: "string_trim_right_in_place s chars = strip_right s chars"
  using take_trimmed_length [of "length s" s chars] by (auto simp: string_trim_right_in_place_def Let_def)

lemma trim_right_loop_eq:
  "j \<le> length s \<Longrightarrow>
    trim_right_loop s chars j = (if set (take j s) \<subseteq> chars then s else strip_right (take j s) chars)"
  by (induction j) (auto simp: take_Suc_conv_app_nth strip_right_append_in strip_right_append_notin)

lemma string_trim_right_eq:
  "string_trim_right s chars = (if set s \<subseteq> chars then s else strip_right s chars)"
  by (simp add: string_trim_right_def trim_right_loop_eq)

lemma strip_right_subset_iff: "set (strip_right s chars) \<subseteq> chars \<longleftrightarrow> set s \<subseteq> chars"
proof
  assume *: "set (strip_right s chars) \<subseteq> chars"
  have "set s = set (takeWhile (\<lambda>c. c \<in> chars) (rev s)) \<union> set (dropWhile (\<lambda>c. c \<in> chars) (rev s))"
    by (metis set_append set_rev takeWhile_dropWhile_id)
  with * show "set s \<subseteq> chars"
    by (auto simp: strip_right_def dest: set_takeWhileD)
qed (auto simp: strip_right_def dest!: set_dropWhileD)

lemma string_trim_eq: "string_trim s chars = (if set s \<subseteq> chars then s else strip s chars)"
  by (simp add: string_trim_def string_trim_left_eq string_trim_right_eq strip_right_subset_iff strip_def)

section \<open>Lemmas: comparison\<close>

lemma compare_ci_sign:
  "(string_compare_ci a b = 0 \<longleftrightarrow> string_equals_ci a b) \<and>
   (string_compare_ci a b = -1 \<longleftrightarrow> string_compare_less_ci a b) \<and>
   (string_compare_ci a b = 1 \<longleftrightarrow> string_compare_less_ci b a)"
  unfolding string_compare_ci_def string_equals_ci_def string_compare_less_ci_def
  by (induction a b rule: compare_ci_loop.induct) (auto simp: Let_def split: option.splits)

lemma compare_ci_loop_range: "compare_ci_loop a b = Some r \<Longrightarrow> r = -1 \<or> r = 1"
  by (induction a b rule: compare_ci_loop.induct) (auto simp: Let_def split: if_splits)

lemma compare_ci_range: "string_compare_ci a b \<in> {-1, 0, 1}"
  by (auto simp: string_compare_ci_def split: option.split dest: compare_ci_loop_range)

section \<open>Lemmas: prefixes and suffixes\<close>

lemma starts_with_loop_iff:
  "starts_with_loop haystack needle i n \<longleftrightarrow> (\<forall>k < n. haystack ! (i + k) = needle ! (i + k))"
proof (induction n arbitrary: i)
  case (Suc n)
  then show ?case
    by (auto simp: less_Suc_eq_0_disj)
qed simp

lemma ends_with_loop_iff:
  "j \<le> i \<Longrightarrow> ends_with_loop haystack needle i j \<longleftrightarrow> (\<forall>k. 0 < k \<and> k \<le> j \<longrightarrow> haystack ! (i - j + k) = needle ! k)"
proof (induction j arbitrary: i)
  case (Suc j)
  then have "ends_with_loop haystack needle (i - 1) j \<longleftrightarrow>
      (\<forall>k. 0 < k \<and> k \<le> j \<longrightarrow> haystack ! (i - Suc j + k) = needle ! k)"
    by simp
  with Suc.prems show ?case
    by (auto simp: le_Suc_eq)
qed simp

lemma string_starts_with_prefix: "string_starts_with haystack needle \<longleftrightarrow> prefix needle haystack"
proof (cases "length haystack < length needle")
  case True
  then show ?thesis
    by (auto simp: string_starts_with_def dest: prefix_length_le)
next
  case False
  then have "string_starts_with haystack needle \<longleftrightarrow> (\<forall>k < length needle. haystack ! k = needle ! k)"
    by (auto simp: string_starts_with_def starts_with_loop_iff)
  also have "\<dots> \<longleftrightarrow> take (length needle) haystack = needle"
    using False by (subst list_eq_iff_nth_eq) auto
  finally show ?thesis
    by (metis append_eq_conv_conj prefix_def)
qed

lemma string_ends_with_eq:
  assumes "needle \<noteq> []"
  shows "string_ends_with haystack needle =
    Inr (length needle \<le> length haystack \<and> suffix (tl needle) haystack)"
proof (cases "length haystack < length needle")
  case True
  then show ?thesis
    by (simp add: string_ends_with_def)
next
  case False
  define n where "n = length needle - 1"
  have len: "length needle = Suc n" "Suc n \<le> length haystack"
    using assms False by (auto simp: n_def)
  have tail: "tl needle = drop (Suc 0) needle"
    by (simp add: drop_Suc)
  have "ends_with_loop haystack needle (length haystack - 1) n \<longleftrightarrow>
      (\<forall>k. 0 < k \<and> k \<le> n \<longrightarrow> haystack ! (length haystack - 1 - n + k) = needle ! k)"
    using len by (intro ends_with_loop_iff) simp
  also have "\<dots> \<longleftrightarrow> (\<forall>i < n. haystack ! (length haystack - n + i) = tl needle ! i)"
  proof -
    have "(\<forall>k. 0 < k \<and> k \<le> n \<longrightarrow> haystack ! (length haystack - 1 - n + k) = needle ! k) \<longleftrightarrow>
        (\<forall>i < n. haystack ! (length haystack - 1 - n + Suc i) = needle ! Suc i)"
      by (metis Suc_le_eq Suc_pred zero_less_Suc)
    moreover have "length haystack - 1 - n + Suc i = length haystack - n + i" for i
      using len by simp
    ultimately show ?thesis
      using len by (simp add: nth_tl)
  qed
  also have "\<dots> \<longleftrightarrow> drop (length haystack - n) haystack = tl needle"
    using len by (subst list_eq_iff_nth_eq) auto
  also have "\<dots> \<longleftrightarrow> suffix (tl needle) haystack"
  proof
    assume "drop (length haystack - n) haystack = tl needle"
    then show "suffix (tl needle) haystack"
      by (metis suffix_drop)
  next
    assume "suffix (tl needle) haystack"
    then obtain zs where "haystack = zs @ tl needle"
      by (auto simp: suffix_def)
    with len show "drop (length haystack - n) haystack = tl needle"
      by simp
  qed
  finally show ?thesis
    using assms False by (auto simp: string_ends_with_def n_def)
qed

section \<open>Lemmas: splitting\<close>

lemma find_first_of_Some:
  assumes "find_first_of input sep a = Some b"
  shows "a \<le> b" "b < length input" "input ! b = sep" "sep \<notin> set (take (b - a) (drop a input))"
proof -
  define k where "k = length (takeWhile (\<lambda>c. c \<noteq> sep) (drop a input))"
  have b: "b = a + k" "a + k < length input"
    using assms by (auto simp: find_first_of_def k_def Let_def split: if_splits)
  then show "a \<le> b" "b < length input"
    by auto
  have "k < length (drop a input)"
    using b by simp
  then have "drop a input ! k = sep"
    using nth_length_takeWhile [of "\<lambda>c. c \<noteq> sep" "drop a input"] by (simp only: k_def) simp
  then show "input ! b = sep"
    using b by simp
  have "take k (drop a input) = takeWhile (\<lambda>c. c \<noteq> sep) (drop a input)"
    unfolding k_def by (rule takeWhile_eq_take [symmetric])
  then show "sep \<notin> set (take (b - a) (drop a input))"
    using b by (auto dest: set_takeWhileD)
qed

lemma find_first_of_None:
  assumes "find_first_of input sep a = None"
  shows "sep \<notin> set (drop a input)"
proof -
  have "length (drop a input) \<le> length (takeWhile (\<lambda>c. c \<noteq> sep) (drop a input))"
    using assms by (auto simp: find_first_of_def Let_def split: if_splits)
  then have "takeWhile (\<lambda>c. c \<noteq> sep) (drop a input) = drop a input"
    by (metis takeWhile_eq_take take_all)
  then show ?thesis
    by (metis (mono_tags, lifting) set_takeWhileD)
qed

lemma split_loop_correct:
  assumes "split_loop input sep a = (items, a')" "a \<le> length input"
  shows "drop a input = concat (map (\<lambda>i. i @ [sep]) items) @ drop a' input \<and>
    (\<forall>i \<in> set items. sep \<notin> set i) \<and> sep \<notin> set (drop a' input) \<and> a' \<le> length input"
  using assms
proof (induction input sep a arbitrary: items a' rule: split_loop.induct)
  case (1 input sep a)
  show ?case
  proof (cases "find_first_of input sep a")
    case None
    with 1 show ?thesis
      by (simp add: split_loop.simps [of input sep a] find_first_of_None)
  next
    case (Some b)
    note b = find_first_of_Some [OF Some]
    obtain items' where rest: "split_loop input sep (Suc b) = (items', a')"
      and items: "items = take (b - a) (drop a input) # items'"
      using "1.prems"(1) Some by (auto simp: split_loop.simps [of input sep a] split: prod.splits)
    have IH: "drop (Suc b) input = concat (map (\<lambda>i. i @ [sep]) items') @ drop a' input"
      "\<forall>i \<in> set items'. sep \<notin> set i" "sep \<notin> set (drop a' input)" "a' \<le> length input"
      using "1.IH" [OF Some rest] b by auto
    have "drop a input = take (b - a) (drop a input) @ drop b input"
      using b(1) by (metis append_take_drop_id drop_drop le_add_diff_inverse2)
    also have "drop b input = sep # drop (Suc b) input"
      using b by (metis Cons_nth_drop_Suc)
    finally show ?thesis
      using IH b items by simp
  qed
qed

section \<open>Lemmas: replacing and joining\<close>

lemma matches_here_length: "matches_here eq xs ps \<Longrightarrow> length ps \<le> length xs"
  by (induction eq xs ps rule: matches_here.induct) auto

lemma std_search_le: "std_search eq xs ps \<le> length xs"
  by (induction xs) auto

lemma std_search_match_length:
  "std_search eq xs ps < length xs \<Longrightarrow> std_search eq xs ps + length ps \<le> length xs"
proof (induction xs)
  case (Cons x xs)
  then show ?case
    using matches_here_length [of eq "x # xs" ps] by auto
qed simp

lemma replace_all_search:
  assumes "pattern \<noteq> []"
  shows "replace_all pattern r s =
    (let k = std_search (=) s pattern
     in take k s @ (if k < length s then r @ replace_all pattern r (drop (k + length pattern) s) else []))"
proof (induction s)
  case (Cons x xs)
  show ?case
  proof (cases "matches_here (=) (x # xs) pattern")
    case True
    moreover have "drop (length pattern) (x # xs) = drop (length pattern - 1) xs"
      using assms by (cases pattern) auto
    ultimately show ?thesis
      by simp
  next
    case False
    then show ?thesis
      using Cons by (simp add: Let_def)
  qed
qed simp

lemma replace_loop_correct:
  assumes "pattern \<noteq> []" "left \<le> length input"
  shows "replace_loop input pattern r left res = Some (res @ replace_all pattern r (drop left input))"
  using assms(2)
proof (induction "length input - left" arbitrary: left res rule: less_induct)
  case less
  define s where "s = drop left input"
  define k where "k = std_search (=) s pattern"
  have step: "replace_all pattern r s =
      take k s @ (if k < length s then r @ replace_all pattern r (drop (k + length pattern) s) else [])"
    using replace_all_search [OF assms(1)] by (simp add: Let_def k_def)
  show ?case
  proof (cases "left + k \<ge> length input")
    case True
    then have "\<not> k < length s"
      by (simp add: s_def)
    with step True show ?thesis
      by (simp add: replace_loop.simps [of input pattern r left res] Let_def k_def [symmetric] s_def [symmetric])
  next
    case False
    then have "k < length s"
      using less.prems by (simp add: s_def)
    moreover from this have "k + length pattern \<le> length s"
      unfolding k_def by (rule std_search_match_length)
    moreover have pos: "0 < length pattern"
      using assms(1) by simp
    ultimately have "length input - (left + k + length pattern) < length input - left"
      and "left + k + length pattern \<le> length input"
      using less.prems unfolding s_def length_drop by (linarith, linarith)
    from less.hyps [OF this, of "res @ take k s @ r"] False step \<open>k < length s\<close> show ?thesis
      by (simp add: replace_loop.simps [of input pattern r left res] Let_def k_def [symmetric] s_def [symmetric])
        (simp add: s_def add.commute add.left_commute)
  qed
qed

lemma string_replace_correct:
  "pattern \<noteq> [] \<Longrightarrow> string_replace input pattern r = Some (replace_all pattern r input)"
  by (simp add: string_replace_def replace_loop_correct)

lemma replace_loop_empty_pattern_diverges:
  assumes "replace_loop input pattern r left res = Some out"
  shows "pattern = [] \<longrightarrow> \<not> left < length input"
proof (rule replace_loop.raw_induct
    [where P = "\<lambda>input pattern r left res out. pattern = [] \<longrightarrow> \<not> left < length input", OF _ assms])
  fix f input pattern r left res out
  assume IH: "\<And>input pattern r left res out.
      f input pattern r left res = Some out \<Longrightarrow> pattern = [] \<longrightarrow> \<not> left < length input"
    and eq: "(let found = left + std_search (=) (drop left input) pattern;
          result' = res @ take (found - left) (drop left input)
      in if found \<ge> length input then Some result'
         else f input pattern r (found + length pattern) (result' @ r)) = Some out"
  show "pattern = [] \<longrightarrow> \<not> left < length input"
  proof (intro impI notI)
    assume "pattern = []" "left < length input"
    moreover from this have "std_search (=) (drop left input) pattern = 0"
      by (cases "drop left input") auto
    ultimately have "f input pattern r left (res @ r) = Some out"
      using eq by (simp add: Let_def)
    from IH [OF this] \<open>pattern = []\<close> \<open>left < length input\<close> show False
      by simp
  qed
qed

lemma replace_all_char: "replace_all [c] [d] s = map (\<lambda>x. if x = c then d else x) s"
  by (induction s) auto

lemma string_join_Cons: "join_loop glue xs (Suc i) joined = joined @ concat (map (\<lambda>x. glue @ x) xs)"
  by (induction xs arbitrary: i joined) auto

lemma string_join_snoc_sep:
  "string_join [sep] (items @ [rest]) = concat (map (\<lambda>i. i @ [sep]) items) @ rest"
proof -
  have shift: "x @ concat (map (\<lambda>y. [sep] @ y) (ys @ [rest])) = concat (map (\<lambda>i. i @ [sep]) (x # ys)) @ rest"
    for x ys
    by (induction ys arbitrary: x) auto
  show ?thesis
  proof (cases items)
    case (Cons x ys)
    have "string_join [sep] (items @ [rest]) = x @ concat (map (\<lambda>y. [sep] @ y) (ys @ [rest]))"
      unfolding Cons string_join_def by (simp only: append_Cons join_loop.simps) (simp add: string_join_Cons)
    then show ?thesis
      by (simp only: shift Cons)
  qed (simp add: string_join_def)
qed

lemma fold_snoc: "fold (\<lambda>t acc. acc @ [t]) items acc = acc @ items"
  by (induction items arbitrary: acc) auto

section \<open>Properties\<close>

text \<open>
  The three case-insensitive comparisons agree: \<^verbatim>\<open>string_compare_ci\<close> is 0 exactly on strings
  that \<^verbatim>\<open>string_equals_ci\<close> identifies, -1 exactly when \<^verbatim>\<open>string_compare_less_ci\<close> orders the first
  before the second, 1 exactly in the converse case, and it returns nothing else.
\<close>

theorem case_insensitive_comparisons_agree:
  "(string_compare_ci a b = 0 \<longleftrightarrow> string_equals_ci a b) \<and>
   (string_compare_ci a b = -1 \<longleftrightarrow> string_compare_less_ci a b) \<and>
   (string_compare_ci a b = 1 \<longleftrightarrow> string_compare_less_ci b a) \<and>
   string_compare_ci a b \<in> {-1, 0, 1}"
  using compare_ci_sign compare_ci_range by auto

text \<open>
  Splitting loses nothing: joining the tokens and the remainder with the separator gives the
  input back, no token holds the separator, \<^verbatim>\<open>string_split\<close> returns those tokens and the remainder
  when it is not empty, and the callback variant sees the same sequence.
\<close>

theorem split_lossless:
  "case string_split_with_remainder input sep of (items, rest) \<Rightarrow>
     string_join [sep] (items @ [rest]) = input \<and>
     sep \<notin> set (concat items @ rest) \<and>
     string_split input sep = (if rest = [] then items else items @ [rest]) \<and>
     string_split_cb input sep (\<lambda>t acc. acc @ [t]) [] = string_split input sep"
proof (cases "split_loop input sep 0")
  case (Pair items a)
  then have "drop a input = (if length input - a > 0 then drop a input else [])"
    by simp
  with split_loop_correct [OF Pair] Pair show ?thesis
    by (auto simp: string_split_with_remainder_def string_split_def string_split_cb_def
        string_join_snoc_sep fold_snoc)
qed

text \<open>
  C27. \<^verbatim>\<open>string_replace\<close> returns for every non-empty pattern and replaces its occurrences from left
  to right without overlap; with an empty pattern it returns only on the empty input, and
  otherwise its loop never ends.
\<close>

theorem string_replace_total:
  "string_replace input pattern replacement =
     (if pattern = [] \<and> input \<noteq> [] then None else Some (replace_all pattern replacement input))"
proof (cases "pattern = [] \<and> input \<noteq> []")
  case True
  then have "replace_loop input pattern replacement 0 [] = None"
    using replace_loop_empty_pattern_diverges [of input pattern replacement 0 "[]"]
    by (cases "replace_loop input pattern replacement 0 []") auto
  with True show ?thesis
    by (simp add: string_replace_def)
next
  case False
  then show ?thesis
    using string_replace_correct [of pattern input replacement] by (auto simp: string_replace_def)
qed

text \<open>
  Trimming removes the given characters from the ends of a string that holds any other
  character, and leaves a string that holds only such characters as it is; only the in-place
  variant empties it.
\<close>

theorem string_trim_exact:
  "string_trim s chars = (if set s \<subseteq> chars then s else strip s chars) \<and>
   string_trim_left s chars = (if set s \<subseteq> chars then s else dropWhile (\<lambda>c. c \<in> chars) s) \<and>
   string_trim_right s chars = (if set s \<subseteq> chars then s else strip_right s chars) \<and>
   string_trim_right_in_place s chars = strip_right s chars"
  by (intro conjI string_trim_eq string_trim_left_eq string_trim_right_eq trim_right_in_place_eq)

text \<open>
  \<^verbatim>\<open>string_starts_with\<close> decides the prefix relation. \<^verbatim>\<open>string_ends_with\<close> decides only whether
  the needle without its first character is a suffix of a haystack at least as long as the needle, and
  with an empty needle and a non-empty haystack it reads outside the needle.
\<close>

theorem prefix_and_suffix_tests:
  "(string_starts_with haystack needle \<longleftrightarrow> prefix needle haystack) \<and>
   string_ends_with haystack needle =
     (if needle = [] then if haystack = [] then Inr True else Inl Undefined
      else Inr (length needle \<le> length haystack \<and> suffix (tl needle) haystack))"
  by (simp add: string_starts_with_prefix string_ends_with_eq) (simp add: string_ends_with_def)

end
