(* ===== verification/ThreadPool.thy ===== *)
theory ThreadPool
  imports Prelude "HOL-Library.Multiset"
begin

text \<open>
  \<^verbatim>\<open>modules/utility/src/concurrency/thread_pool_executor.cpp\<close>: the executor with fixed and
  on-demand worker threads. The state has the members of \<^verbatim>\<open>ThreadPoolExecutor::Impl\<close>, the
  threads the executor has started with the point each has reached in \<^verbatim>\<open>worker_fn\<close>, and the calls
  of \<^verbatim>\<open>put\<close>, \<^verbatim>\<open>cancel\<close> and \<^verbatim>\<open>stop\<close> that have left their critical section but not returned. One
  operation below is one critical section; \<open>executor_step\<close> interleaves them. Two ghost fields record the
  tasks accepted by \<^verbatim>\<open>put\<close> and the tasks started, in order.
  The lemmas show, for every interleaving: the assertion in \<^verbatim>\<open>put\<close> never fails, the busy count is
  the number of running tasks, the worker bound, first-in first-out starts, that no task is
  stranded and no wake-up is lost, that \<^verbatim>\<open>stop\<close> drains the queue, and that \<^verbatim>\<open>stop\<close> must not be
  called twice.
\<close>

section \<open>State\<close>

text \<open>
  A \<^verbatim>\<open>std::jthread\<close> is the name of the thread it owns, \<open>None\<close> when it has been moved from. Each
  thread is named by the identifier of the worker it serves.
\<close>

type_synonym 'w jthread = "'w option"

record 'w worker =
  worker_id :: 'w
  worker_thread :: "'w jthread"

text \<open>
  The points where a thread is outside the mutex: about to lock it at the top of the loop (or
  after a join), in the join of a dead worker, asleep in \<^verbatim>\<open>m_cv.wait\<close>, awake and about to lock
  again, in the task, and returned.
\<close>

datatype ('w, 't) point = Top | Joining "'w jthread" | Waiting | Woken | Running 't | Exited

record ('w, 't) thread =
  is_ondemand :: bool
  at :: "('w, 't) point"

text \<open>
  A call outside the mutex: before \<^verbatim>\<open>notify_one\<close>, before \<^verbatim>\<open>notify_all\<close> with the handles it is
  going to join, and joining the handles left.
\<close>

datatype 'w pending_call = Notify_one | Notify_all "'w jthread list" | Join "'w jthread list"

record ('w, 't) executor =
  m_min_thread_count :: nat
  m_max_thread_count :: nat
  m_busy_count :: nat
  m_stop :: bool
  m_cancel :: bool
  m_queue :: "'t list"
  m_workers :: "('w \<times> 'w worker) list"
  m_dead_workers :: "'w worker list"
  threads :: "('w \<times> ('w, 't) thread) list"
  calls :: "'w pending_call multiset"
  accepted :: "'t list"
  started :: "'t list"

definition point_of :: "('w, 't) executor \<Rightarrow> 'w \<Rightarrow> ('w, 't) point option" where
  "point_of e w = map_option at (map_of (threads e) w)"

definition go :: "'w \<Rightarrow> ('w, 't) point \<Rightarrow> ('w, 't) executor \<Rightarrow> ('w, 't) executor" where
  "go w p e = (case map_of (threads e) w of
      None \<Rightarrow> e
    | Some th \<Rightarrow> e\<lparr>threads := AList.update w (th\<lparr>at := p\<rparr>) (threads e)\<rparr>)"

section \<open>Workers\<close>

text \<open>
  \<^verbatim>\<open>m_workers.emplace\<close> does nothing when the key is present, and then the new \<^verbatim>\<open>std::jthread\<close>
  is joined by its destructor while the caller holds the mutex the thread needs.
\<close>

definition add_worker :: "'w \<Rightarrow> bool \<Rightarrow> ('w, 't) executor \<Rightarrow> fault + ('w, 't) executor" where
  "add_worker wid ondemand e =
     (if wid \<in> fst ` set (m_workers e) then Inl Deadlock
      else Inr (e\<lparr>m_workers := m_workers e @ [(wid, \<lparr>worker_id = wid, worker_thread = Some wid\<rparr>)],
                  threads := AList.update wid \<lparr>is_ondemand = ondemand, at = Top\<rparr> (threads e)\<rparr>))"

text \<open>
  The loop draws one \<^verbatim>\<open>uuid()\<close> for each worker; \<open>uuids\<close> is the sequence of their values, and
  \<open>None\<close> means that the sequence was too short.
\<close>

fun add_fixed_workers :: "nat \<Rightarrow> 'w list \<Rightarrow> ('w, 't) executor \<Rightarrow> (fault + ('w, 't) executor) option" where
  "add_fixed_workers n [] e = (if length (m_workers e) < n then None else Some (Inr e))"
| "add_fixed_workers n (wid # uuids) e =
     (if length (m_workers e) < n
      then (case add_worker wid False e of
              Inl f \<Rightarrow> Some (Inl f)
            | Inr e' \<Rightarrow> add_fixed_workers n uuids e')
      else Some (Inr e))"

definition impl :: "nat \<Rightarrow> nat option \<Rightarrow> nat option \<Rightarrow> 'w list \<Rightarrow> (fault + ('w, 't) executor) option" where
  "impl hardware_concurrency min_thread_count max_thread_count uuids =
     (let lo = (case min_thread_count of Some n \<Rightarrow> n | None \<Rightarrow> hardware_concurrency);
          hi = (case max_thread_count of Some n \<Rightarrow> n | None \<Rightarrow> lo)
      in add_fixed_workers lo uuids
           \<lparr>m_min_thread_count = lo, m_max_thread_count = hi, m_busy_count = 0, m_stop = False,
            m_cancel = False, m_queue = [], m_workers = [], m_dead_workers = [], threads = [],
            calls = {#}, accepted = [], started = []\<rparr>)"

section \<open>Calls\<close>

text \<open>The critical section of \<^verbatim>\<open>put\<close>; the call then goes on to \<^verbatim>\<open>notify_one\<close>.\<close>

definition put :: "'w \<Rightarrow> 't \<Rightarrow> ('w, 't) executor \<Rightarrow> fault + ('w, 't) executor" where
  "put wid work e =
     (if m_stop e then Inr e
      else (let e1 = e\<lparr>m_queue := m_queue e @ [work], accepted := accepted e @ [work]\<rparr>
            in if m_busy_count e1 > length (m_workers e1) then Inl Abort
               else (let free_workers = size_sub (length (m_workers e1)) (m_busy_count e1)
                     in transform
                          (if length (m_queue e1) > free_workers \<and> length (m_workers e1) < m_max_thread_count e1
                           then add_worker wid True e1 else Inr e1)
                          (\<lambda>e2. e2\<lparr>calls := add_mset Notify_one (calls e2)\<rparr>))))"

text \<open>The critical section of \<^verbatim>\<open>stop\<close> takes the handles out of the workers.\<close>

definition stop :: "('w, 't) executor \<Rightarrow> ('w, 't) executor" where
  "stop e =
     e\<lparr>m_stop := True,
       m_workers := map (\<lambda>(k, w). (k, w\<lparr>worker_thread := None\<rparr>)) (m_workers e),
       calls := add_mset (Notify_all (map (\<lambda>(k, w). worker_thread w) (m_workers e))) (calls e)\<rparr>"

definition cancel :: "('w, 't) executor \<Rightarrow> ('w, 't) executor" where
  "cancel e = e\<lparr>m_cancel := True, calls := add_mset (Notify_all []) (calls e)\<rparr>"

text \<open>
  \<^verbatim>\<open>notify_one\<close> wakes one sleeping thread, when there is one; which is up to the scheduler.
  \<^verbatim>\<open>notify_all\<close> wakes them all.
\<close>

definition notify_one :: "'w option \<Rightarrow> ('w, 't) executor \<Rightarrow> ('w, 't) executor" where
  "notify_one sleeper e =
     (let e1 = e\<lparr>calls := calls e - {#Notify_one#}\<rparr>
      in case sleeper of None \<Rightarrow> e1 | Some w \<Rightarrow> go w Woken e1)"

definition wake :: "('w, 't) thread \<Rightarrow> ('w, 't) thread" where
  "wake th = (if at th = Waiting then th\<lparr>at := Woken\<rparr> else th)"

definition notify_all :: "'w jthread list \<Rightarrow> ('w, 't) executor \<Rightarrow> ('w, 't) executor" where
  "notify_all hs e =
     e\<lparr>threads := map (\<lambda>(k, th). (k, wake th)) (threads e),
       calls := add_mset (Join hs) (calls e - {#Notify_all hs#})\<rparr>"

text \<open>
  \<^verbatim>\<open>std::jthread::join\<close> throws when the handle owns no thread, and returns when the thread has;
  until then the caller is blocked (\<open>None\<close>).
\<close>

definition jthread_join :: "'w jthread \<Rightarrow> ('w, 't) executor \<Rightarrow> (fault + unit) option" where
  "jthread_join h e =
     (case h of
        None \<Rightarrow> Some (Inl (Throw ''Invalid argument''))
      | Some w \<Rightarrow> if point_of e w = Some Exited then Some (Inr ()) else None)"

definition join_next :: "'w jthread \<Rightarrow> 'w jthread list \<Rightarrow> ('w, 't) executor \<Rightarrow> (fault + ('w, 't) executor) option" where
  "join_next h hs e =
     map_option (\<lambda>r. transform r (\<lambda>_. e\<lparr>calls := add_mset (Join hs) (calls e - {#Join (h # hs)#})\<rparr>))
       (jthread_join h e)"

definition call_return :: "('w, 't) executor \<Rightarrow> ('w, 't) executor" where
  "call_return e = e\<lparr>calls := calls e - {#Join []#}\<rparr>"

section \<open>Worker threads\<close>

text \<open>The index loop over the dead workers, from the last to the first.\<close>

fun find_dead :: "'w \<Rightarrow> 'w worker list \<Rightarrow> nat \<Rightarrow> nat option" where
  "find_dead w ds 0 = None"
| "find_dead w ds (Suc i) = (if worker_id (ds ! i) = w then find_dead w ds i else Some i)"

text \<open>From the predicate of \<^verbatim>\<open>m_cv.wait\<close> to the release of the mutex.\<close>

definition wait_or_take :: "'w \<Rightarrow> ('w, 't) executor \<Rightarrow> ('w, 't) executor" where
  "wait_or_take w e =
     (if \<not> (m_cancel e \<or> m_stop e \<or> m_queue e \<noteq> []) then go w Waiting e
      else if m_cancel e \<or> (m_stop e \<and> m_queue e = []) then go w Exited e
      else (case m_queue e of
              [] \<Rightarrow> go w Top e
            | task # rest \<Rightarrow>
                go w (Running task)
                  (e\<lparr>m_queue := rest, m_busy_count := size_inc (m_busy_count e), started := started e @ [task]\<rparr>)))"

text \<open>From the lock at the top of the loop to the first point where the mutex is released.\<close>

definition loop_top :: "'w \<Rightarrow> ('w, 't) executor \<Rightarrow> ('w, 't) executor" where
  "loop_top w e =
     (case find_dead w (m_dead_workers e) (length (m_dead_workers e)) of
        Some i \<Rightarrow>
          go w (Joining (worker_thread (m_dead_workers e ! i)))
            (e\<lparr>m_dead_workers := take i (m_dead_workers e) @ drop (Suc i) (m_dead_workers e)\<rparr>)
      | None \<Rightarrow> wait_or_take w e)"

definition join_dead :: "'w \<Rightarrow> 'w jthread \<Rightarrow> ('w, 't) executor \<Rightarrow> (fault + ('w, 't) executor) option" where
  "join_dead w h e = map_option (\<lambda>r. transform r (\<lambda>_. go w Top e)) (jthread_join h e)"

text \<open>The second critical section, after the task has returned or thrown.\<close>

definition task_done :: "'w \<Rightarrow> bool \<Rightarrow> ('w, 't) executor \<Rightarrow> fault + ('w, 't) executor" where
  "task_done w ondemand e =
     (let e1 = e\<lparr>m_busy_count := size_dec (m_busy_count e)\<rparr>
      in if ondemand \<and> m_busy_count e1 < length (m_workers e1) \<and> m_queue e1 = []
         then (case map_of (m_workers e1) w of
                 None \<Rightarrow> Inl (Throw ''unordered_map::at'')
               | Some wk \<Rightarrow>
                   Inr (go w Exited (e1\<lparr>m_workers := AList.delete w (m_workers e1),
                                        m_dead_workers := m_dead_workers e1 @ [wk]\<rparr>)))
         else Inr (go w Top e1))"

section \<open>Interleavings\<close>

text \<open>
  The executor is created with sizes that fit a \<^verbatim>\<open>size_t\<close>; each \<^verbatim>\<open>uuid()\<close> drawn later differs
  from those drawn before. A step that throws ends the process and has no successor.
\<close>

definition created :: "('w, 't) executor \<Rightarrow> bool" where
  "created e \<longleftrightarrow>
     m_min_thread_count e < size_modulus \<and> m_max_thread_count e < size_modulus \<and>
     (\<exists>hc lo hi uuids. impl hc lo hi uuids = Some (Inr e))"

inductive executor_step :: "('w, 't) executor \<Rightarrow> ('w, 't) executor \<Rightarrow> bool" where
  put: "wid \<notin> fst ` set (threads e) \<Longrightarrow> put wid work e = Inr e' \<Longrightarrow> executor_step e e'"
| stop: "executor_step e (stop e)"
| cancel: "executor_step e (cancel e)"
| notify_one: "Notify_one \<in># calls e \<Longrightarrow> point_of e w = Some Waiting \<Longrightarrow> executor_step e (notify_one (Some w) e)"
| notify_none: "Notify_one \<in># calls e \<Longrightarrow> (\<And>w. point_of e w \<noteq> Some Waiting) \<Longrightarrow> executor_step e (notify_one None e)"
| notify_all: "Notify_all hs \<in># calls e \<Longrightarrow> executor_step e (notify_all hs e)"
| join_next: "Join (h # hs) \<in># calls e \<Longrightarrow> join_next h hs e = Some (Inr e') \<Longrightarrow> executor_step e e'"
| call_return: "Join [] \<in># calls e \<Longrightarrow> executor_step e (call_return e)"
| loop_top: "point_of e w = Some Top \<Longrightarrow> executor_step e (loop_top w e)"
| spurious: "point_of e w = Some Waiting \<Longrightarrow> executor_step e (go w Woken e)"
| woken: "point_of e w = Some Woken \<Longrightarrow> executor_step e (wait_or_take w e)"
| join_dead: "point_of e w = Some (Joining h) \<Longrightarrow> join_dead w h e = Some (Inr e') \<Longrightarrow> executor_step e e'"
| task_done:
    "map_of (threads e) w = Some th \<Longrightarrow> at th = Running work \<Longrightarrow> task_done w (is_ondemand th) e = Inr e' \<Longrightarrow>
      executor_step e e'"

section \<open>Moving one thread\<close>

lemma go_fields [simp]:
  "m_min_thread_count (go w p e) = m_min_thread_count e"
  "m_max_thread_count (go w p e) = m_max_thread_count e"
  "m_busy_count (go w p e) = m_busy_count e"
  "m_stop (go w p e) = m_stop e"
  "m_cancel (go w p e) = m_cancel e"
  "m_queue (go w p e) = m_queue e"
  "m_workers (go w p e) = m_workers e"
  "m_dead_workers (go w p e) = m_dead_workers e"
  "calls (go w p e) = calls e"
  "accepted (go w p e) = accepted e"
  "started (go w p e) = started e"
  by (simp_all add: go_def split: option.split)

lemma point_of_cong: "threads e = threads e' \<Longrightarrow> point_of e w = point_of e' w"
  by (simp add: point_of_def)

lemma point_of_go [simp]:
  "point_of (go w p e) v = (if v = w \<and> point_of e w \<noteq> None then Some p else point_of e v)"
  by (auto simp: go_def point_of_def AList.update_conv' split: option.split)

lemma keys_go [simp]: "map fst (threads (go w p e)) = map fst (threads e)"
proof (cases "map_of (threads e) w")
  case (Some th)
  then have "w \<in> set (map fst (threads e))"
    by (metis domI dom_map_of_conv_image_fst list.set_map)
  with Some show ?thesis
    by (simp add: go_def AList.update_keys)
qed (simp add: go_def)

definition num :: "(('w, 't) point \<Rightarrow> bool) \<Rightarrow> ('w, 't) executor \<Rightarrow> nat" where
  "num P e = tally (\<lambda>th. P (at th)) (threads e)"

lemma num_go:
  assumes "point_of e w = Some q"
  shows "num P (go w p e) + of_bool (P q) = num P e + of_bool (P p)"
proof -
  obtain th where th: "map_of (threads e) w = Some th" "at th = q"
    using assms by (auto simp: point_of_def)
  then show ?thesis
    using tally_update [OF th(1), of "\<lambda>th. P (at th)" "th\<lparr>at := p\<rparr>"] by (simp add: num_def go_def)
qed

lemma num_pos_iff:
  assumes "distinct (map fst (threads e))"
  shows "0 < num P e \<longleftrightarrow> (\<exists>w p. point_of e w = Some p \<and> P p)"
  using assms unfolding num_def tally_pos_iff point_of_def
  by (force simp: map_of_is_SomeI)

lemma tally_ondemand_go: "tally (\<lambda>th. Q (is_ondemand th)) (threads (go w p e)) = tally (\<lambda>th. Q (is_ondemand th)) (threads e)"
proof (cases "map_of (threads e) w")
  case (Some th)
  then show ?thesis
    using tally_update [OF Some, of "\<lambda>th. Q (is_ondemand th)" "th\<lparr>at := p\<rparr>"] by (simp add: go_def)
qed (simp add: go_def)

section \<open>The invariant\<close>

definition is_running :: "('w, 't) point \<Rightarrow> bool" where
  "is_running p \<longleftrightarrow> (case p of Running _ \<Rightarrow> True | _ \<Rightarrow> False)"

text \<open>Not asleep, not in a task and not returned: on the way to the predicate of the wait.\<close>

definition is_alert :: "('w, 't) point \<Rightarrow> bool" where
  "is_alert p \<longleftrightarrow> (case p of Top \<Rightarrow> True | Joining _ \<Rightarrow> True | Woken \<Rightarrow> True | _ \<Rightarrow> False)"

definition is_waiting :: "('w, 't) point \<Rightarrow> bool" where
  "is_waiting p \<longleftrightarrow> (case p of Waiting \<Rightarrow> True | _ \<Rightarrow> False)"

definition is_live :: "('w, 't) point \<Rightarrow> bool" where
  "is_live p \<longleftrightarrow> (case p of Exited \<Rightarrow> False | _ \<Rightarrow> True)"

lemmas point_simps = is_running_def is_alert_def is_waiting_def is_live_def

fun handles :: "'w pending_call \<Rightarrow> 'w set" where
  "handles Notify_one = {}"
| "handles (Notify_all hs) = {w. Some w \<in> set hs}"
| "handles (Join hs) = {w. Some w \<in> set hs}"

definition workers_ok :: "('w, 't) executor \<Rightarrow> bool" where
  "workers_ok e \<longleftrightarrow>
     distinct (map fst (m_workers e)) \<and> distinct (map fst (threads e)) \<and>
     (\<forall>k wk. map_of (m_workers e) k = Some wk \<longrightarrow>
        point_of e k \<noteq> None \<and> worker_id wk = k \<and> worker_thread wk = (if m_stop e then None else Some k)) \<and>
     (\<forall>w p. point_of e w = Some p \<and> is_live p \<longrightarrow> map_of (m_workers e) w \<noteq> None)"

definition fixed_ok :: "('w, 't) executor \<Rightarrow> bool" where
  "fixed_ok e \<longleftrightarrow>
     tally (\<lambda>th. \<not> is_ondemand th) (threads e) = m_min_thread_count e \<and>
     (\<forall>w th. map_of (threads e) w = Some th \<and> \<not> is_ondemand th \<longrightarrow> map_of (m_workers e) w \<noteq> None)"

definition counts_ok :: "('w, 't) executor \<Rightarrow> bool" where
  "counts_ok e \<longleftrightarrow>
     m_busy_count e = num is_running e \<and>
     length (m_workers e) \<le> max (m_min_thread_count e) (m_max_thread_count e) \<and>
     m_min_thread_count e < size_modulus \<and> m_max_thread_count e < size_modulus"

definition grow_ok :: "('w, 't) executor \<Rightarrow> bool" where
  "grow_ok e \<longleftrightarrow>
     length (m_queue e) + m_busy_count e \<le> length (m_workers e) \<or> m_max_thread_count e \<le> length (m_workers e)"

definition alive_ok :: "('w, 't) executor \<Rightarrow> bool" where
  "alive_ok e \<longleftrightarrow>
     (\<not> m_stop e \<and> \<not> m_cancel e \<longrightarrow> (\<forall>k. map_of (m_workers e) k \<noteq> None \<longrightarrow> point_of e k \<noteq> Some Exited)) \<and>
     (\<not> m_cancel e \<and> 0 < m_max_thread_count e \<and> num is_live e = 0 \<longrightarrow> m_queue e = [])"

definition wake_ok :: "('w, 't) executor \<Rightarrow> bool" where
  "wake_ok e \<longleftrightarrow> 0 < num is_waiting e \<longrightarrow>
     (m_cancel e \<or> length (m_queue e) \<le> count (calls e) Notify_one + num is_alert e) \<and>
     (m_stop e \<or> m_cancel e \<longrightarrow> (\<exists>hs. Notify_all hs \<in># calls e))"

definition joins_ok :: "('w, 't) executor \<Rightarrow> bool" where
  "joins_ok e \<longleftrightarrow>
     (if m_stop e
      then (\<forall>w p. point_of e w = Some p \<and> is_live p \<longrightarrow> (\<exists>c. c \<in># calls e \<and> w \<in> handles c))
      else (\<forall>d \<in> set (m_dead_workers e). \<exists>v. worker_thread d = Some v \<and> point_of e v = Some Exited) \<and>
           (\<forall>w h. point_of e w = Some (Joining h) \<longrightarrow> (\<exists>v. h = Some v \<and> point_of e v = Some Exited)))"

definition executor_inv :: "('w, 't) executor \<Rightarrow> bool" where
  "executor_inv e \<longleftrightarrow> workers_ok e \<and> fixed_ok e \<and> counts_ok e \<and> accepted e = started e @ m_queue e \<and>
     grow_ok e \<and> alive_ok e \<and> wake_ok e \<and> joins_ok e"

lemmas inv_defs = workers_ok_def fixed_ok_def counts_ok_def grow_ok_def alive_ok_def wake_ok_def joins_ok_def

section \<open>Frame rules\<close>

lemma point_of_fields [simp]:
  "point_of (e\<lparr>m_queue := q\<rparr>) = point_of e"
  "point_of (e\<lparr>m_busy_count := n\<rparr>) = point_of e"
  "point_of (e\<lparr>m_stop := b\<rparr>) = point_of e"
  "point_of (e\<lparr>m_cancel := b\<rparr>) = point_of e"
  "point_of (e\<lparr>m_workers := ws\<rparr>) = point_of e"
  "point_of (e\<lparr>m_dead_workers := ds\<rparr>) = point_of e"
  "point_of (e\<lparr>calls := cs\<rparr>) = point_of e"
  "point_of (e\<lparr>accepted := ts\<rparr>) = point_of e"
  "point_of (e\<lparr>started := ts\<rparr>) = point_of e"
  by (simp_all add: point_of_def fun_eq_iff)

lemma num_fields [simp]:
  "num P (e\<lparr>m_queue := q\<rparr>) = num P e"
  "num P (e\<lparr>m_busy_count := n\<rparr>) = num P e"
  "num P (e\<lparr>m_stop := b\<rparr>) = num P e"
  "num P (e\<lparr>m_cancel := b\<rparr>) = num P e"
  "num P (e\<lparr>m_workers := ws\<rparr>) = num P e"
  "num P (e\<lparr>m_dead_workers := ds\<rparr>) = num P e"
  "num P (e\<lparr>calls := cs\<rparr>) = num P e"
  "num P (e\<lparr>accepted := ts\<rparr>) = num P e"
  "num P (e\<lparr>started := ts\<rparr>) = num P e"
  by (simp_all add: num_def)

lemma map_of_go_ondemand:
  "map_of (threads (go w p e)) v = Some th \<Longrightarrow> \<exists>th'. map_of (threads e) v = Some th' \<and> is_ondemand th' = is_ondemand th"
  by (auto simp: go_def AList.update_conv' split: option.splits if_splits)

lemma fixed_ok_go: "fixed_ok e \<Longrightarrow> fixed_ok (go w p e)"
  unfolding fixed_ok_def tally_ondemand_go [of "\<lambda>b. \<not> b"]
  by (force dest!: map_of_go_ondemand)

lemma workers_ok_go:
  assumes "workers_ok e" "point_of e w = Some q" "is_live p \<Longrightarrow> is_live q"
  shows "workers_ok (go w p e)"
  using assms unfolding workers_ok_def by (simp add: keys_go split: if_splits) blast

lemma joins_ok_go:
  assumes "joins_ok e" "point_of e w = Some q" "is_live q"
    "\<And>h. p = Joining h \<Longrightarrow> \<not> m_stop e \<Longrightarrow> \<exists>v. h = Some v \<and> point_of e v = Some Exited"
  shows "joins_ok (go w p e)"
proof (cases "m_stop e")
  case True
  with assms(1-3) show ?thesis
    by (auto simp: joins_ok_def)
next
  case False
  have keep: "point_of e v = Some Exited \<Longrightarrow> point_of (go w p e) v = Some Exited" for v
    using assms(2,3) by (auto simp: is_live_def)
  have "\<exists>v. h = Some v \<and> point_of e v = Some Exited" if "point_of (go w p e) u = Some (Joining h)" for u h
    using that False assms by (auto simp: joins_ok_def split: if_splits)
  with keep False assms(1) show ?thesis
    unfolding joins_ok_def go_fields by (simp only: False if_False) blast
qed

lemma num_go_moves:
  assumes "point_of e w = Some q"
  shows "num is_running (go w p e) + of_bool (is_running q) = num is_running e + of_bool (is_running p)"
    "num is_alert (go w p e) + of_bool (is_alert q) = num is_alert e + of_bool (is_alert p)"
    "num is_waiting (go w p e) + of_bool (is_waiting q) = num is_waiting e + of_bool (is_waiting p)"
    "num is_live (go w p e) + of_bool (is_live q) = num is_live e + of_bool (is_live p)"
  using assms by (simp_all add: num_go)

lemma ok_fields [simp]:
  "workers_ok (e\<lparr>m_queue := q\<rparr>) = workers_ok e" "workers_ok (e\<lparr>m_busy_count := n\<rparr>) = workers_ok e"
  "workers_ok (e\<lparr>m_cancel := b\<rparr>) = workers_ok e" "workers_ok (e\<lparr>m_dead_workers := ds\<rparr>) = workers_ok e"
  "workers_ok (e\<lparr>calls := cs\<rparr>) = workers_ok e" "workers_ok (e\<lparr>accepted := ts\<rparr>) = workers_ok e"
  "workers_ok (e\<lparr>started := ts\<rparr>) = workers_ok e"
  "fixed_ok (e\<lparr>m_queue := q\<rparr>) = fixed_ok e" "fixed_ok (e\<lparr>m_busy_count := n\<rparr>) = fixed_ok e"
  "fixed_ok (e\<lparr>m_stop := b\<rparr>) = fixed_ok e" "fixed_ok (e\<lparr>m_cancel := b\<rparr>) = fixed_ok e"
  "fixed_ok (e\<lparr>m_dead_workers := ds\<rparr>) = fixed_ok e" "fixed_ok (e\<lparr>calls := cs\<rparr>) = fixed_ok e"
  "fixed_ok (e\<lparr>accepted := ts\<rparr>) = fixed_ok e" "fixed_ok (e\<lparr>started := ts\<rparr>) = fixed_ok e"
  "joins_ok (e\<lparr>m_queue := q\<rparr>) = joins_ok e" "joins_ok (e\<lparr>m_busy_count := n\<rparr>) = joins_ok e"
  "joins_ok (e\<lparr>m_cancel := b\<rparr>) = joins_ok e" "joins_ok (e\<lparr>m_workers := ws\<rparr>) = joins_ok e"
  "joins_ok (e\<lparr>accepted := ts\<rparr>) = joins_ok e" "joins_ok (e\<lparr>started := ts\<rparr>) = joins_ok e"
  by (simp_all add: workers_ok_def fixed_ok_def joins_ok_def)

lemma count_ok_fields [simp]:
  "counts_ok (e\<lparr>m_queue := q\<rparr>) = counts_ok e" "counts_ok (e\<lparr>m_stop := b\<rparr>) = counts_ok e"
  "counts_ok (e\<lparr>m_cancel := b\<rparr>) = counts_ok e" "counts_ok (e\<lparr>m_dead_workers := ds\<rparr>) = counts_ok e"
  "counts_ok (e\<lparr>calls := cs\<rparr>) = counts_ok e" "counts_ok (e\<lparr>accepted := ts\<rparr>) = counts_ok e"
  "counts_ok (e\<lparr>started := ts\<rparr>) = counts_ok e"
  "grow_ok (e\<lparr>m_stop := b\<rparr>) = grow_ok e" "grow_ok (e\<lparr>m_cancel := b\<rparr>) = grow_ok e"
  "grow_ok (e\<lparr>m_dead_workers := ds\<rparr>) = grow_ok e" "grow_ok (e\<lparr>calls := cs\<rparr>) = grow_ok e"
  "grow_ok (e\<lparr>accepted := ts\<rparr>) = grow_ok e" "grow_ok (e\<lparr>started := ts\<rparr>) = grow_ok e"
  "grow_ok (e\<lparr>threads := xs\<rparr>) = grow_ok e"
  "alive_ok (e\<lparr>m_dead_workers := ds\<rparr>) = alive_ok e" "alive_ok (e\<lparr>calls := cs\<rparr>) = alive_ok e"
  "alive_ok (e\<lparr>accepted := ts\<rparr>) = alive_ok e" "alive_ok (e\<lparr>started := ts\<rparr>) = alive_ok e"
  "alive_ok (e\<lparr>m_busy_count := n\<rparr>) = alive_ok e"
  "wake_ok (e\<lparr>m_dead_workers := ds\<rparr>) = wake_ok e" "wake_ok (e\<lparr>m_workers := ws\<rparr>) = wake_ok e"
  "wake_ok (e\<lparr>accepted := ts\<rparr>) = wake_ok e" "wake_ok (e\<lparr>started := ts\<rparr>) = wake_ok e"
  "wake_ok (e\<lparr>m_busy_count := n\<rparr>) = wake_ok e"
  by (simp_all add: counts_ok_def grow_ok_def alive_ok_def wake_ok_def)

lemma grow_ok_go [simp]: "grow_ok (go w p e) = grow_ok e"
  by (simp add: grow_ok_def)

lemma counts_ok_go:
  "counts_ok e \<Longrightarrow> point_of e w = Some q \<Longrightarrow> is_running p = is_running q \<Longrightarrow> counts_ok (go w p e)"
  using num_go_moves(1) [of e w q p] by (simp add: counts_ok_def)

lemma alive_ok_go: "alive_ok e \<Longrightarrow> point_of e w = Some q \<Longrightarrow> is_live q \<Longrightarrow> is_live p \<Longrightarrow> alive_ok (go w p e)"
  using num_go_moves(4) [of e w q p] by (simp add: alive_ok_def) (auto simp: is_live_def)

lemma wake_ok_go:
  assumes "wake_ok e" "point_of e w = Some q" "\<not> is_waiting p" "is_alert q \<Longrightarrow> is_alert p"
  shows "wake_ok (go w p e)"
proof -
  have "num is_waiting (go w p e) \<le> num is_waiting e" "num is_alert e \<le> num is_alert (go w p e)"
    using num_go_moves(2,3) [OF assms(2), of p] assms(3,4) by (auto simp: of_bool_def split: if_splits)
  with assms(1) show ?thesis
    by (auto simp: wake_ok_def)
qed

lemmas go_frame = workers_ok_go joins_ok_go fixed_ok_go counts_ok_go alive_ok_go wake_ok_go

lemma live_has_worker: "workers_ok e \<Longrightarrow> point_of e w = Some p \<Longrightarrow> is_live p \<Longrightarrow> map_of (m_workers e) w \<noteq> None"
  unfolding workers_ok_def by blast

lemma busy_alert_le_workers:
  assumes "executor_inv e"
  shows "m_busy_count e + num is_alert e \<le> length (m_workers e)"
proof -
  have wf: "distinct (map fst (m_workers e))" "distinct (map fst (threads e))"
    using assms by (simp_all add: executor_inv_def workers_ok_def)
  have "tally (\<lambda>th. is_running (at th) \<or> is_alert (at th)) (threads e) \<le> length (map fst (m_workers e))"
  proof (rule tally_keys [OF wf(2,1)])
    fix k th assume th: "map_of (threads e) k = Some th" "is_running (at th) \<or> is_alert (at th)"
    then have "is_live (at th)"
      by (auto simp: point_simps split: point.splits)
    moreover have "point_of e k = Some (at th)"
      using th by (simp add: point_of_def)
    ultimately have "map_of (m_workers e) k \<noteq> None"
      using assms live_has_worker by (auto simp: executor_inv_def)
    then show "k \<in> set (map fst (m_workers e))"
      by (simp add: map_of_eq_None_iff)
  qed
  moreover have "tally (\<lambda>th. is_running (at th) \<or> is_alert (at th)) (threads e) = num is_running e + num is_alert e"
    unfolding num_def by (rule tally_disjoint) (auto simp: point_simps split: point.splits)
  ultimately show ?thesis
    using assms by (simp add: executor_inv_def counts_ok_def)
qed

lemma min_le_workers:
  assumes "executor_inv e"
  shows "m_min_thread_count e \<le> length (m_workers e)"
proof -
  have wf: "distinct (map fst (m_workers e))" "distinct (map fst (threads e))"
    using assms by (simp_all add: executor_inv_def workers_ok_def)
  have "tally (\<lambda>th. \<not> is_ondemand th) (threads e) \<le> length (map fst (m_workers e))"
  proof (rule tally_keys [OF wf(2,1)])
    fix k th assume "map_of (threads e) k = Some th" "\<not> is_ondemand th"
    then have "map_of (m_workers e) k \<noteq> None"
      using assms by (auto simp: executor_inv_def fixed_ok_def)
    then show "k \<in> set (map fst (m_workers e))"
      by (simp add: map_of_eq_None_iff)
  qed
  with assms show ?thesis
    by (simp add: executor_inv_def fixed_ok_def)
qed

section \<open>Every critical section keeps the invariant\<close>

lemma inv_wait_or_take:
  assumes inv: "executor_inv e" and q: "point_of e w = Some q" "q = Top \<or> q = Woken"
  shows "executor_inv (wait_or_take w e)"
proof -
  note moves = num_go_moves [OF q(1)]
  have live: "is_live q" "is_alert q" "\<not> is_waiting q" "\<not> is_running q" "q \<noteq> Exited"
    using q(2) by (auto simp: point_simps)
  consider (sleep) "\<not> m_cancel e" "\<not> m_stop e" "m_queue e = []"
    | (leave) "m_cancel e \<or> m_stop e \<and> m_queue e = []"
    | (take) task rest where "\<not> m_cancel e" "m_queue e = task # rest"
    by (cases "m_queue e") auto
  then show ?thesis
  proof cases
    case sleep
    then have "wait_or_take w e = go w Waiting e"
      by (simp add: wait_or_take_def)
    moreover have "counts_ok (go w Waiting e)" "wake_ok (go w Waiting e)" "alive_ok (go w Waiting e)"
      "grow_ok (go w Waiting e)"
      using inv moves [of Waiting] sleep live
      by (auto simp: executor_inv_def counts_ok_def wake_ok_def alive_ok_def grow_ok_def is_live_def is_running_def is_waiting_def)
    moreover have "workers_ok (go w Waiting e)" "joins_ok (go w Waiting e)" "fixed_ok (go w Waiting e)"
      using inv live q by (auto simp: executor_inv_def intro: workers_ok_go joins_ok_go fixed_ok_go)
    ultimately show ?thesis
      using inv by (simp add: executor_inv_def)
  next
    case leave
    then have "wait_or_take w e = go w Exited e"
      by (auto simp: wait_or_take_def)
    moreover have "counts_ok (go w Exited e)" "wake_ok (go w Exited e)" "alive_ok (go w Exited e)"
      "grow_ok (go w Exited e)"
      using inv moves [of Exited] leave live
      by (auto simp: executor_inv_def counts_ok_def wake_ok_def alive_ok_def grow_ok_def is_live_def is_running_def is_waiting_def)
    moreover have "workers_ok (go w Exited e)" "joins_ok (go w Exited e)" "fixed_ok (go w Exited e)"
      using inv live q by (auto simp: executor_inv_def intro: workers_ok_go joins_ok_go fixed_ok_go)
    ultimately show ?thesis
      using inv by (simp add: executor_inv_def)
  next
    case take
    define e1 where "e1 = e\<lparr>m_queue := rest, m_busy_count := size_inc (m_busy_count e), started := started e @ [task]\<rparr>"
    have e1: "point_of e1 = point_of e" "\<And>P. num P e1 = num P e"
      by (simp_all add: e1_def)
    from take have eq: "wait_or_take w e = go w (Running task) e1"
      by (simp add: wait_or_take_def e1_def)
    note moves = num_go_moves [of e1 w q "Running task", unfolded e1, OF q(1)]
    have "workers_ok e1" "fixed_ok e1" "joins_ok e1"
      using inv by (simp_all add: executor_inv_def e1_def)
    then have "workers_ok (go w (Running task) e1)" "fixed_ok (go w (Running task) e1)"
      "joins_ok (go w (Running task) e1)"
      using live q e1 by (auto intro: workers_ok_go joins_ok_go fixed_ok_go)
    moreover have "m_busy_count e + 1 < size_modulus"
      using busy_alert_le_workers [OF inv] num_go_moves(2) [OF q(1), of Waiting] live inv
      by (auto simp: executor_inv_def counts_ok_def is_alert_def)
    then have "counts_ok (go w (Running task) e1)" "wake_ok (go w (Running task) e1)" "alive_ok (go w (Running task) e1)"
      "grow_ok (go w (Running task) e1)" "accepted e1 = started e1 @ m_queue e1"
      using inv moves take live
      by (auto simp: executor_inv_def counts_ok_def wake_ok_def alive_ok_def grow_ok_def is_live_def is_running_def is_waiting_def is_alert_def e1_def)
    ultimately show ?thesis
      using eq by (simp add: executor_inv_def)
  qed
qed
lemma find_dead_Some: "find_dead w ds n = Some i \<Longrightarrow> i < n"
  by (induction n) (auto split: if_splits)

lemma inv_go:
  assumes inv: "executor_inv e" and q: "point_of e w = Some q" "is_live q" "\<not> is_running q" and p: "is_alert p"
    "\<And>h. p = Joining h \<Longrightarrow> \<not> m_stop e \<Longrightarrow> \<exists>v. h = Some v \<and> point_of e v = Some Exited"
  shows "executor_inv (go w p e)"
proof -
  have "is_live p" "\<not> is_waiting p" "\<not> is_running p"
    using p(1) by (auto simp: point_simps split: point.splits)
  with inv q p have "workers_ok (go w p e)" "joins_ok (go w p e)" "fixed_ok (go w p e)" "counts_ok (go w p e)"
    "alive_ok (go w p e)" "wake_ok (go w p e)"
    by (auto simp: executor_inv_def intro!: go_frame)
  with inv show ?thesis
    by (simp add: executor_inv_def)
qed

lemma inv_woken: "executor_inv e \<Longrightarrow> point_of e w = Some Waiting \<Longrightarrow> executor_inv (go w Woken e)"
  by (rule inv_go [where q = Waiting]) (simp_all add: point_simps)

lemma inv_remove_dead:
  assumes "executor_inv e" "set ds \<subseteq> set (m_dead_workers e)"
  shows "executor_inv (e\<lparr>m_dead_workers := ds\<rparr>)"
proof -
  have "joins_ok e"
    using assms(1) by (simp add: executor_inv_def)
  then have "joins_ok (e\<lparr>m_dead_workers := ds\<rparr>)"
    using assms(2) by (cases "m_stop e") (simp_all add: joins_ok_def subset_iff)
  with assms(1) show ?thesis
    by (simp add: executor_inv_def)
qed

lemma inv_loop_top:
  assumes inv: "executor_inv e" and q: "point_of e w = Some Top"
  shows "executor_inv (loop_top w e)"
proof (cases "find_dead w (m_dead_workers e) (length (m_dead_workers e))")
  case None
  with assms show ?thesis
    by (simp add: loop_top_def inv_wait_or_take)
next
  case (Some i)
  define e1 where "e1 = e\<lparr>m_dead_workers := take i (m_dead_workers e) @ drop (Suc i) (m_dead_workers e)\<rparr>"
  have i: "m_dead_workers e ! i \<in> set (m_dead_workers e)"
    using find_dead_Some [OF Some] by simp
  have "executor_inv e1"
    unfolding e1_def by (rule inv_remove_dead [OF inv]) (auto dest: in_set_takeD in_set_dropD)
  moreover have "point_of e1 = point_of e" "m_stop e1 = m_stop e"
    by (simp_all add: e1_def)
  moreover have "\<exists>v. worker_thread (m_dead_workers e ! i) = Some v \<and> point_of e v = Some Exited" if "\<not> m_stop e"
    using inv i that by (simp add: executor_inv_def joins_ok_def)
  ultimately have "executor_inv (go w (Joining (worker_thread (m_dead_workers e ! i))) e1)"
    using q by (intro inv_go [where q = Top]) (auto simp: point_simps)
  then show ?thesis
    by (simp add: loop_top_def Some e1_def)
qed

lemma inv_join_dead:
  assumes "executor_inv e" "point_of e w = Some (Joining h)" "join_dead w h e = Some (Inr e')"
  shows "executor_inv e'"
proof -
  have "e' = go w Top e"
    using assms(3) by (auto simp: join_dead_def transform_eq_Inr_iff)
  with assms show ?thesis
    by (auto intro: inv_go [where q = "Joining h"] simp: point_simps)
qed

lemma joins_ok_add_dead:
  assumes "joins_ok e" "\<not> m_stop e \<Longrightarrow> \<exists>v. worker_thread wk = Some v \<and> point_of e v = Some Exited"
    "m_stop e' = m_stop e" "point_of e' = point_of e" "calls e' = calls e"
    "m_dead_workers e' = m_dead_workers e @ [wk]"
  shows "joins_ok e'"
  using assms by (auto simp: joins_ok_def)

lemma inv_task_done:
  assumes inv: "executor_inv e" and th: "map_of (threads e) w = Some th" "at th = Running work"
    and ok: "task_done w (is_ondemand th) e = Inr e'"
  shows "executor_inv e'"
proof -
  have q: "point_of e w = Some (Running work)"
    using th by (simp add: point_of_def)
  have size: "m_busy_count e < size_modulus" "0 < m_busy_count e"
    using busy_alert_le_workers [OF inv] inv num_go_moves(1) [OF q, of Top]
    by (auto simp: executor_inv_def counts_ok_def is_running_def)
  define e1 where "e1 = e\<lparr>m_busy_count := m_busy_count e - 1\<rparr>"
  have e1: "point_of e1 = point_of e" "\<And>P. num P e1 = num P e" "threads e1 = threads e"
    by (simp_all add: e1_def)
  have wf: "workers_ok e1" "fixed_ok e1" "joins_ok e1"
    using inv by (simp_all add: executor_inv_def e1_def)
  consider (again) "e' = go w Top e1"
    | (leave) wk where "is_ondemand th" "m_queue e = []" "map_of (m_workers e) w = Some wk"
       "e' = go w Exited (e1\<lparr>m_workers := AList.delete w (m_workers e), m_dead_workers := m_dead_workers e @ [wk]\<rparr>)"
    using ok size by (auto simp: task_done_def Let_def e1_def split: if_splits option.splits)
  then show ?thesis
  proof cases
    case again
    note moves = num_go_moves(1) [of e1 w "Running work" Top, unfolded e1, OF q]
    have "counts_ok (go w Top e1)"
      using inv moves by (simp add: executor_inv_def counts_ok_def is_running_def) (simp add: e1_def)
    moreover have "alive_ok e1" "wake_ok e1" "grow_ok e1"
      using inv by (auto simp: executor_inv_def grow_ok_def e1_def)
    then have "alive_ok (go w Top e1)" "wake_ok (go w Top e1)" "grow_ok (go w Top e1)"
      "workers_ok (go w Top e1)" "joins_ok (go w Top e1)" "fixed_ok (go w Top e1)"
      using wf q e1(1) by (auto simp: point_simps intro: go_frame)
    ultimately show ?thesis
      using inv again by (simp add: executor_inv_def e1_def)
  next
    case leave
    define e2 where "e2 = e1\<lparr>m_workers := AList.delete w (m_workers e), m_dead_workers := m_dead_workers e @ [wk]\<rparr>"
    have e': "e' = go w Exited e2"
      using leave by (simp add: e2_def)
    have e2: "point_of e2 = point_of e" "\<And>P. num P e2 = num P e" "threads e2 = threads e"
      by (simp_all add: e1_def e2_def)
    note moves = num_go_moves [of e2 w "Running work" Exited, unfolded e2, OF q]
    have "workers_ok e'"
      using inv q unfolding e' e2_def e1_def executor_inv_def workers_ok_def
      by (simp add: AList.distinct_delete AList.delete_conv' is_live_def del: map_of_eq_Some_iff)
    moreover have "fixed_ok e2"
      using inv th leave(1) unfolding e2_def e1_def executor_inv_def fixed_ok_def
      by (auto simp: AList.delete_conv')
    then have "fixed_ok e'"
      unfolding e' by (rule fixed_ok_go)
    moreover have "joins_ok e'"
    proof (rule joins_ok_add_dead [of "go w Exited e1"])
      show "joins_ok (go w Exited e1)"
        using wf(3) q e1(1) by (auto simp: is_live_def intro: joins_ok_go)
      show "\<exists>v. worker_thread wk = Some v \<and> point_of (go w Exited e1) v = Some Exited" if "\<not> m_stop (go w Exited e1)"
        using inv that leave(3) q e1(1) unfolding executor_inv_def workers_ok_def by (simp add: e1_def del: map_of_eq_Some_iff)
    qed (simp_all add: e' e2_def e1_def fun_eq_iff)
    moreover have len: "Suc (length (m_workers e')) = length (m_workers e)"
    proof -
      have "w \<in> fst ` set (m_workers e)"
        using map_of_SomeD [OF leave(3)] by force
      then show ?thesis
        using inv by (simp add: e' e2_def length_delete executor_inv_def workers_ok_def)
    qed
    have fields: "m_busy_count e' = m_busy_count e - 1" "m_queue e' = []" "m_min_thread_count e' = m_min_thread_count e"
      "m_max_thread_count e' = m_max_thread_count e" "m_stop e' = m_stop e" "m_cancel e' = m_cancel e" "calls e' = calls e"
      "point_of e' = (point_of e)(w := Some Exited)" "map_of (m_workers e') = (map_of (m_workers e))(w := None)"
      using leave(2) q by (auto simp: e' e2_def e1_def AList.delete_conv' fun_eq_iff)
    have "counts_ok e'"
      using inv moves(1) len size by (simp add: executor_inv_def counts_ok_def fields is_running_def e' [symmetric])
    moreover have "wake_ok e'"
      using inv moves(2,3) by (simp add: executor_inv_def wake_ok_def fields is_waiting_def e' [symmetric])
    moreover have "alive_ok e'"
      using inv by (simp add: executor_inv_def alive_ok_def fields)
    moreover have "grow_ok e'"
      using busy_alert_le_workers [OF inv] size len by (auto simp: grow_ok_def fields)
    ultimately show ?thesis
      using inv leave by (simp add: executor_inv_def e1_def)
  qed
qed
lemma joins_ok_calls:
  assumes "joins_ok e"
    "\<And>c w. c \<in># calls e \<Longrightarrow> w \<in> handles c \<Longrightarrow> point_of e w \<noteq> Some Exited \<Longrightarrow> \<exists>c'. c' \<in># cs \<and> w \<in> handles c'"
  shows "joins_ok (e\<lparr>calls := cs\<rparr>)"
proof (cases "m_stop e")
  case True
  have "\<exists>c'. c' \<in># cs \<and> w \<in> handles c'" if p: "point_of e w = Some p" "is_live p" for w p
  proof -
    obtain c where "c \<in># calls e" "w \<in> handles c"
      using assms(1) True p unfolding joins_ok_def by (simp only: if_True) blast
    moreover have "point_of e w \<noteq> Some Exited"
      using p by (auto simp: is_live_def)
    ultimately show ?thesis
      by (rule assms(2))
  qed
  with True show ?thesis
    unfolding joins_ok_def by (simp add: True)
next
  case False
  with assms(1) show ?thesis
    by (simp add: joins_ok_def)
qed

lemma wake_ok_calls:
  assumes "wake_ok e" "count (calls e) Notify_one \<le> count cs Notify_one"
    "\<And>hs. Notify_all hs \<in># calls e \<Longrightarrow> \<exists>hs'. Notify_all hs' \<in># cs"
  shows "wake_ok (e\<lparr>calls := cs\<rparr>)"
  using assms unfolding wake_ok_def by (simp; meson add_le_mono1 le_trans)

lemma inv_calls:
  assumes "executor_inv e" "joins_ok (e\<lparr>calls := cs\<rparr>)" "wake_ok (e\<lparr>calls := cs\<rparr>)"
  shows "executor_inv (e\<lparr>calls := cs\<rparr>)"
  using assms by (simp add: executor_inv_def)

lemma inv_cancel:
  assumes "executor_inv e"
  shows "executor_inv (cancel e)"
proof -
  have "alive_ok (cancel e)" "wake_ok (cancel e)"
    by (auto simp: cancel_def alive_ok_def wake_ok_def)
  moreover have "joins_ok (cancel e)"
    unfolding cancel_def using assms by (intro joins_ok_calls) (auto simp: executor_inv_def)
  ultimately show ?thesis
    using assms by (simp add: executor_inv_def cancel_def)
qed

lemma inv_stop:
  assumes "executor_inv e"
  shows "executor_inv (stop e)"
proof -
  have lookup: "map_of (m_workers (stop e)) k = map_option (\<lambda>wk. wk\<lparr>worker_thread := None\<rparr>) (map_of (m_workers e) k)" for k
    by (simp add: stop_def map_of_map)
  have keys: "map fst (m_workers (stop e)) = map fst (m_workers e)" "length (m_workers (stop e)) = length (m_workers e)"
    by (simp_all add: stop_def case_prod_unfold)
  have fields: "point_of (stop e) = point_of e" "threads (stop e) = threads e" "m_stop (stop e)" 
      "\<And>P. num P (stop e) = num P e"
      "m_busy_count (stop e) = m_busy_count e" "m_queue (stop e) = m_queue e" "m_cancel (stop e) = m_cancel e"
      "m_min_thread_count (stop e) = m_min_thread_count e" "m_max_thread_count (stop e) = m_max_thread_count e"
      "accepted (stop e) = accepted e" "started (stop e) = started e"
    by (simp_all add: stop_def)
  have "workers_ok (stop e)"
    using assms unfolding executor_inv_def workers_ok_def by (auto simp: fields lookup keys(1) simp del: map_of_eq_Some_iff)
  moreover have "fixed_ok (stop e)"
    using assms unfolding executor_inv_def fixed_ok_def by (simp add: fields lookup)
  moreover have "counts_ok (stop e)" "grow_ok (stop e)"
    using assms unfolding executor_inv_def counts_ok_def grow_ok_def keys fields by auto
  moreover have "alive_ok (stop e)"
    using assms by (simp add: executor_inv_def alive_ok_def fields)
  moreover have "wake_ok (stop e)"
    using assms by (auto simp: executor_inv_def wake_ok_def fields) (auto simp: stop_def)
  moreover have "joins_ok (stop e)"
  proof -
    have "\<exists>c. c \<in># calls (stop e) \<and> w \<in> handles c" if p: "point_of e w = Some p" "is_live p" for w p
    proof (cases "m_stop e")
      case True
      then show ?thesis
        using assms p by (auto simp: executor_inv_def joins_ok_def stop_def)
    next
      case False
      obtain wk where "map_of (m_workers e) w = Some wk"
        using live_has_worker [OF _ p] assms by (auto simp: executor_inv_def)
      moreover from this have "worker_thread wk = Some w"
        using assms False unfolding executor_inv_def workers_ok_def by auto
      ultimately have "Some w \<in> set (map (\<lambda>(k, w). worker_thread w) (m_workers e))"
        by (force dest: map_of_SomeD)
      then have "w \<in> handles (Notify_all (map (\<lambda>(k, w). worker_thread w) (m_workers e)))"
        by simp
      moreover have "Notify_all (map (\<lambda>(k, w). worker_thread w) (m_workers e)) \<in># calls (stop e)"
        by (simp add: stop_def)
      ultimately show ?thesis
        by blast
    qed
    then show ?thesis
      by (auto simp: joins_ok_def fields)
  qed
  ultimately show ?thesis
    using assms by (simp add: executor_inv_def fields)
qed

lemma inv_join_next:
  assumes "executor_inv e" "Join (h # hs) \<in># calls e" "join_next h hs e = Some (Inr e')"
  shows "executor_inv e'"
proof -
  obtain d where h: "h = Some d" "point_of e d = Some Exited"
    and e': "e' = e\<lparr>calls := add_mset (Join hs) (calls e - {#Join (h # hs)#})\<rparr>"
    using assms(3) by (auto simp: join_next_def jthread_join_def split: option.splits if_splits)
  have kept: "\<exists>c'. c' \<in># add_mset (Join hs) (calls e - {#Join (h # hs)#}) \<and> w \<in> handles c'"
    if "c \<in># calls e" "w \<in> handles c" "point_of e w \<noteq> Some Exited" for c w
  proof (cases "c = Join (h # hs)")
    case True
    with that h have "w \<in> handles (Join hs)"
      by auto
    then show ?thesis
      by (meson union_single_eq_member)
  next
    case False
    with that show ?thesis
      by (intro exI [of _ c]) (simp add: in_diff_count)
  qed
  show ?thesis
    unfolding e'
  proof (rule inv_calls [OF assms(1)])
    show "joins_ok (e\<lparr>calls := add_mset (Join hs) (calls e - {#Join (h # hs)#})\<rparr>)"
      using assms(1) kept by (intro joins_ok_calls) (auto simp: executor_inv_def)
    show "wake_ok (e\<lparr>calls := add_mset (Join hs) (calls e - {#Join (h # hs)#})\<rparr>)"
      using assms(1) by (intro wake_ok_calls) (auto simp: executor_inv_def in_diff_count)
  qed
qed

lemma inv_call_return:
  assumes "executor_inv e"
  shows "executor_inv (call_return e)"
  unfolding call_return_def
proof (rule inv_calls [OF assms])
  show "wake_ok (e\<lparr>calls := calls e - {#Join []#}\<rparr>)"
    using assms by (intro wake_ok_calls) (auto simp: executor_inv_def in_diff_count)
  have "c \<in># calls e - {#Join []#}" if "c \<in># calls e" "w \<in> handles c" for w c
    using that by (cases c) (auto simp: in_diff_count)
  then show "joins_ok (e\<lparr>calls := calls e - {#Join []#}\<rparr>)"
    using assms by (intro joins_ok_calls) (auto simp: executor_inv_def)
qed

lemma inv_notify_one:
  assumes "executor_inv e" "Notify_one \<in># calls e"
  shows "point_of e w = Some Waiting \<Longrightarrow> executor_inv (notify_one (Some w) e)"
    and "(\<And>w. point_of e w \<noteq> Some Waiting) \<Longrightarrow> executor_inv (notify_one None e)"
proof -
  let ?cs = "calls e - {#Notify_one#}"
  have "c \<in># ?cs" if "c \<in># calls e" "w \<in> handles c" for w c
    using that by (cases c) (auto simp: in_diff_count)
  then have joins: "joins_ok (e\<lparr>calls := ?cs\<rparr>)"
    using assms(1) by (intro joins_ok_calls) (auto simp: executor_inv_def)
  show "executor_inv (notify_one None e)" if none: "\<And>w. point_of e w \<noteq> Some Waiting"
  proof -
    have "distinct (map fst (threads e))"
      using assms(1) by (simp add: executor_inv_def workers_ok_def)
    moreover have "is_waiting p \<longleftrightarrow> p = Waiting" for p :: "('a, 'b) point"
      by (cases p) (simp_all add: is_waiting_def)
    ultimately have "num is_waiting e = 0"
      using none num_pos_iff [of e is_waiting] by auto
    then have "wake_ok (e\<lparr>calls := ?cs\<rparr>)"
      by (simp add: wake_ok_def)
    with joins show ?thesis
      using assms(1) by (simp add: notify_one_def inv_calls)
  qed
  show "executor_inv (notify_one (Some w) e)" if q: "point_of e w = Some Waiting"
  proof -
    let ?e = "go w Woken (e\<lparr>calls := ?cs\<rparr>)"
    note moves = num_go_moves [of "e\<lparr>calls := ?cs\<rparr>" w Waiting Woken, unfolded num_fields point_of_fields, OF q]
    have wake: "m_cancel e \<or> length (m_queue e) \<le> count (calls e) Notify_one + num is_alert e"
      "m_stop e \<or> m_cancel e \<Longrightarrow> \<exists>hs. Notify_all hs \<in># calls e"
    proof -
      have "wake_ok e" "0 < num is_waiting e"
        using assms(1) moves(3) by (simp_all add: executor_inv_def is_waiting_def)
      then show "m_cancel e \<or> length (m_queue e) \<le> count (calls e) Notify_one + num is_alert e"
        "m_stop e \<or> m_cancel e \<Longrightarrow> \<exists>hs. Notify_all hs \<in># calls e"
        unfolding wake_ok_def by blast+
    qed
    have "\<exists>hs. Notify_all hs \<in># ?cs" if "m_stop e \<or> m_cancel e"
      using wake(2) [OF that] by (auto simp: in_diff_count)
    moreover have "Suc (count ?cs Notify_one) = count (calls e) Notify_one"
      using assms(2) by (simp add: count_greater_zero_iff)
    then have "m_cancel e \<or> length (m_queue e) \<le> count ?cs Notify_one + num is_alert ?e"
      using moves(2) wake(1) by (auto simp: is_alert_def)
    ultimately have "wake_ok ?e"
      by (simp add: wake_ok_def)
    moreover have "workers_ok ?e" "joins_ok ?e" "fixed_ok ?e" "counts_ok ?e" "alive_ok ?e"
      using assms(1) joins q by (auto simp: executor_inv_def point_simps intro!: go_frame)
    ultimately show ?thesis
      using assms(1) by (simp add: executor_inv_def notify_one_def)
  qed
qed

lemma wake_ondemand: "is_ondemand (wake th) = is_ondemand th"
  by (simp add: wake_def)

lemma inv_notify_all:
  assumes "executor_inv e"
  shows "executor_inv (notify_all hs e)"
proof -
  let ?e = "notify_all hs e"
  have point: "point_of ?e w = map_option (\<lambda>p. if p = Waiting then Woken else p) (point_of e w)" for w
    by (cases "map_of (threads e) w") (auto simp: point_of_def notify_all_def map_of_map wake_def)
  have keys: "map fst (threads ?e) = map fst (threads e)"
    by (simp add: notify_all_def case_prod_unfold)
  have point_eq: "p \<noteq> Waiting \<Longrightarrow> p \<noteq> Woken \<Longrightarrow> point_of ?e w = Some p \<longleftrightarrow> point_of e w = Some p" for p w
    by (auto simp: point)
  have live: "(\<exists>p. point_of ?e w = Some p \<and> is_live p) \<longleftrightarrow> (\<exists>p. point_of e w = Some p \<and> is_live p)" for w
    by (cases "point_of e w") (auto simp: point is_live_def)
  have none: "point_of ?e w = None \<longleftrightarrow> point_of e w = None" for w
    by (simp add: point)
  have num: "num P ?e = tally (\<lambda>th. P (at (wake th))) (threads e)" for P
    by (simp add: num_def notify_all_def tally_map)
  have nums: "num is_running ?e = num is_running e" "num is_live ?e = num is_live e" "num is_waiting ?e = 0"
  proof -
    show "num is_waiting ?e = 0"
      by (auto simp: num tally_def filter_empty_conv wake_def is_waiting_def split: point.splits)
    have "is_running (at (wake th)) = is_running (at th)" "is_live (at (wake th)) = is_live (at th)" for th :: "('a, 'b) thread"
      by (auto simp: wake_def point_simps)
    then show "num is_running ?e = num is_running e" "num is_live ?e = num is_live e"
      unfolding num by (simp_all add: num_def)
  qed
  have fields: "m_stop ?e = m_stop e" "m_cancel ?e = m_cancel e" "m_queue ?e = m_queue e"
    "m_busy_count ?e = m_busy_count e" "m_workers ?e = m_workers e" "m_dead_workers ?e = m_dead_workers e"
    "m_min_thread_count ?e = m_min_thread_count e" "m_max_thread_count ?e = m_max_thread_count e"
    "accepted ?e = accepted e" "started ?e = started e"
    by (simp_all add: notify_all_def)
  have "workers_ok ?e"
  proof -
    have wf: "workers_ok e"
      using assms by (simp add: executor_inv_def)
    have has: "\<forall>w p. point_of ?e w = Some p \<and> is_live p \<longrightarrow> map_of (m_workers e) w \<noteq> None"
      using live live_has_worker [OF wf] by blast
    show ?thesis
      using wf has unfolding workers_ok_def fields keys none by (elim conjE) (intro conjI; assumption)
  qed
  moreover have "fixed_ok ?e"
  proof -
    have "tally (\<lambda>th. \<not> is_ondemand th) (threads ?e) = tally (\<lambda>th. \<not> is_ondemand th) (threads e)"
      by (simp add: notify_all_def tally_map wake_ondemand)
    moreover have "map_of (threads ?e) w = map_option wake (map_of (threads e) w)" for w
      by (simp add: notify_all_def map_of_map)
    ultimately show ?thesis
      using assms unfolding executor_inv_def fixed_ok_def fields by (auto simp: wake_def)
  qed
  moreover have "counts_ok ?e" "grow_ok ?e"
    using assms unfolding executor_inv_def counts_ok_def grow_ok_def fields nums by auto
  moreover have "alive_ok ?e"
    using assms unfolding executor_inv_def alive_ok_def fields nums by (simp add: point_eq)
  moreover have "wake_ok ?e"
    by (simp add: wake_ok_def nums)
  moreover have "joins_ok ?e"
  proof -
    have "\<exists>c'. c' \<in># calls ?e \<and> w \<in> handles c'" if "c \<in># calls e" "w \<in> handles c" for c w
    proof (cases "c = Notify_all hs")
      case True
      with that show ?thesis
        by (intro exI [of _ "Join hs"]) (simp add: notify_all_def)
    next
      case False
      with that show ?thesis
        by (intro exI [of _ c]) (simp add: notify_all_def in_diff_count)
    qed
    then have "joins_ok (e\<lparr>calls := calls ?e\<rparr>)"
      using assms by (intro joins_ok_calls) (auto simp: executor_inv_def)
    note joins = this
    show ?thesis
    proof (cases "m_stop e")
      case True
      then have "\<forall>w p. point_of e w = Some p \<and> is_live p \<longrightarrow> (\<exists>c. c \<in># calls ?e \<and> w \<in> handles c)"
        using joins by (simp add: joins_ok_def)
      then have "\<forall>w p. point_of ?e w = Some p \<and> is_live p \<longrightarrow> (\<exists>c. c \<in># calls ?e \<and> w \<in> handles c)"
        using live by blast
      with True show ?thesis
        unfolding joins_ok_def fields by (simp only: if_True)
    next
      case False
      with joins show ?thesis
        unfolding joins_ok_def fields by (simp add: point_eq)
    qed
  qed
  ultimately show ?thesis
    using assms by (simp add: executor_inv_def fields)
qed


lemma worker_is_live:
  assumes "executor_inv e" "\<not> m_stop e" "\<not> m_cancel e" "m_workers e \<noteq> []"
  shows "0 < num is_live e"
proof -
  obtain k wk where k: "map_of (m_workers e) k = Some wk"
    using that [of "fst (hd (m_workers e))" "snd (hd (m_workers e))"] assms(4) by (cases "m_workers e") auto
  then obtain p where p: "point_of e k = Some p"
    using assms(1) unfolding executor_inv_def workers_ok_def by blast
  moreover have "point_of e k \<noteq> Some Exited"
    using assms(1-3) k unfolding executor_inv_def alive_ok_def by blast
  ultimately have "is_live p"
    by (auto simp: is_live_def split: point.splits)
  with p assms(1) show ?thesis
    by (auto simp: executor_inv_def workers_ok_def num_pos_iff)
qed

lemma inv_start_worker:
  assumes inv: "workers_ok e" "fixed_ok e" "counts_ok e"
      "wake_ok e" "joins_ok e" "\<not> m_stop e"
      "\<And>k. m_cancel e \<or> map_of (m_workers e) k = None \<or> point_of e k \<noteq> Some Exited"
    and fresh: "map_of (threads e) wid = None" and room: "length (m_workers e) < m_max_thread_count e"
    and e': "e' = e\<lparr>m_workers := m_workers e @ [(wid, \<lparr>worker_id = wid, worker_thread = Some wid\<rparr>)],
                  threads := AList.update wid \<lparr>is_ondemand = True, at = Top\<rparr> (threads e)\<rparr>"
  shows "workers_ok e' \<and> fixed_ok e' \<and> counts_ok e' \<and> alive_ok e' \<and> wake_ok e' \<and> joins_ok e'"
proof -
  have new: "map_of (m_workers e) wid = None"
    using inv(1) fresh unfolding workers_ok_def point_of_def by (metis not_None_eq option.map_disc_iff)
  have point: "point_of e' = (point_of e)(wid := Some Top)"
    by (auto simp: e' point_of_def AList.update_conv' fun_eq_iff)
  have workers: "map_of (m_workers e') k = (if k = wid then Some \<lparr>worker_id = wid, worker_thread = Some wid\<rparr> else map_of (m_workers e) k)" for k
    using new by (simp add: e' map_add_def split: option.split)
  have fields: "m_stop e' = m_stop e" "m_cancel e' = m_cancel e" "m_queue e' = m_queue e" "calls e' = calls e"
    "m_busy_count e' = m_busy_count e" "m_dead_workers e' = m_dead_workers e" "length (m_workers e') = Suc (length (m_workers e))"
    "m_min_thread_count e' = m_min_thread_count e" "m_max_thread_count e' = m_max_thread_count e"
    by (simp_all add: e')
  have keys: "distinct (map fst (m_workers e'))" "distinct (map fst (threads e'))"
    using inv(1) new by (simp_all add: e' workers_ok_def AList.distinct_update map_of_eq_None_iff)
  have num: "num P e' = num P e + of_bool (P Top)" for P
    using tally_update_new [OF fresh, of "\<lambda>th. P (at th)" "\<lparr>is_ondemand = True, at = Top\<rparr>"] by (simp add: num_def e')
  have old: "point_of e wid = None"
    using fresh by (simp add: point_of_def)
  have "workers_ok e'"
    using inv(1,6) keys unfolding workers_ok_def fields workers point by (auto simp del: map_of_eq_Some_iff)
  moreover have "fixed_ok e'"
  proof -
    have "tally (\<lambda>th. \<not> is_ondemand th) (threads e') = tally (\<lambda>th. \<not> is_ondemand th) (threads e)"
      using tally_update_new [OF fresh, of "\<lambda>th. \<not> is_ondemand th" "\<lparr>is_ondemand = True, at = Top\<rparr>"] by (simp add: e')
    moreover have "map_of (threads e') = (map_of (threads e))(wid \<mapsto> \<lparr>is_ondemand = True, at = Top\<rparr>)"
      by (simp add: e' AList.update_conv')
    ultimately show ?thesis
      using inv(2) unfolding fixed_ok_def fields workers by auto
  qed
  moreover have "counts_ok e'"
    using inv(3) room by (auto simp: counts_ok_def fields num is_running_def)
  moreover have "alive_ok e'"
  proof -
    have "(if k = wid then False else map_of (m_workers e) k \<noteq> None) \<Longrightarrow> \<not> m_cancel e \<Longrightarrow> point_of e k \<noteq> Some Exited" for k
      using inv(7) [of k] by (auto split: if_splits)
    then show ?thesis
      unfolding alive_ok_def fields workers point num by (simp add: is_live_def)
  qed
  moreover have "wake_ok e'"
    using inv(4) by (auto simp: wake_ok_def fields num point_simps)
  moreover have "joins_ok e'"
  proof -
    have "point_of e v = Some Exited \<Longrightarrow> point_of e' v = Some Exited" for v
      using old by (auto simp: point)
    moreover have "point_of e' w = Some (Joining h) \<Longrightarrow> point_of e w = Some (Joining h)" for w h
      by (auto simp: point split: if_splits)
    ultimately show ?thesis
      using inv(5,6) unfolding joins_ok_def fields by (simp only: if_False) blast
  qed
  ultimately show ?thesis
    by blast
qed

lemma inv_put:
  assumes inv: "executor_inv e" and fresh: "wid \<notin> fst ` set (threads e)" and ok: "put wid work e = Inr e'"
  shows "executor_inv e'"
proof (cases "m_stop e")
  case True
  with inv ok show ?thesis
    by (simp add: put_def)
next
  case False
  have le: "m_busy_count e \<le> length (m_workers e)" "length (m_workers e) < size_modulus"
    using busy_alert_le_workers [OF inv] inv by (auto simp: executor_inv_def counts_ok_def)
  define e1 where "e1 = e\<lparr>m_queue := m_queue e @ [work], accepted := accepted e @ [work], calls := add_mset Notify_one (calls e)\<rparr>"
  have e1: "workers_ok e1" "fixed_ok e1" "counts_ok e1" "accepted e1 = started e1 @ m_queue e1"
    using inv by (simp_all add: e1_def executor_inv_def)
  have joins: "joins_ok e1"
    unfolding e1_def using inv by (intro joins_ok_calls) (auto simp: executor_inv_def)
  have wake: "wake_ok e1"
    using inv False by (auto simp: e1_def executor_inv_def wake_ok_def)
  have alive: "m_cancel e \<or> map_of (m_workers e) k = None \<or> point_of e k \<noteq> Some Exited" for k
    using inv False unfolding executor_inv_def alive_ok_def by blast
  consider (grow) "length (m_workers e) < m_max_thread_count e"
      "e' = e1\<lparr>m_workers := m_workers e1 @ [(wid, \<lparr>worker_id = wid, worker_thread = Some wid\<rparr>)],
               threads := AList.update wid \<lparr>is_ondemand = True, at = Top\<rparr> (threads e1)\<rparr>"
    | (stay) "length (m_queue e) < length (m_workers e) - m_busy_count e \<or> length (m_workers e) \<ge> m_max_thread_count e" "e' = e1"
    using ok False le by (auto simp: put_def Let_def e1_def add_worker_def split: if_splits)
  then show ?thesis
  proof cases
    case stay
    have "grow_ok e1"
      using stay(1) by (auto simp: grow_ok_def e1_def)
    moreover have "alive_ok e1"
    proof -
      have "0 < num is_live e" if "\<not> m_cancel e" "0 < m_max_thread_count e"
        using stay(1) that by (intro worker_is_live [OF inv False]) auto
      moreover have "map_of (m_workers e) k \<noteq> None \<Longrightarrow> \<not> m_cancel e \<Longrightarrow> point_of e k \<noteq> Some Exited" for k
        using alive [of k] by auto
      ultimately show ?thesis
        by (simp add: alive_ok_def e1_def) (meson neq0_conv)
    qed
    ultimately show ?thesis
      using e1 joins wake stay by (simp add: executor_inv_def)
  next
    case grow
    have "map_of (threads e1) wid = None"
      using fresh by (simp add: e1_def map_of_eq_None_iff)
    then have "workers_ok e' \<and> fixed_ok e' \<and> counts_ok e' \<and> alive_ok e' \<and> wake_ok e' \<and> joins_ok e'"
      using e1 joins wake grow False alive by (intro inv_start_worker [of e1 wid e']) (auto simp: e1_def)
    moreover have "grow_ok e'"
      using inv grow(1) by (auto simp: executor_inv_def grow_ok_def grow(2) e1_def)
    ultimately show ?thesis
      using e1(4) grow(2) by (simp add: executor_inv_def)
  qed
qed

section \<open>The initial state\<close>

definition fixed_worker_entries :: "'w list \<Rightarrow> ('w \<times> 'w worker) list" where
  "fixed_worker_entries ks = map (\<lambda>k. (k, \<lparr>worker_id = k, worker_thread = Some k\<rparr>)) ks"

definition fixed_thread_entries :: "'w list \<Rightarrow> ('w \<times> ('w, 't) thread) list" where
  "fixed_thread_entries ks = map (\<lambda>k. (k, \<lparr>is_ondemand = False, at = Top\<rparr>)) ks"

lemma fixed_entries [simp]:
  "length (fixed_worker_entries ks) = length ks" "fst ` set (fixed_worker_entries ks) = set ks"
  "map fst (fixed_worker_entries ks) = ks" "map fst (fixed_thread_entries ks) = ks"
  "map_of (fixed_worker_entries ks) k = (if k \<in> set ks then Some \<lparr>worker_id = k, worker_thread = Some k\<rparr> else None)"
  "map_of (fixed_thread_entries ks) k = (if k \<in> set ks then Some \<lparr>is_ondemand = False, at = Top\<rparr> else None)"
  by (simp_all add: fixed_worker_entries_def fixed_thread_entries_def comp_def image_image map_of_map_restrict restrict_map_def)

lemma tally_fixed [simp]: "tally P (fixed_thread_entries ks) = (if P \<lparr>is_ondemand = False, at = Top\<rparr> then length ks else 0)"
  by (induction ks) (auto simp: fixed_thread_entries_def)

lemma add_worker_fixed:
  fixes e :: "('w, 't) executor"
  assumes "k \<notin> set ks"
  shows "add_worker k False (e\<lparr>m_workers := fixed_worker_entries ks, threads := fixed_thread_entries ks\<rparr>) =
    Inr (e\<lparr>m_workers := fixed_worker_entries (ks @ [k]), threads := fixed_thread_entries (ks @ [k])\<rparr>)"
proof -
  have "AList.update k v (fixed_thread_entries ks) = fixed_thread_entries ks @ [(k, v)]" for v :: "('w, 't) thread"
    using assms by (intro update_new) simp
  with assms show ?thesis
    by (simp add: add_worker_def)
      (simp add: fixed_worker_entries_def fixed_thread_entries_def)
qed

lemma add_fixed_workers_shape:
  assumes "add_fixed_workers n uuids (e\<lparr>m_workers := fixed_worker_entries ks, threads := fixed_thread_entries ks\<rparr>) = Some (Inr e')"
    "distinct ks" "length ks \<le> n"
  shows "\<exists>ks'. distinct ks' \<and> length ks' = n \<and>
    e' = e\<lparr>m_workers := fixed_worker_entries ks', threads := fixed_thread_entries ks'\<rparr>"
  using assms
proof (induction uuids arbitrary: ks)
  case Nil
  then show ?case
    by (auto split: if_splits)
next
  case (Cons u us)
  show ?case
  proof (cases "length ks < n")
    case True
    then have "u \<notin> set ks"
      using Cons.prems(1) by (auto simp: add_worker_def)
    with Cons.prems True show ?thesis
      by (intro Cons.IH [of "ks @ [u]"]) (simp_all add: add_worker_fixed)
  next
    case False
    with Cons.prems show ?thesis
      by (intro exI [of _ ks]) simp
  qed
qed

lemma add_fixed_workers_total:
  assumes "distinct (ks @ uuids)" "n \<le> length ks + length uuids"
  shows "\<exists>e'. add_fixed_workers n uuids (e\<lparr>m_workers := fixed_worker_entries ks, threads := fixed_thread_entries ks\<rparr>) = Some (Inr e')"
  using assms
proof (induction uuids arbitrary: ks)
  case (Cons u us)
  then have "\<exists>e'. add_fixed_workers n us (e\<lparr>m_workers := fixed_worker_entries (ks @ [u]),
      threads := fixed_thread_entries (ks @ [u])\<rparr>) = Some (Inr e')"
    by (intro Cons.IH) simp_all
  with Cons.prems show ?case
    by (auto simp: add_worker_fixed)
qed simp

lemma inv_created:
  assumes "created e"
  shows "executor_inv e"
proof -
  obtain hc lo hi uuids where impl: "impl hc lo hi uuids = Some (Inr e)"
    using assms by (auto simp: created_def)
  define n where "n = (case lo of Some n \<Rightarrow> n | None \<Rightarrow> hc)"
  define m where "m = (case hi of Some m \<Rightarrow> m | None \<Rightarrow> n)"
  define e0 :: "('a, 'b) executor" where "e0 = \<lparr>m_min_thread_count = n, m_max_thread_count = m, m_busy_count = 0, m_stop = False,
            m_cancel = False, m_queue = [], m_workers = [], m_dead_workers = [], threads = [],
            calls = {#}, accepted = [], started = []\<rparr>"
  have "add_fixed_workers n uuids (e0\<lparr>m_workers := fixed_worker_entries [], threads := fixed_thread_entries []\<rparr>) = Some (Inr e)"
    using impl unfolding impl_def Let_def n_def [symmetric] m_def [symmetric]
    by (simp add: e0_def fixed_worker_entries_def fixed_thread_entries_def)
  then obtain ks where ks: "distinct ks" "length ks = n"
    and e: "e = e0\<lparr>m_workers := fixed_worker_entries ks, threads := fixed_thread_entries ks\<rparr>"
    using add_fixed_workers_shape [where ks = "[]" and e = e0 and e' = e] by auto
  have size: "n < size_modulus" "m < size_modulus"
    using assms by (auto simp: created_def e e0_def)
  have point: "point_of e k = (if k \<in> set ks then Some Top else None)" for k
    by (simp add: e point_of_def)
  have num: "num P e = (if P Top then n else 0)" for P
    using ks by (simp add: num_def e)
  have "workers_ok e"
    unfolding workers_ok_def point using ks(1) by (simp add: e e0_def del: map_of_eq_Some_iff)
  moreover have "fixed_ok e"
    using ks by (simp add: fixed_ok_def e e0_def)
  moreover have "counts_ok e" "grow_ok e" "wake_ok e"
    using ks size by (simp_all add: counts_ok_def grow_ok_def wake_ok_def num is_running_def is_waiting_def) (simp_all add: e e0_def)
  moreover have "alive_ok e" "joins_ok e"
    by (simp_all add: alive_ok_def joins_ok_def point) (simp_all add: e e0_def)
  ultimately show ?thesis
    by (simp add: executor_inv_def) (simp add: e e0_def)
qed

lemma executor_inv_step: "executor_inv e \<Longrightarrow> executor_step e e' \<Longrightarrow> executor_inv e'"
  by (erule executor_step.cases)
    (auto intro: inv_put inv_stop inv_cancel inv_notify_one inv_notify_all inv_join_next inv_call_return
      inv_loop_top inv_woken inv_wait_or_take inv_join_dead inv_task_done)

interpretation executor: step_invariant created executor_step executor_inv
  by unfold_locales (auto intro: inv_created executor_inv_step)

section \<open>Consequences\<close>

lemma live_eq_workers:
  assumes "executor_inv e" "\<not> m_stop e" "\<not> m_cancel e"
  shows "length (m_workers e) \<le> num is_live e"
proof -
  have "length (map fst (m_workers e)) \<le> tally (\<lambda>th. is_live (at th)) (threads e)"
  proof (rule tally_keys_ge)
    show "distinct (map fst (m_workers e))"
      using assms(1) by (simp add: executor_inv_def workers_ok_def)
    fix k assume "k \<in> set (map fst (m_workers e))"
    then have k: "map_of (m_workers e) k \<noteq> None"
      by (simp add: map_of_eq_None_iff)
    then obtain th where th: "map_of (threads e) k = Some th"
      using assms(1) unfolding executor_inv_def workers_ok_def point_of_def by fastforce
    moreover have "point_of e k \<noteq> Some Exited"
      using assms k unfolding executor_inv_def alive_ok_def by blast
    ultimately show "\<exists>th. map_of (threads e) k = Some th \<and> is_live (at th)"
      by (auto simp: point_of_def is_live_def split: point.splits)
  qed
  then show ?thesis
    by (simp add: num_def)
qed

section \<open>An executor with one fixed worker and room for one more\<close>

definition demo :: "(nat, nat) executor" where
  "demo = \<lparr>m_min_thread_count = 1, m_max_thread_count = 2, m_busy_count = 0, m_stop = False,
     m_cancel = False, m_queue = [], m_workers = [(0, \<lparr>worker_id = 0, worker_thread = Some 0\<rparr>)], m_dead_workers = [],
     threads = [(0, \<lparr>is_ondemand = False, at = Top\<rparr>)], calls = {#}, accepted = [], started = []\<rparr>"

lemma demo_created: "created demo"
proof -
  have "impl 8 (Some 1) (Some 2) [0] = Some (Inr demo)"
    by (simp add: impl_def demo_def add_worker_def)
  then show ?thesis
    unfolding created_def by (intro conjI exI) (auto simp: demo_def small_size)
qed

text \<open>After \<^verbatim>\<open>put(5)\<close>, the worker taking that task, and \<^verbatim>\<open>put(7)\<close>.\<close>

definition demo_put :: "(nat, nat) executor" where
  "demo_put = demo\<lparr>m_queue := [5], accepted := [5], calls := {#Notify_one#}\<rparr>"

definition demo_run :: "(nat, nat) executor" where
  "demo_run = demo\<lparr>m_busy_count := 1, threads := [(0, \<lparr>is_ondemand = False, at = Running 5\<rparr>)],
     accepted := [5], started := [5], calls := {#Notify_one#}\<rparr>"

definition demo_busy :: "(nat, nat) executor" where
  "demo_busy = demo_run\<lparr>m_queue := [7], accepted := [5, 7], calls := {#Notify_one, Notify_one#},
     m_workers := [(0, \<lparr>worker_id = 0, worker_thread = Some 0\<rparr>), (1, \<lparr>worker_id = 1, worker_thread = Some 1\<rparr>)],
     threads := [(0, \<lparr>is_ondemand = False, at = Running 5\<rparr>), (1, \<lparr>is_ondemand = True, at = Top\<rparr>)]\<rparr>"

lemmas demo_defs = demo_def demo_put_def demo_run_def demo_busy_def

lemma demo_busy_reachable: "reachable created executor_step demo_busy"
proof -
  have "put 2 5 demo = Inr demo_put" "loop_top 0 demo_put = demo_run" "put 1 7 demo_run = Inr demo_busy"
    by (simp_all add: demo_defs put_def Let_def small_size loop_top_def wait_or_take_def go_def add_worker_def)
  then have "executor_step demo demo_put" "executor_step demo_put demo_run" "executor_step demo_run demo_busy"
    using executor_step.put [of 2 demo 5 demo_put] executor_step.loop_top [of demo_put 0]
      executor_step.put [of 1 demo_run 7 demo_busy]
    by (simp_all add: demo_defs point_of_def)
  then show ?thesis
    by (meson reachable.intros demo_created)
qed

text \<open>Later the on-demand worker has run its task and is on the list of dead workers.\<close>

definition demo_dead :: "(nat, nat) executor" where
  "demo_dead = demo_run\<lparr>accepted := [5, 7], started := [5, 7], calls := {#Notify_one, Notify_one#},
     m_dead_workers := [\<lparr>worker_id = 1, worker_thread = Some 1\<rparr>],
     threads := [(0, \<lparr>is_ondemand = False, at = Running 5\<rparr>), (1, \<lparr>is_ondemand = True, at = Exited\<rparr>)]\<rparr>"

lemma demo_dead_reachable: "reachable created executor_step demo_dead"
proof -
  have "executor_step demo_busy (loop_top 1 demo_busy)"
    by (rule executor_step.loop_top) (simp add: demo_defs point_of_def)
  moreover have "executor_step (loop_top 1 demo_busy) demo_dead"
    by (rule executor_step.task_done [of _ 1 "\<lparr>is_ondemand = True, at = Running 7\<rparr>" 7])
      (simp_all add: demo_dead_def demo_defs loop_top_def wait_or_take_def go_def task_done_def small_size)
  ultimately show ?thesis
    by (meson reachable.reach_step demo_busy_reachable)
qed

text \<open>The same executor after \<^verbatim>\<open>stop()\<close>, and after all its threads have been joined.\<close>

definition demo_drained :: "(nat, nat) executor" where
  "demo_drained = demo\<lparr>m_stop := True, m_workers := [(0, \<lparr>worker_id = 0, worker_thread = None\<rparr>)],
     threads := [(0, \<lparr>is_ondemand = False, at = Exited\<rparr>)]\<rparr>"

lemma demo_drained_reachable: "reachable created executor_step demo_drained"
proof -
  define s1 where "s1 = stop demo"
  define s2 where "s2 = loop_top 0 s1"
  define s3 where "s3 = notify_all [Some 0] s2"
  define s4 where "s4 = s3\<lparr>calls := {#Join []#}\<rparr>"
  note defs = s1_def s2_def s3_def s4_def demo_defs stop_def loop_top_def wait_or_take_def go_def notify_all_def
    wake_def join_next_def jthread_join_def point_of_def
  have "executor_step demo s1"
    unfolding s1_def by (rule executor_step.stop)
  moreover have "executor_step s1 s2"
    unfolding s2_def by (rule executor_step.loop_top) (simp add: defs)
  moreover have "executor_step s2 s3"
    unfolding s3_def by (rule executor_step.notify_all) (simp add: defs)
  moreover have "executor_step s3 s4"
    by (rule executor_step.join_next [of "Some 0" "[]"]) (simp_all add: defs)
  moreover have "executor_step s4 (call_return s4)"
    by (rule executor_step.call_return) (simp add: s4_def)
  moreover have "call_return s4 = demo_drained"
    by (simp add: defs call_return_def demo_drained_def)
  ultimately show ?thesis
    by (metis reachable.intros demo_created)
qed

section \<open>Properties\<close>

text \<open>
  C25. Whatever the interleaving of calls, wake-ups and tasks, the busy count is the number of threads
  in a task, the workers number between the minimum and the larger of the two thread counts, and
  the critical sections never fault: the assertion in \<^verbatim>\<open>put\<close> holds and a finished task finds its
  worker.
\<close>

theorem executor_counts:
  assumes "reachable created executor_step e"
  shows "m_busy_count e = num is_running e \<and> m_busy_count e \<le> length (m_workers e) \<and>
    m_min_thread_count e \<le> length (m_workers e) \<and>
    length (m_workers e) \<le> max (m_min_thread_count e) (m_max_thread_count e) \<and>
    (wid \<in> fst ` set (threads e) \<or> (\<exists>e'. put wid work e = Inr e')) \<and>
    (case point_of e w of Some (Running t) \<Rightarrow> \<exists>e'. task_done w ondemand e = Inr e' | _ \<Rightarrow> True)"
proof -
  note inv = executor.inv_reachable [OF assms]
  have le: "m_busy_count e \<le> length (m_workers e)"
    using busy_alert_le_workers [OF inv] by simp
  have "wid \<notin> fst ` set (m_workers e)" if "wid \<notin> fst ` set (threads e)"
  proof -
    have "point_of e wid = None"
      using that by (simp add: point_of_def map_of_eq_None_iff)
    then have "map_of (m_workers e) wid = None"
      using inv unfolding executor_inv_def workers_ok_def by (metis not_None_eq)
    then show ?thesis
      by (simp add: map_of_eq_None_iff)
  qed
  then have "wid \<in> fst ` set (threads e) \<or> (\<exists>e'. put wid work e = Inr e')"
    using le by (auto simp: put_def add_worker_def Let_def)
  moreover have "\<exists>e'. task_done w ondemand e = Inr e'" if "point_of e w = Some (Running t)" for t
    using that inv live_has_worker [of e w "Running t"]
    by (auto simp: task_done_def Let_def executor_inv_def is_live_def)
  ultimately show ?thesis
    using inv le min_le_workers [OF inv]
    by (auto simp: executor_inv_def counts_ok_def split: option.split point.split)
qed

theorem executor_counts_witness:
  "m_busy_count demo_busy = num is_running demo_busy \<and> (\<exists>e'. put 2 9 demo_busy = Inr e')"
  using executor_counts [OF demo_busy_reachable, of 2 9 0 True] by (simp add: demo_defs)

text \<open>
  C6. Tasks start in the order in which \<^verbatim>\<open>put\<close> accepted them: the accepted tasks are those
  started, in order, followed by the queue. No task is lost, repeated or reordered.
\<close>

theorem executor_fifo:
  assumes "reachable created executor_step e"
  shows "accepted e = started e @ m_queue e"
  using executor.inv_reachable [OF assms] by (simp add: executor_inv_def)

theorem executor_fifo_witness: "accepted demo_busy = started demo_busy @ m_queue demo_busy"
  by (rule executor_fifo [OF demo_busy_reachable])

text \<open>
  While the executor is neither stopped nor cancelled, either an idle thread exists for each
  queued task or the number of threads has reached the maximum: no task waits for a busy
  worker while another thread could be started.
\<close>

theorem executor_grows:
  assumes "reachable created executor_step e" "\<not> m_stop e" "\<not> m_cancel e"
  shows "length (m_queue e) + num is_running e \<le> num is_live e \<or> m_max_thread_count e \<le> num is_live e"
  using executor.inv_reachable [OF assms(1)] live_eq_workers [of e] assms(2,3)
  by (auto simp: executor_inv_def grow_ok_def counts_ok_def)

theorem executor_grows_witness:
  "length (m_queue demo_busy) + num is_running demo_busy \<le> num is_live demo_busy \<or>
   m_max_thread_count demo_busy \<le> num is_live demo_busy"
  by (rule executor_grows [OF demo_busy_reachable]) (simp_all add: demo_defs)

text \<open>
  C12. No wake-up is lost. While a task is queued and the executor is not cancelled, either a
  notification is on its way, or some thread is awake (running a task or about to look at the queue);
  and while a thread sleeps after \<^verbatim>\<open>stop\<close> or \<^verbatim>\<open>cancel\<close>, a \<^verbatim>\<open>notify_all\<close> is on its way.
\<close>

theorem executor_no_lost_wakeup:
  assumes "reachable created executor_step e" "0 < m_max_thread_count e"
  shows "(m_queue e = [] \<or> m_cancel e \<or> Notify_one \<in># calls e \<or> 0 < num is_alert e + num is_running e) \<and>
    (num is_waiting e = 0 \<or> (if m_stop e \<or> m_cancel e then \<exists>hs. Notify_all hs \<in># calls e else True))"
proof -
  note inv = executor.inv_reachable [OF assms(1)]
  have wake: "wake_ok e" and dist: "distinct (map fst (threads e))"
    using inv by (simp_all add: executor_inv_def workers_ok_def)
  have "0 < num is_alert e + num is_running e" if queue: "m_queue e \<noteq> []" "\<not> m_cancel e" "Notify_one \<notin># calls e"
  proof (cases "0 < num is_waiting e")
    case True
    then have "length (m_queue e) \<le> count (calls e) Notify_one + num is_alert e"
      using wake queue(2) by (simp add: wake_ok_def)
    moreover have "0 < length (m_queue e)" "count (calls e) Notify_one = 0"
      using queue by (simp_all add: not_in_iff)
    ultimately show ?thesis
      by linarith
  next
    case False
    have "0 < num is_live e"
      using inv queue assms(2) by (auto simp: executor_inv_def alive_ok_def)
    then obtain w p where "point_of e w = Some p" "is_live p"
      using num_pos_iff [OF dist] by blast
    moreover from this False have "\<not> is_waiting p"
      using num_pos_iff [OF dist, of is_waiting] by auto
    with \<open>is_live p\<close> have "is_alert p \<or> is_running p"
      by (cases p) (auto simp: point_simps)
    ultimately show ?thesis
      using num_pos_iff [OF dist, of is_alert] num_pos_iff [OF dist, of is_running] by auto
  qed
  with wake show ?thesis
    by (auto simp: wake_ok_def)
qed

theorem executor_no_lost_wakeup_witness:
  "Notify_one \<in># calls demo_busy \<or> 0 < num is_alert demo_busy + num is_running demo_busy"
  using executor_no_lost_wakeup [OF demo_busy_reachable] by (simp add: demo_defs)

text \<open>
  C13. When \<^verbatim>\<open>stop\<close> has joined its threads and the executor was not cancelled, every accepted task
  has been run: no thread is left, the queue is empty and the started tasks are the accepted ones.
\<close>

theorem executor_stop_drains:
  assumes "reachable created executor_step e" "0 < m_max_thread_count e" "m_stop e" "\<not> m_cancel e"
    "\<And>c. c \<in># calls e \<Longrightarrow> handles c = {}"
  shows "num is_live e = 0 \<and> m_busy_count e = 0 \<and> m_queue e = [] \<and> started e = accepted e"
proof -
  note inv = executor.inv_reachable [OF assms(1)]
  have dist: "distinct (map fst (threads e))"
    using inv by (simp add: executor_inv_def workers_ok_def)
  have "\<not> (\<exists>w p. point_of e w = Some p \<and> is_live p)"
  proof
    assume "\<exists>w p. point_of e w = Some p \<and> is_live p"
    then obtain w c where "c \<in># calls e" "w \<in> handles c"
      using inv assms(3) unfolding executor_inv_def joins_ok_def by (simp only: if_True) blast
    with assms(5) show False
      by auto
  qed
  then have none: "num is_live e = 0"
    using num_pos_iff [OF dist, of is_live] by auto
  moreover have "num is_running e \<le> num is_live e"
    unfolding num_def by (rule tally_mono) (auto simp: point_simps split: point.splits)
  ultimately show ?thesis
    using inv assms(2,4) by (simp add: executor_inv_def alive_ok_def counts_ok_def)
qed

theorem executor_stop_drains_witness:
  "num is_live demo_drained = 0 \<and> m_busy_count demo_drained = 0 \<and> m_queue demo_drained = [] \<and>
   started demo_drained = accepted demo_drained"
  by (rule executor_stop_drains [OF demo_drained_reachable]) (simp_all add: demo_drained_def demo_def)

text \<open>
  \<^verbatim>\<open>stop\<close> works once. After it, all workers left in \<^verbatim>\<open>m_workers\<close> have lost their thread handle,
  and the fixed workers are never removed; so with a positive minimum a second \<^verbatim>\<open>stop\<close> (as in
  the destructor) takes at least one empty handle, and joining an empty handle throws.
\<close>

theorem executor_second_stop_throws:
  assumes "reachable created executor_step e" "m_stop e" "0 < m_min_thread_count e"
  shows "\<exists>hs. calls (stop e) = add_mset (Notify_all (None # hs)) (calls e) \<and>
    join_next None hs s = Some (Inl (Throw ''Invalid argument''))"
proof -
  note inv = executor.inv_reachable [OF assms(1)]
  obtain k wk ws where ws: "m_workers e = (k, wk) # ws"
    using min_le_workers [OF inv] assms(3) by (cases "m_workers e") auto
  then have "worker_thread wk = None"
    using inv assms(2) unfolding executor_inv_def workers_ok_def by (metis map_of_Cons_code(2))
  with ws show ?thesis
    by (simp add: stop_def join_next_def jthread_join_def)
qed

theorem executor_second_stop_throws_witness:
  "\<exists>hs. calls (stop demo_drained) = add_mset (Notify_all (None # hs)) {#} \<and>
     join_next None hs demo_drained = Some (Inl (Throw ''Invalid argument''))"
  using executor_second_stop_throws [OF demo_drained_reachable, of demo_drained]
  by (simp add: demo_drained_def demo_def)

text \<open>
  Before \<^verbatim>\<open>stop\<close>, reaping is safe: each worker on the dead list owns a thread that has
  returned, and the join a worker is in returns at once.
\<close>

theorem executor_reaping_safe:
  assumes "reachable created executor_step e" "\<not> m_stop e"
  shows "(case point_of e w of Some (Joining h) \<Rightarrow> join_dead w h e = Some (Inr (go w Top e)) | _ \<Rightarrow> True) \<and>
    (case find_dead w (m_dead_workers e) (length (m_dead_workers e)) of
       Some i \<Rightarrow> jthread_join (worker_thread (m_dead_workers e ! i)) e = Some (Inr ())
     | None \<Rightarrow> True)"
proof -
  have joins: "\<forall>d \<in> set (m_dead_workers e). \<exists>v. worker_thread d = Some v \<and> point_of e v = Some Exited"
    "\<forall>w h. point_of e w = Some (Joining h) \<longrightarrow> (\<exists>v. h = Some v \<and> point_of e v = Some Exited)"
    using executor.inv_reachable [OF assms(1)] assms(2) by (simp_all add: executor_inv_def joins_ok_def)
  have "join_dead w h e = Some (Inr (go w Top e))" if j: "point_of e w = Some (Joining h)" for h
  proof -
    obtain v where "h = Some v" "point_of e v = Some Exited"
      using joins(2) j by blast
    then show ?thesis
      by (simp add: join_dead_def jthread_join_def)
  qed
  moreover have "jthread_join (worker_thread (m_dead_workers e ! i)) e = Some (Inr ())"
    if "find_dead w (m_dead_workers e) (length (m_dead_workers e)) = Some i" for i
    using joins(1) find_dead_Some [OF that] by (auto simp: jthread_join_def dest!: bspec [OF _ nth_mem])
  ultimately show ?thesis
    by (auto split: option.split point.split)
qed

theorem executor_reaping_safe_witness:
  "jthread_join (worker_thread (m_dead_workers demo_dead ! 0)) demo_dead = Some (Inr ())"
  using executor_reaping_safe [OF demo_dead_reachable, of 0] by (simp add: demo_dead_def demo_defs)

end
