(* ===== verification/MachinePool.thy ===== *)
theory MachinePool
  imports Algorithm ThreadPool
begin

text \<open>
  \<^verbatim>\<open>modules/virt/src/machine_pool.cpp\<close>: the pool of virtual machines. Its counters are
  \<^verbatim>\<open>size_t\<close> values with wrap-around; an operation below is one critical section of \<^verbatim>\<open>m_mutex\<close>
  (the mutex is also released while the statistics callback runs, which in every operation but
  \<^verbatim>\<open>add_spawner\<close> is after the last update of the section). The spawn tasks run on the pool's
  executor: \<open>spawn_tasks\<close> counts those it has accepted and not finished. Ghost fields record who
  holds which machine. \<open>pool_step\<close> interleaves clients, the control loop, the spawn tasks and
  shutdown.
  The lemmas show that for every interleaving the counters are exact, the number of provisioned
  machines never exceeds the limit, a machine is handed to one client only and in the order of
  spawning, and what the control loop does; they also show how the limit fails when submitting a
  spawn task throws after the task was queued.
\<close>

section \<open>State\<close>

record pool_stats =
  st_provisioned :: nat
  st_acquiring :: nat
  st_acquired :: nat
  st_active :: nat
  st_idle :: nat
  st_warming :: nat

text \<open>
  Where the control thread is: not started, at the top of the loop, between the two parts of
  \<^verbatim>\<open>add_spawner\<close>, in the wait after a failure, or returned.
\<close>

datatype control_point = Absent | Looping | Submitting | Backing_off | Returned

record 'm machine_pool =
  m_idle_target :: nat
  m_max_concurrency :: nat
  pool_stopped :: bool
  is_signalled :: bool
  acquiring :: nat
  acquired :: nat
  active :: nat
  warming :: nat
  m_idle_machines :: "'m list"
  m_stats :: pool_stats
  m_stats_cb :: bool
  reported :: "pool_stats list"
  control :: control_point
  fail_count :: nat
  spawn_tasks :: nat
  lost :: nat
  clients :: nat
  held :: "'m multiset"
  activated :: "'m multiset"
  spawned :: "'m list"
  handed_out :: "'m list"

definition machine_pool :: "nat \<Rightarrow> nat \<Rightarrow> 'm machine_pool" where
  "machine_pool idle_target max_concurrency =
     \<lparr>m_idle_target = idle_target, m_max_concurrency = max_concurrency, pool_stopped = False,
      is_signalled = False, acquiring = 0, acquired = 0, active = 0, warming = 0, m_idle_machines = [],
      m_stats = \<lparr>st_provisioned = 0, st_acquiring = 0, st_acquired = 0, st_active = 0, st_idle = 0, st_warming = 0\<rparr>,
      m_stats_cb = False, reported = [], control = Absent, fail_count = 0, spawn_tasks = 0, lost = 0, clients = 0,
      held = {#}, activated = {#}, spawned = [], handed_out = []\<rparr>"

section \<open>Queries and statistics\<close>

definition should_stop :: "'m machine_pool \<Rightarrow> bool" where
  "should_stop s \<longleftrightarrow> pool_stopped s \<or> is_signalled s"

definition get_provisioned_count :: "'m machine_pool \<Rightarrow> nat" where
  "get_provisioned_count s = size_add (size_add (acquired s) (length (m_idle_machines s))) (warming s)"

definition want_upscale :: "'m machine_pool \<Rightarrow> bool" where
  "want_upscale s =
     (let provisioned = get_provisioned_count s;
          target = size_add (m_idle_target s) (active s)
      in provisioned < target \<and> provisioned < m_max_concurrency s)"

definition report_stats :: "'m machine_pool \<Rightarrow> 'm machine_pool" where
  "report_stats s = (if m_stats_cb s then s\<lparr>reported := reported s @ [m_stats s]\<rparr> else s)"

definition current_stats :: "'m machine_pool \<Rightarrow> pool_stats" where
  "current_stats s =
     \<lparr>st_provisioned = get_provisioned_count s, st_acquiring = acquiring s, st_acquired = acquired s,
      st_active = active s, st_idle = length (m_idle_machines s), st_warming = warming s\<rparr>"

definition check_stats :: "'m machine_pool \<Rightarrow> 'm machine_pool" where
  "check_stats s =
     (let temp_stats = current_stats s
      in if m_stats s = temp_stats then s else report_stats (s\<lparr>m_stats := temp_stats\<rparr>))"

section \<open>Operations of the clients\<close>

text \<open>
  \<^verbatim>\<open>acquire\<close> up to its loop, and one turn of the loop. \<^verbatim>\<open>wait_for\<close> with a predicate returns the
  predicate's value, so it reports a time-out exactly when the pool is not stopping and has no idle
  machine. \<open>elapsed\<close> is the time since the call, \<open>None\<close> means that the loop goes on.
\<close>

definition acquire_enter :: "'m machine_pool \<Rightarrow> 'm machine_pool" where
  "acquire_enter s = check_stats (s\<lparr>acquiring := size_inc (acquiring s), clients := clients s + 1\<rparr>)"

definition acquire_turn :: "int \<Rightarrow> int \<Rightarrow> 'm machine_pool \<Rightarrow> 'm result option \<times> 'm machine_pool" where
  "acquire_turn elapsed timeout s =
     (if should_stop s
      then (Some (Inl (Error ''Shutting down machine pool'')),
            s\<lparr>acquiring := size_dec (acquiring s), clients := clients s - 1\<rparr>)
      else (case m_idle_machines s of
              [] \<Rightarrow> if elapsed < timeout then (None, s)
                    else (Some (Inl (Error ''Timed out while acquiring machine'')),
                          s\<lparr>acquiring := size_dec (acquiring s), clients := clients s - 1\<rparr>)
            | machine # rest \<Rightarrow>
                (Some (Inr machine),
                 check_stats
                   (s\<lparr>m_idle_machines := rest, acquiring := size_dec (acquiring s),
                      acquired := size_inc (acquired s), clients := clients s - 1,
                      held := add_mset machine (held s), handed_out := handed_out s @ [machine]\<rparr>))))"

definition activate :: "'m \<Rightarrow> 'm machine_pool \<Rightarrow> 'm machine_pool" where
  "activate machine s = check_stats (s\<lparr>active := size_inc (active s), activated := add_mset machine (activated s)\<rparr>)"

definition deactivate :: "'m \<Rightarrow> 'm machine_pool \<Rightarrow> 'm machine_pool" where
  "deactivate machine s = s\<lparr>active := size_dec (active s), activated := activated s - {#machine#}\<rparr>"

definition release :: "'m \<Rightarrow> 'm machine_pool \<Rightarrow> 'm machine_pool" where
  "release machine s = check_stats (s\<lparr>acquired := size_dec (acquired s), held := held s - {#machine#}\<rparr>)"

definition set_stats_callback :: "bool \<Rightarrow> 'm machine_pool \<Rightarrow> 'm machine_pool" where
  "set_stats_callback cb s = s\<lparr>m_stats_cb := cb\<rparr>"

section \<open>Control loop and spawn tasks\<close>

text \<open>
  Both branches of \<^verbatim>\<open>stop_internal\<close> notify the condition variables; waiting threads poll every
  500 ms in any case, so only the flag matters here.
\<close>

definition stop_internal :: "'m machine_pool \<Rightarrow> 'm machine_pool" where
  "stop_internal s = (if pool_stopped s then s else s\<lparr>pool_stopped := True\<rparr>)"

text \<open>
  \<^verbatim>\<open>start\<close> assigns a new \<^verbatim>\<open>std::jthread\<close>: the assignment joins a control thread that exists, with
  the mutex held.
\<close>

definition start :: "'m machine_pool \<Rightarrow> fault + 'm machine_pool" where
  "start s =
     (if control s = Absent \<or> control s = Returned then Inr (s\<lparr>control := Looping, fail_count := 0\<rparr>)
      else Inl Deadlock)"

definition pool_stop :: "'m machine_pool \<Rightarrow> 'm machine_pool" where
  "pool_stop s = stop_internal s"

text \<open>
  \<^verbatim>\<open>stop\<close> then joins the control thread and stops the executor, which first finishes its tasks: it
  returns once there is no control thread and no spawn task left.
\<close>

definition stop_returns :: "'m machine_pool \<Rightarrow> bool" where
  "stop_returns s \<longleftrightarrow> pool_stopped s \<and> (control s = Absent \<or> control s = Returned) \<and> spawn_tasks s = 0"

text \<open>
  \<^verbatim>\<open>add_spawner\<close>: the first part counts the machine as warming. The second submits the task.
  \<^verbatim>\<open>ThreadPoolExecutor::put\<close> accepts it, throws before it has queued it, or throws after: its
  thread may fail to start when the task is in the queue already.
\<close>

datatype put_outcome = Accepted | Rejected | Thrown_but_queued

definition add_spawner_begin :: "'m machine_pool \<Rightarrow> 'm machine_pool" where
  "add_spawner_begin s = check_stats (s\<lparr>warming := size_inc (warming s), control := Submitting\<rparr>)"

definition add_spawner_end :: "put_outcome \<Rightarrow> string \<Rightarrow> 'm machine_pool \<Rightarrow> unit result \<times> 'm machine_pool" where
  "add_spawner_end outcome what s =
     (let s1 = (if outcome = Rejected then s else s\<lparr>spawn_tasks := spawn_tasks s + 1\<rparr>)
      in if outcome = Accepted then (Inr (), s1)
         else (Inl (Error (''Failed to submit spawn task: '' @ what)),
               check_stats (s1\<lparr>warming := size_dec (warming s1)\<rparr>)))"

definition backoff :: "nat \<Rightarrow> int" where
  "backoff fails = min 60 (1 * sint (ipow2 (of_nat (min fails 6))))"

text \<open>
  One turn of the loop up to the first release of the mutex, and the rest of a turn that adds a
  spawner. A wait that times out changes nothing.
\<close>

definition control_turn :: "'m machine_pool \<Rightarrow> 'm machine_pool" where
  "control_turn s =
     (if should_stop s then (stop_internal s)\<lparr>control := Returned\<rparr>
      else if want_upscale s then add_spawner_begin s
      else s)"

definition control_submit :: "put_outcome \<Rightarrow> string \<Rightarrow> 'm machine_pool \<Rightarrow> 'm machine_pool" where
  "control_submit outcome what s =
     (let (res, s1) = add_spawner_end outcome what s
      in case res of
           Inr _ \<Rightarrow> s1\<lparr>control := Looping, fail_count := 0\<rparr>
         | Inl _ \<Rightarrow> s1\<lparr>control := Backing_off, fail_count := size_inc (fail_count s1)\<rparr>)"

definition backoff_over :: "'m machine_pool \<Rightarrow> 'm machine_pool" where
  "backoff_over s = s\<lparr>control := Looping\<rparr>"

text \<open>The end of a spawn task, with the result of the spawner.\<close>

definition spawn_one :: "'m result \<Rightarrow> 'm machine_pool \<Rightarrow> 'm machine_pool" where
  "spawn_one machine_res s =
     (let s1 = s\<lparr>warming := size_dec (warming s), spawn_tasks := spawn_tasks s - 1\<rparr>
      in check_stats
           (case machine_res of
              Inr machine \<Rightarrow> s1\<lparr>m_idle_machines := m_idle_machines s1 @ [machine], spawned := spawned s1 @ [machine]\<rparr>
            | Inl _ \<Rightarrow> s1))"

text \<open>
  A spawner that throws: the executor catches the exception and drops it, and the task has not taken
  the machine off the warming count. \<open>lost\<close> counts these tasks.
\<close>

definition spawn_thrown :: "'m machine_pool \<Rightarrow> 'm machine_pool" where
  "spawn_thrown s = s\<lparr>spawn_tasks := spawn_tasks s - 1, lost := lost s + 1\<rparr>"

section \<open>Interleavings\<close>

text \<open>
  The clients follow the protocol of \<^verbatim>\<open>core.cpp\<close>: they activate and release a machine they hold, and
  deactivate it before they release it. Fewer threads than \<open>2 ^ 64\<close> wait at a time, and a
  spawned machine is a new object. \<open>outcomes\<close> are the ways in which \<^verbatim>\<open>put\<close> may end.
\<close>

inductive pool_step :: "put_outcome set \<Rightarrow> 'm machine_pool \<Rightarrow> 'm machine_pool \<Rightarrow> bool" for outcomes where
  acquire_enter: "clients s + 1 < size_modulus \<Longrightarrow> pool_step outcomes s (acquire_enter s)"
| acquire_turn: "0 < clients s \<Longrightarrow> acquire_turn elapsed timeout s = (r, s') \<Longrightarrow> pool_step outcomes s s'"
| activate: "m \<in># held s \<Longrightarrow> m \<notin># activated s \<Longrightarrow> pool_step outcomes s (activate m s)"
| deactivate: "m \<in># activated s \<Longrightarrow> pool_step outcomes s (deactivate m s)"
| release: "m \<in># held s \<Longrightarrow> m \<notin># activated s \<Longrightarrow> pool_step outcomes s (release m s)"
| set_stats_callback: "pool_step outcomes s (set_stats_callback cb s)"
| start: "start s = Inr s' \<Longrightarrow> pool_step outcomes s s'"
| stop: "pool_step outcomes s (pool_stop s)"
| signal: "pool_step outcomes s (s\<lparr>is_signalled := True\<rparr>)"
| control_turn: "control s = Looping \<Longrightarrow> pool_step outcomes s (control_turn s)"
| control_submit: "control s = Submitting \<Longrightarrow> outcome \<in> outcomes \<Longrightarrow> pool_step outcomes s (control_submit outcome what s)"
| backoff_over: "control s = Backing_off \<Longrightarrow> pool_step outcomes s (backoff_over s)"
| spawn_ok: "0 < spawn_tasks s \<Longrightarrow> m \<notin> set (spawned s) \<Longrightarrow> pool_step outcomes s (spawn_one (Inr m) s)"
| spawn_failed: "0 < spawn_tasks s \<Longrightarrow> pool_step outcomes s (spawn_one (Inl err) s)"
| spawn_threw: "0 < spawn_tasks s \<Longrightarrow> pool_step outcomes s (spawn_thrown s)"

text \<open>A pool is created with sizes that fit a \<^verbatim>\<open>size_t\<close>.\<close>

definition pool_created :: "nat \<Rightarrow> nat \<Rightarrow> 'm machine_pool \<Rightarrow> bool" where
  "pool_created idle_target max_concurrency s \<longleftrightarrow>
     idle_target < size_modulus \<and> max_concurrency < size_modulus \<and> s = machine_pool idle_target max_concurrency"

section \<open>Submultisets\<close>

lemma mset_sub_add: "A \<subseteq># B \<Longrightarrow> A \<subseteq># add_mset x B"
  by (simp add: subseteq_mset_def le_SucI)

lemma mset_sub_remove: "A \<subseteq># B \<Longrightarrow> x \<notin># A \<Longrightarrow> A \<subseteq># B - {#x#}"
  by (auto simp: subseteq_mset_def not_in_iff)

lemma mset_diff_sub: "A \<subseteq># B \<Longrightarrow> A - C \<subseteq># B"
  by (auto simp: subseteq_mset_def intro: le_trans [OF diff_le_self])

lemma mset_add_sub: "A \<subseteq># B \<Longrightarrow> x \<in># B \<Longrightarrow> x \<notin># A \<Longrightarrow> add_mset x A \<subseteq># B"
  by (auto simp: subseteq_mset_def not_in_iff Suc_le_eq)

lemma size_remove: "x \<in># A \<Longrightarrow> 0 < size A \<and> size (A - {#x#}) = size A - 1"
  by (auto simp: size_Diff_singleton nonempty_has_size [symmetric])

section \<open>The invariant\<close>

lemma check_stats_fields [simp]:
  "m_idle_target (check_stats s) = m_idle_target s" "m_max_concurrency (check_stats s) = m_max_concurrency s"
  "pool_stopped (check_stats s) = pool_stopped s" "is_signalled (check_stats s) = is_signalled s"
  "acquiring (check_stats s) = acquiring s" "acquired (check_stats s) = acquired s"
  "active (check_stats s) = active s" "warming (check_stats s) = warming s"
  "m_idle_machines (check_stats s) = m_idle_machines s" "m_stats_cb (check_stats s) = m_stats_cb s"
  "control (check_stats s) = control s" "fail_count (check_stats s) = fail_count s"
  "spawn_tasks (check_stats s) = spawn_tasks s" "lost (check_stats s) = lost s" "clients (check_stats s) = clients s"
  "held (check_stats s) = held s" "activated (check_stats s) = activated s"
  "spawned (check_stats s) = spawned s" "handed_out (check_stats s) = handed_out s"
  by (simp_all add: check_stats_def report_stats_def Let_def)

text \<open>The number of provisioned machines, computed without wrap-around.\<close>

definition machines :: "'m machine_pool \<Rightarrow> nat" where
  "machines s = acquired s + length (m_idle_machines s) + warming s"

definition counters_ok :: "'m machine_pool \<Rightarrow> bool" where
  "counters_ok s \<longleftrightarrow>
     acquiring s = clients s \<and> clients s < size_modulus \<and>
     acquired s = size (held s) \<and>
     active s = size (activated s) \<and> activated s \<subseteq># held s \<and>
     warming s = spawn_tasks s + lost s + (if control s = Submitting then 1 else 0) \<and>
     m_idle_target s < size_modulus \<and> machines s \<le> m_max_concurrency s \<and> m_max_concurrency s < size_modulus"

definition custody_ok :: "'m machine_pool \<Rightarrow> bool" where
  "custody_ok s \<longleftrightarrow>
     handed_out s @ m_idle_machines s = spawned s \<and> distinct (spawned s) \<and> held s \<subseteq># mset (handed_out s)"

definition stats_ok :: "nat \<Rightarrow> pool_stats \<Rightarrow> bool" where
  "stats_ok n st \<longleftrightarrow> st_provisioned st = st_acquired st + st_idle st + st_warming st \<and> st_provisioned st \<le> n \<and>
     st_active st \<le> st_acquired st"

definition pool_inv :: "nat \<Rightarrow> 'm machine_pool \<Rightarrow> bool" where
  "pool_inv n s \<longleftrightarrow> counters_ok s \<and> custody_ok s \<and> m_max_concurrency s = n \<and> list_all (stats_ok n) (reported s)"

lemma provisioned_exact: "counters_ok s \<Longrightarrow> get_provisioned_count s = machines s"
  by (simp add: counters_ok_def machines_def get_provisioned_count_def)

lemma counters_ok_check [simp]: "counters_ok (check_stats s) = counters_ok s"
  by (simp add: counters_ok_def machines_def)

lemma custody_ok_check [simp]: "custody_ok (check_stats s) = custody_ok s"
  by (simp add: custody_ok_def)

lemma custody_distinct:
  "custody_ok s \<Longrightarrow> distinct (handed_out s) \<and> set (handed_out s) \<inter> set (m_idle_machines s) = {}"
  by (metis custody_ok_def distinct_append)

lemma pool_inv_check:
  assumes "counters_ok s" "custody_ok s" "m_max_concurrency s = n" "list_all (stats_ok n) (reported s)"
  shows "pool_inv n (check_stats s)"
proof -
  have "size (activated s) \<le> size (held s)"
    using assms(1) by (simp add: counters_ok_def size_mset_mono)
  then have "stats_ok n (current_stats s)"
    using assms(1,3) by (simp add: stats_ok_def current_stats_def provisioned_exact) (simp add: counters_ok_def machines_def)
  then show ?thesis
    using assms by (simp add: pool_inv_def) (simp add: check_stats_def report_stats_def Let_def)
qed

lemma pool_inv_created: "pool_created t n s \<Longrightarrow> pool_inv n s"
  by (simp add: pool_created_def machine_pool_def pool_inv_def counters_ok_def custody_ok_def machines_def)

lemmas pool_unfold = pool_inv_def counters_ok_def custody_ok_def machines_def

lemma inv_acquire_enter: "pool_inv n s \<Longrightarrow> clients s + 1 < size_modulus \<Longrightarrow> pool_inv n (acquire_enter s)"
  unfolding acquire_enter_def by (rule pool_inv_check) (auto simp: pool_unfold)

lemma inv_acquire_turn:
  assumes "pool_inv n s" "0 < clients s" "acquire_turn elapsed timeout s = (r, s')"
  shows "pool_inv n s'"
proof -
  have leave: "pool_inv n (s\<lparr>acquiring := size_dec (acquiring s), clients := clients s - 1\<rparr>)"
    using assms(1,2) by (auto simp: pool_unfold)
  show ?thesis
  proof (cases "should_stop s \<or> m_idle_machines s = []")
    case True
    with assms leave show ?thesis
      by (auto simp: acquire_turn_def split: if_splits list.splits)
  next
    case False
    then obtain machine rest where idle: "m_idle_machines s = machine # rest" and go: "\<not> should_stop s"
      by (cases "m_idle_machines s") auto
    let ?s = "s\<lparr>m_idle_machines := rest, acquiring := size_dec (acquiring s),
                      acquired := size_inc (acquired s), clients := clients s - 1,
                      held := add_mset machine (held s), handed_out := handed_out s @ [machine]\<rparr>"
    have "activated s \<subseteq># add_mset machine (held s)"
      using assms(1) by (simp add: pool_unfold mset_sub_add)
    then have "pool_inv n (check_stats ?s)"
      using assms(1,2) idle by (intro pool_inv_check) (auto simp: pool_unfold)
    moreover have "s' = check_stats ?s"
      using assms(3) go idle by (simp add: acquire_turn_def)
    ultimately show ?thesis
      by simp
  qed
qed

lemma inv_activate:
  assumes "pool_inv n s" "m \<in># held s" "m \<notin># activated s"
  shows "pool_inv n (activate m s)"
proof -
  have "add_mset m (activated s) \<subseteq># held s"
    using assms by (intro mset_add_sub) (simp_all add: pool_unfold)
  then have "size (add_mset m (activated s)) \<le> size (held s)"
    by (rule size_mset_mono)
  with \<open>add_mset m (activated s) \<subseteq># held s\<close> show ?thesis
    unfolding activate_def using assms by (intro pool_inv_check) (auto simp: pool_unfold)
qed

lemma inv_deactivate:
  assumes "pool_inv n s" "m \<in># activated s"
  shows "pool_inv n (deactivate m s)"
proof -
  have "activated s - {#m#} \<subseteq># held s" "size (activated s) \<le> size (held s)" "0 < size (activated s)"
    using assms by (auto simp: pool_unfold size_mset_mono mset_diff_sub size_remove)
  then show ?thesis
    using assms size_remove [OF assms(2)] by (auto simp: deactivate_def pool_unfold)
qed

lemma inv_release:
  assumes "pool_inv n s" "m \<in># held s" "m \<notin># activated s"
  shows "pool_inv n (release m s)"
proof -
  have "activated s \<subseteq># held s - {#m#}" "held s - {#m#} \<subseteq># mset (handed_out s)"
    using assms by (auto simp: pool_unfold mset_sub_remove mset_diff_sub)
  then show ?thesis
    unfolding release_def using assms size_remove [OF assms(2)]
    by (intro pool_inv_check) (auto simp: pool_unfold)
qed

lemma inv_control_flags:
  assumes "pool_inv n s"
  shows "pool_inv n (s\<lparr>is_signalled := True\<rparr>)" "pool_inv n (set_stats_callback cb s)" "pool_inv n (pool_stop s)"
  using assms by (auto simp: set_stats_callback_def pool_stop_def stop_internal_def pool_unfold)

lemma inv_control_move:
  assumes "pool_inv n s" "control s \<noteq> Submitting" "p \<noteq> Submitting"
  shows "pool_inv n (s\<lparr>control := p\<rparr>)" "pool_inv n (s\<lparr>control := p, fail_count := k\<rparr>)"
  using assms by (auto simp: pool_unfold)

lemma inv_start: "pool_inv n s \<Longrightarrow> start s = Inr s' \<Longrightarrow> pool_inv n s'"
  by (auto simp: start_def intro: inv_control_move split: if_splits)

lemma inv_control_turn:
  assumes "pool_inv n s" "control s = Looping"
  shows "pool_inv n (control_turn s)"
proof -
  consider (stopping) "should_stop s" | (upscale) "\<not> should_stop s" "want_upscale s"
    | (wait) "\<not> should_stop s" "\<not> want_upscale s"
    by blast
  then show ?thesis
  proof cases
    case stopping
    have "pool_inv n (stop_internal s)" "control (stop_internal s) = Looping"
      using inv_control_flags(3) [OF assms(1)] assms(2) by (auto simp: pool_stop_def stop_internal_def)
    with stopping show ?thesis
      by (simp add: control_turn_def inv_control_move)
  next
    case upscale
    have "machines s < m_max_concurrency s"
      using assms(1) upscale(2) by (simp add: want_upscale_def Let_def pool_inv_def provisioned_exact)
    then have "pool_inv n (add_spawner_begin s)"
      unfolding add_spawner_begin_def using assms by (intro pool_inv_check) (auto simp: pool_unfold)
    with upscale show ?thesis
      by (simp add: control_turn_def)
  next
    case wait
    with assms show ?thesis
      by (simp add: control_turn_def)
  qed
qed

lemma pool_inv_fail_count [simp]: "pool_inv n (s\<lparr>fail_count := k\<rparr>) = pool_inv n s"
  by (simp add: pool_unfold)

lemma inv_control_submit:
  assumes "pool_inv n s" "control s = Submitting" "outcome \<noteq> Thrown_but_queued"
  shows "pool_inv n (control_submit outcome what s)"
proof (cases outcome)
  case Accepted
  with assms show ?thesis
    by (auto simp: control_submit_def add_spawner_end_def pool_unfold)
next
  case Rejected
  let ?s = "s\<lparr>warming := size_dec (warming s), control := Backing_off\<rparr>"
  have "pool_inv n (check_stats ?s)"
    using assms by (intro pool_inv_check) (auto simp: pool_unfold)
  moreover have "check_stats (s\<lparr>warming := size_dec (warming s)\<rparr>)\<lparr>control := Backing_off\<rparr> = check_stats ?s"
    by (simp add: check_stats_def report_stats_def current_stats_def get_provisioned_count_def Let_def)
  ultimately have "pool_inv n (check_stats (s\<lparr>warming := size_dec (warming s)\<rparr>)\<lparr>control := Backing_off\<rparr>)"
    by simp
  with Rejected show ?thesis
    by (simp add: control_submit_def add_spawner_end_def)
next
  case Thrown_but_queued
  with assms show ?thesis
    by simp
qed

lemma inv_spawn_one:
  assumes "pool_inv n s" "0 < spawn_tasks s" "case r of Inr m \<Rightarrow> m \<notin> set (spawned s) | Inl _ \<Rightarrow> True"
  shows "pool_inv n (spawn_one r s)"
  unfolding spawn_one_def Let_def using assms
  by (intro pool_inv_check) (auto simp: pool_unfold split: sum.splits)

lemma inv_spawn_thrown: "pool_inv n s \<Longrightarrow> 0 < spawn_tasks s \<Longrightarrow> pool_inv n (spawn_thrown s)"
  by (auto simp: spawn_thrown_def pool_unfold)

lemma pool_inv_step: "pool_inv n s \<Longrightarrow> pool_step {Accepted, Rejected} s s' \<Longrightarrow> pool_inv n s'"
  by (erule pool_step.cases)
    (auto intro: inv_acquire_enter inv_acquire_turn inv_activate inv_deactivate inv_release inv_control_flags
      inv_start inv_control_turn inv_control_submit inv_control_move inv_spawn_one
      inv_spawn_thrown simp: backoff_over_def)

interpretation pool: step_invariant "pool_created t n" "pool_step {Accepted, Rejected}" "pool_inv n" for t n
  by unfold_locales (auto intro: pool_inv_created pool_inv_step)

section \<open>After shutdown\<close>

text \<open>A stopped pool without spawn tasks stays that way: nothing can submit another one.\<close>

definition quiet :: "'m list \<Rightarrow> 'm machine_pool \<Rightarrow> bool" where
  "quiet ms s \<longleftrightarrow> pool_stopped s \<and> control s \<noteq> Submitting \<and> spawn_tasks s = 0 \<and> spawned s = ms"

lemma quiet_check [simp]: "quiet ms (check_stats s) = quiet ms s"
  by (simp add: quiet_def)

lemma quiet_step:
  assumes "quiet ms s" "pool_step outcomes s s'"
  shows "quiet ms s'"
  using assms(2,1)
proof cases
  case (acquire_turn elapsed timeout r)
  with assms(1) show ?thesis
    by (auto simp: acquire_turn_def should_stop_def quiet_def)
next
  case start
  with assms(1) show ?thesis
    by (auto simp: start_def quiet_def split: if_splits)
next
  case control_turn
  with assms(1) show ?thesis
    by (auto simp: control_turn_def should_stop_def stop_internal_def quiet_def)
qed (auto simp: acquire_enter_def activate_def deactivate_def release_def set_stats_callback_def
    pool_stop_def stop_internal_def backoff_over_def quiet_def)

interpretation stopped: step_invariant "\<lambda>s. stop_returns s \<and> spawned s = ms" "pool_step outcomes" "quiet ms" for ms outcomes
proof unfold_locales
  show "quiet ms s" if "stop_returns s \<and> spawned s = ms" for s
    using that by (auto simp: quiet_def stop_returns_def)
qed (rule quiet_step)

section \<open>Lost spawn tasks\<close>

text \<open>
  A pool that counts as many lost machines as it wants idle ones, with no machine left and none on
  the way, stays that way.
\<close>

definition starved :: "nat \<Rightarrow> 'm list \<Rightarrow> 'm machine_pool \<Rightarrow> bool" where
  "starved n ms s \<longleftrightarrow>
     pool_inv n s \<and> min (m_idle_target s) n \<le> lost s \<and> held s = {#} \<and> m_idle_machines s = [] \<and>
     spawn_tasks s = 0 \<and> control s \<noteq> Submitting \<and> spawned s = ms"

lemma starved_no_upscale: "starved n ms s \<Longrightarrow> \<not> want_upscale s"
  using provisioned_exact [of s] by (auto simp: starved_def pool_unfold want_upscale_def Let_def)

lemma starved_step:
  assumes "starved n ms s" "pool_step {Accepted, Rejected} s s'"
  shows "starved n ms s'"
proof -
  have inv: "pool_inv n s'"
    using assms by (auto simp: starved_def intro: pool_inv_step)
  have "activated s = {#}"
    using assms(1) by (auto simp: starved_def pool_unfold)
  note here = this assms(1) starved_no_upscale [OF assms(1)]
  from assms(2) show ?thesis
  proof cases
    case (acquire_turn elapsed timeout r)
    with here inv show ?thesis
      by (auto simp: acquire_turn_def starved_def split: if_splits)
  next
    case start
    with here inv show ?thesis
      by (auto simp: start_def starved_def split: if_splits)
  next
    case control_turn
    with here inv show ?thesis
      by (auto simp: control_turn_def stop_internal_def starved_def)
  qed (use here inv in \<open>auto simp: acquire_enter_def set_stats_callback_def pool_stop_def stop_internal_def
      backoff_over_def starved_def\<close>)
qed

interpretation starving: step_invariant "starved n ms" "pool_step {Accepted, Rejected}" "starved n ms" for n ms
  by unfold_locales (auto intro: starved_step)

section \<open>A pool with two idle machines and room for three\<close>

abbreviation pool_reachable :: "nat \<Rightarrow> nat \<Rightarrow> 'm machine_pool \<Rightarrow> bool" where
  "pool_reachable t n \<equiv> reachable (pool_created t n) (pool_step {Accepted, Rejected})"

text \<open>One machine is idle, another is held and active; a client waits.\<close>

definition small_pool :: "nat machine_pool" where
  "small_pool = (machine_pool 1 3)\<lparr>m_stats_cb := False, control := Looping\<rparr>"

lemma small_pool_reachable: "pool_reachable 1 3 small_pool"
proof -
  have "pool_created 1 3 (machine_pool 1 3 :: nat machine_pool)"
    by (simp add: pool_created_def small_size)
  moreover have "pool_step {Accepted, Rejected} (machine_pool 1 3) small_pool"
    by (rule pool_step.start) (simp add: small_pool_def start_def machine_pool_def)
  ultimately show ?thesis
    by (meson reachable.intros)
qed

definition serving_pool :: "nat machine_pool" where
  "serving_pool = acquire_enter (spawn_one (Inr 7) (control_submit Accepted [] (control_turn small_pool)))"

lemma serving_pool_fields:
  "clients serving_pool = 1" "m_idle_machines serving_pool = [7]" "held serving_pool = {#}"
  "control serving_pool = Looping" "pool_stopped serving_pool = False" "is_signalled serving_pool = False"
  "m_idle_target serving_pool = 1" "m_max_concurrency serving_pool = 3" "active serving_pool = 0"
  "acquired serving_pool = 0" "warming serving_pool = 0" "spawn_tasks serving_pool = 0"
  by (simp_all add: serving_pool_def small_pool_def machine_pool_def acquire_enter_def spawn_one_def control_submit_def
      add_spawner_end_def control_turn_def should_stop_def want_upscale_def get_provisioned_count_def
      add_spawner_begin_def Let_def small_size)

lemma serving_pool_reachable: "pool_reachable 1 3 serving_pool"
proof -
  note defs = small_pool_def machine_pool_def spawn_one_def control_submit_def add_spawner_end_def control_turn_def
    should_stop_def want_upscale_def get_provisioned_count_def add_spawner_begin_def Let_def small_size
  let ?p1 = "control_turn small_pool" and ?p2 = "control_submit Accepted [] (control_turn small_pool)"
  have "pool_step {Accepted, Rejected} small_pool ?p1"
    by (rule pool_step.control_turn) (simp add: small_pool_def)
  moreover have "pool_step {Accepted, Rejected} ?p1 ?p2"
    by (rule pool_step.control_submit) (simp_all add: defs)
  moreover have "pool_step {Accepted, Rejected} ?p2 (spawn_one (Inr 7) ?p2)"
    by (rule pool_step.spawn_ok) (simp_all add: defs)
  moreover have "pool_step {Accepted, Rejected} (spawn_one (Inr 7) ?p2) serving_pool"
    unfolding serving_pool_def by (rule pool_step.acquire_enter) (simp add: defs)
  ultimately show ?thesis
    using small_pool_reachable by (meson reachable.reach_step)
qed

section \<open>Properties\<close>



text \<open>
  C7. Machines are handed out in the order they were spawned, each to one client: the machines
  ever spawned are those handed out followed by the idle ones, all different, and no machine is
  held twice or held and idle.
\<close>

theorem pool_custody:
  assumes "pool_reachable t n s"
  shows "spawned s = handed_out s @ m_idle_machines s \<and> distinct (spawned s) \<and>
    count (held s) m \<le> 1 \<and> (m \<notin># held s \<or> (m \<in> set (handed_out s) \<and> m \<notin> set (m_idle_machines s)))"
proof -
  note inv = pool.inv_reachable [OF assms]
  then have dist: "distinct (handed_out s)" "set (handed_out s) \<inter> set (m_idle_machines s) = {}"
    and sub: "held s \<subseteq># mset (handed_out s)"
    using custody_distinct [of s] by (simp_all add: pool_inv_def custody_ok_def)
  have "count (held s) m \<le> count (mset (handed_out s)) m"
    using sub by (simp add: mset_subset_eq_count)
  moreover have "count (mset (handed_out s)) m \<le> 1"
    using dist(1) by (simp add: distinct_count_atmost_1)
  moreover have "m \<in># held s \<Longrightarrow> m \<in> set (handed_out s)"
    using sub by (metis mset_subset_eqD set_mset_mset)
  ultimately show ?thesis
    using inv dist by (auto simp: pool_unfold)
qed

theorem pool_custody_witness: "distinct (spawned serving_pool) \<and> count (held serving_pool) 7 \<le> 1"
  using pool_custody [OF serving_pool_reachable, of 7] by blast

text \<open>
  A turn of \<^verbatim>\<open>acquire\<close> gives the machine that has been idle longest, which nobody else holds,
  without changing the number of provisioned machines; with no idle machine it ends with an error
  once the time-out has passed, and when the pool is stopping it ends with an error at once.
\<close>

theorem pool_acquire:
  assumes "pool_reachable t n s" "0 < clients s"
  shows "case acquire_turn elapsed timeout s of (r, s') \<Rightarrow>
    get_provisioned_count s' = get_provisioned_count s \<and>
    clients s' = (if r = None then clients s else clients s - 1) \<and>
    (case r of
       Some (Inr m) \<Rightarrow> \<not> should_stop s \<and> m_idle_machines s = m # m_idle_machines s' \<and> m \<notin># held s \<and>
                      held s' = add_mset m (held s)
     | Some (Inl (Error e)) \<Rightarrow> (if should_stop s then e = ''Shutting down machine pool''
                                else e = ''Timed out while acquiring machine'' \<and> m_idle_machines s = [] \<and> timeout \<le> elapsed) \<and>
                      held s' = held s
     | None \<Rightarrow> \<not> should_stop s \<and> m_idle_machines s = [] \<and> elapsed < timeout \<and> s' = s)"
proof (cases "should_stop s \<or> m_idle_machines s = []")
  case True
  then show ?thesis
    by (auto simp: acquire_turn_def get_provisioned_count_def split: list.split)
next
  case False
  then obtain m rest where idle: "m_idle_machines s = m # rest" and go: "\<not> should_stop s"
    by (cases "m_idle_machines s") auto
  note inv = pool.inv_reachable [OF assms(1)]
  obtain r s' where turn: "acquire_turn elapsed timeout s = (r, s')"
    by fastforce
  have inv': "pool_inv n s'"
    by (rule inv_acquire_turn [OF inv assms(2) turn])
  have "m \<notin> set (handed_out s)"
    using inv idle custody_distinct [of s] by (auto simp: pool_inv_def)
  then have fresh: "m \<notin># held s"
    using inv by (metis custody_ok_def mset_subset_eqD pool_inv_def set_mset_mset)
  have s': "r = Some (Inr m)" "m_idle_machines s' = rest" "held s' = add_mset m (held s)" "clients s' = clients s - 1"
      "warming s' = warming s"
    using turn idle go by (auto simp: acquire_turn_def)
  have "acquired s' = size (held s')" "acquired s = size (held s)"
    using inv inv' by (simp_all add: pool_unfold)
  then have "machines s' = machines s"
    by (simp add: machines_def s' idle)
  then have "get_provisioned_count s' = get_provisioned_count s"
    using inv inv' by (simp add: provisioned_exact pool_inv_def)
  with s' idle go fresh turn show ?thesis
    by simp
qed

theorem pool_acquire_witness: "7 \<notin># held serving_pool"
  using pool_acquire [OF serving_pool_reachable, of 0 100]
  by (simp add: serving_pool_fields acquire_turn_def should_stop_def)

text \<open>
  C24. While the pool runs, a turn of the control loop adds a spawner exactly when fewer machines
  are provisioned than the idle target plus the active ones and fewer than the limit, and otherwise
  changes nothing; when the pool is stopping, the turn is the last.
\<close>

theorem pool_control:
  assumes "pool_reachable t n s" "control s = Looping" "t + n < size_modulus" "m_idle_target s = t"
  shows "control_turn s =
    (if should_stop s then s\<lparr>pool_stopped := True, control := Returned\<rparr>
     else if size (held s) + length (m_idle_machines s) + (spawn_tasks s + lost s) < min n (t + size (activated s))
     then check_stats (s\<lparr>warming := spawn_tasks s + lost s + 1, control := Submitting\<rparr>)
     else s)"
proof -
  note inv = pool.inv_reachable [OF assms(1)]
  have eqs: "warming s = spawn_tasks s + lost s" "acquired s = size (held s)" "active s = size (activated s)"
      "m_max_concurrency s = n"
    using inv assms(2) by (simp_all add: pool_unfold)
  have prov: "get_provisioned_count s = size (held s) + length (m_idle_machines s) + (spawn_tasks s + lost s)"
    using inv eqs provisioned_exact [of s] by (simp add: pool_inv_def machines_def)
  have "size (activated s) \<le> n"
    using inv size_mset_mono [of "activated s" "held s"] by (simp add: pool_unfold)
  then have target: "size_add t (size (activated s)) = t + size (activated s)"
    using assms(3) by simp
  have "spawn_tasks s + lost s + 1 < size_modulus"
    if "size (held s) + length (m_idle_machines s) + (spawn_tasks s + lost s) < n"
    using that assms(3) by simp
  then show ?thesis
    by (auto simp: control_turn_def stop_internal_def want_upscale_def prov eqs assms(4) target add_spawner_begin_def Let_def)
qed

theorem pool_control_witness:
  "control_turn small_pool = check_stats (small_pool\<lparr>warming := 1, control := Submitting\<rparr>)"
  using pool_control [OF small_pool_reachable] by (simp add: small_pool_def machine_pool_def small_size should_stop_def)

text \<open>
  Every snapshot passed to the statistics callback is consistent: the provisioned machines are
  the acquired, idle and warming ones, at most the limit, and no more are active than acquired; and
  \<^verbatim>\<open>check_stats\<close> reports exactly the changes.
\<close>

theorem pool_reports:
  assumes "pool_reachable t n s"
  shows "list_all (stats_ok n) (reported s) \<and>
    reported (check_stats s) = reported s @ (if m_stats_cb s \<and> m_stats s \<noteq> current_stats s then [current_stats s] else []) \<and>
    m_stats (check_stats s) = current_stats s"
  using pool.inv_reachable [OF assms] by (simp add: pool_inv_def) (simp add: check_stats_def report_stats_def Let_def)

theorem pool_reports_witness: "list_all (stats_ok 3) (reported serving_pool)"
  using pool_reports [OF serving_pool_reachable] by simp

text \<open>
  C28. Once \<^verbatim>\<open>stop\<close> has returned, whatever happens next, no machine is spawned any more and every
  \<^verbatim>\<open>acquire\<close> fails.
\<close>

theorem pool_stop_final:
  assumes "stop_returns s" "reachable (\<lambda>s0. s0 = s) (pool_step outcomes) s'"
  shows "spawned s' = spawned s \<and> fst (acquire_turn elapsed timeout s') = Some (Inl (Error ''Shutting down machine pool''))"
proof -
  have "reachable (\<lambda>s0. stop_returns s0 \<and> spawned s0 = spawned s) (pool_step outcomes) s'"
    using assms(2) by (induction rule: reachable.induct) (auto intro: reachable.intros assms(1))
  then have "quiet (spawned s) s'"
    by (rule stopped.inv_reachable)
  then show ?thesis
    by (simp add: quiet_def acquire_turn_def should_stop_def)
qed

theorem pool_stop_final_witness:
  "fst (acquire_turn 0 10 (pool_stop (machine_pool 1 3 :: nat machine_pool))) = Some (Inl (Error ''Shutting down machine pool''))"
  using pool_stop_final [of "pool_stop (machine_pool 1 3)" UNIV "pool_stop (machine_pool 1 3)" 0 10]
  by (simp add: stop_returns_def pool_stop_def stop_internal_def machine_pool_def reachable.reach_init)

text \<open>
  The back-off after consecutive failures doubles from two seconds and never exceeds a minute.
\<close>

theorem pool_backoff: "backoff fails = (if fails < 6 then 2 ^ fails else 60)"
proof (cases "fails < 6")
  case True
  then have "fails \<in> {0, 1, 2, 3, 4, 5}"
    by auto
  then show ?thesis
    by (auto simp: backoff_def ipow2_power)
next
  case False
  then show ?thesis
    by (simp add: backoff_def ipow2_power)
qed

text \<open>
  C33. A spawner that throws instead of returning an error is never taken off the warming count.
  Once as many are lost as the pool wants idle machines (one is enough for an idle target of 1), and
  the machines spawned before are gone, the pool never spawns a machine again: every \<^verbatim>\<open>acquire\<close>
  waits until its time-out.
\<close>

theorem pool_starves:
  assumes "pool_reachable t n s" "min (m_idle_target s) n \<le> lost s" "held s = {#}" "m_idle_machines s = []"
    "spawn_tasks s = 0" "control s \<noteq> Submitting"
    and "reachable (\<lambda>s0. s0 = s) (pool_step {Accepted, Rejected}) s'"
  shows "spawned s' = spawned s \<and>
    fst (acquire_turn elapsed timeout s') =
      (if should_stop s' then Some (Inl (Error ''Shutting down machine pool''))
       else if elapsed < timeout then None else Some (Inl (Error ''Timed out while acquiring machine'')))"
proof -
  have here: "starved n (spawned s) s"
    using assms(2-6) pool.inv_reachable [OF assms(1)] by (simp add: starved_def)
  have "reachable (starved n (spawned s)) (pool_step {Accepted, Rejected}) s'"
    using assms(7) by (induction rule: reachable.induct) (auto intro: reachable.intros here)
  then have "starved n (spawned s) s'"
    by (rule starving.inv_reachable)
  then show ?thesis
    by (simp add: starved_def acquire_turn_def)
qed

text \<open>The first spawner of a pool that wants one idle machine throws.\<close>

definition lost_pool :: "nat machine_pool" where
  "lost_pool = spawn_thrown (control_submit Accepted [] (control_turn small_pool))"

lemma lost_pool_reachable: "pool_reachable 1 3 lost_pool"
proof -
  note defs = small_pool_def machine_pool_def control_submit_def add_spawner_end_def control_turn_def
    should_stop_def want_upscale_def get_provisioned_count_def add_spawner_begin_def Let_def small_size
  let ?p1 = "control_turn small_pool" and ?p2 = "control_submit Accepted [] (control_turn small_pool)"
  have "pool_step {Accepted, Rejected} small_pool ?p1"
    by (rule pool_step.control_turn) (simp add: small_pool_def)
  moreover have "pool_step {Accepted, Rejected} ?p1 ?p2"
    by (rule pool_step.control_submit) (simp_all add: defs)
  moreover have "pool_step {Accepted, Rejected} ?p2 lost_pool"
    unfolding lost_pool_def by (rule pool_step.spawn_threw) (simp add: defs)
  ultimately show ?thesis
    using small_pool_reachable by (meson reachable.reach_step)
qed

theorem pool_starves_witness: "fst (acquire_turn 9 5 lost_pool) = Some (Inl (Error ''Timed out while acquiring machine''))"
proof -
  note defs = lost_pool_def spawn_thrown_def small_pool_def machine_pool_def control_submit_def add_spawner_end_def
    control_turn_def should_stop_def want_upscale_def get_provisioned_count_def add_spawner_begin_def Let_def small_size
  have "min (m_idle_target lost_pool) 3 \<le> lost lost_pool" "held lost_pool = {#}" "m_idle_machines lost_pool = []"
    "spawn_tasks lost_pool = 0" "control lost_pool \<noteq> Submitting" "\<not> should_stop lost_pool"
    by (simp_all add: defs)
  then show ?thesis
    using pool_starves [OF lost_pool_reachable _ _ _ _ _ reachable.reach_init, where elapsed = 9 and timeout = 5] by simp
qed

text \<open>
  The limit rests on \<^verbatim>\<open>put\<close> leaving no task behind when it throws. If a worker thread cannot be
  started after the spawn task was queued, \<^verbatim>\<open>add_spawner\<close> takes the machine off the warming count
  while the task still runs later: a pool with \<^verbatim>\<open>max_concurrency\<close> 1 then holds two machines, and
  the warming count has wrapped around.
\<close>

theorem pool_limit_broken_by_failed_put:
  "\<exists>s :: nat machine_pool. reachable (pool_created 1 1) (pool_step UNIV) s \<and>
     m_max_concurrency s = 1 \<and> m_idle_machines s = [0, 1] \<and> warming s = size_modulus - 1"
proof -
  let ?step = "pool_step UNIV :: nat machine_pool \<Rightarrow> _"
  define p0 :: "nat machine_pool" where "p0 = machine_pool 1 1"
  define p1 where "p1 = p0\<lparr>control := Looping\<rparr>"
  define p2 where "p2 = control_turn p1"
  define p3 where "p3 = control_submit Thrown_but_queued [] p2"
  define p4 where "p4 = backoff_over p3"
  define p5 where "p5 = control_turn p4"
  define p6 where "p6 = control_submit Accepted [] p5"
  define p7 where "p7 = spawn_one (Inr 0) p6"
  define p8 where "p8 = spawn_one (Inr 1) p7"
  note defs = should_stop_def want_upscale_def get_provisioned_count_def Let_def small_size
  have f1: "control p1 = Looping" "spawn_tasks p1 = 0" "warming p1 = 0" "m_idle_machines p1 = []" "acquired p1 = 0"
    "active p1 = 0" "m_idle_target p1 = 1" "m_max_concurrency p1 = 1" "\<not> should_stop p1" "spawned p1 = []"
    by (simp_all add: p1_def p0_def machine_pool_def should_stop_def)
  have f2: "control p2 = Submitting" "spawn_tasks p2 = 0" "warming p2 = 1" "m_idle_machines p2 = []" "acquired p2 = 0"
    "active p2 = 0" "m_idle_target p2 = 1" "m_max_concurrency p2 = 1" "\<not> should_stop p2" "spawned p2 = []"
    using f1 by (simp_all add: p2_def control_turn_def add_spawner_begin_def defs)
  have f4: "control p4 = Looping" "spawn_tasks p4 = 1" "warming p4 = 0" "m_idle_machines p4 = []" "acquired p4 = 0"
    "active p4 = 0" "m_idle_target p4 = 1" "m_max_concurrency p4 = 1" "\<not> should_stop p4" "spawned p4 = []" "control p3 = Backing_off"
    using f2 by (simp_all add: p4_def p3_def control_submit_def add_spawner_end_def backoff_over_def defs)
  have f5: "control p5 = Submitting" "spawn_tasks p5 = 1" "warming p5 = 1" "m_idle_machines p5 = []" "acquired p5 = 0"
    "m_max_concurrency p5 = 1" "spawned p5 = []"
    using f4 by (simp_all add: p5_def control_turn_def add_spawner_begin_def defs)
  have f6: "spawn_tasks p6 = 2" "warming p6 = 1" "m_idle_machines p6 = []" "m_max_concurrency p6 = 1" "spawned p6 = []"
    using f5 by (simp_all add: p6_def control_submit_def add_spawner_end_def)
  have f7: "spawn_tasks p7 = 1" "warming p7 = 0" "m_idle_machines p7 = [0]" "m_max_concurrency p7 = 1" "spawned p7 = [0]"
    using f6 by (simp_all add: p7_def spawn_one_def Let_def small_size)
  have f8: "warming p8 = size_modulus - 1" "m_idle_machines p8 = [0, 1]" "m_max_concurrency p8 = 1"
    using f7 by (simp_all add: p8_def spawn_one_def Let_def size_dec_zero)
  have "?step p0 p1"
    by (rule pool_step.start) (simp add: p1_def p0_def start_def machine_pool_def)
  moreover have "?step p1 p2"
    unfolding p2_def by (rule pool_step.control_turn) (rule f1)
  moreover have "?step p2 p3"
    unfolding p3_def by (rule pool_step.control_submit) (simp_all add: f2)
  moreover have "?step p3 p4"
    unfolding p4_def by (rule pool_step.backoff_over) (rule f4)
  moreover have "?step p4 p5"
    unfolding p5_def by (rule pool_step.control_turn) (rule f4)
  moreover have "?step p5 p6"
    unfolding p6_def by (rule pool_step.control_submit) (simp_all add: f5)
  moreover have "?step p6 p7"
    unfolding p7_def by (rule pool_step.spawn_ok) (simp_all add: f6)
  moreover have "?step p7 p8"
    unfolding p8_def by (rule pool_step.spawn_ok) (simp_all add: f7)
  moreover have "pool_created 1 1 p0"
    by (simp add: pool_created_def p0_def small_size)
  ultimately have "reachable (pool_created 1 1) ?step p8"
    by (meson reachable.intros)
  with f8 show ?thesis
    by blast
qed

end
