(* ===== verification/Interfaces.thy ===== *)
theory Interfaces
  imports Prelude "HOL-Library.Multiset"
begin

text \<open>
  The contract between the machine pool and the runner loop: what a client may rely on when it
  acquires, activates, deactivates and releases machines. The machine pool interprets it, the
  runner loop's lemmas are proved from it.
\<close>

section \<open>Source of machines\<close>

text \<open>
  \<open>held\<close> and \<open>in_use\<close> are the machines handed out and those activated; \<open>ok\<close> is the provider's
  invariant.
\<close>

locale machine_source =
  fixes src_acquire :: "int \<Rightarrow> 'w \<Rightarrow> 'm option result \<times> 'w"
    and src_activate :: "'m \<Rightarrow> 'w \<Rightarrow> 'w"
    and src_deactivate :: "'m \<Rightarrow> 'w \<Rightarrow> 'w"
    and src_release :: "'m \<Rightarrow> 'w \<Rightarrow> 'w"
    and src_held :: "'w \<Rightarrow> 'm multiset"
    and src_in_use :: "'w \<Rightarrow> 'm multiset"
    and src_ok :: "'w \<Rightarrow> bool"
  assumes acquired: "src_ok s \<Longrightarrow> src_acquire d s = (Inr (Some m), s') \<Longrightarrow>
      src_ok s' \<and> src_held s' = add_mset m (src_held s) \<and> src_in_use s' = src_in_use s \<and> m \<notin># src_in_use s"
    and not_acquired: "src_ok s \<Longrightarrow> src_acquire d s = (Inl e, s') \<Longrightarrow>
      src_ok s' \<and> src_held s' = src_held s \<and> src_in_use s' = src_in_use s"
    and never_null: "src_ok s \<Longrightarrow> fst (src_acquire d s) \<noteq> Inr None"
    and activated: "src_ok s \<Longrightarrow> m \<in># src_held s \<Longrightarrow> m \<notin># src_in_use s \<Longrightarrow>
      src_ok (src_activate m s) \<and> src_held (src_activate m s) = src_held s \<and>
      src_in_use (src_activate m s) = add_mset m (src_in_use s)"
    and deactivated: "src_ok s \<Longrightarrow> m \<in># src_in_use s \<Longrightarrow>
      src_ok (src_deactivate m s) \<and> src_held (src_deactivate m s) = src_held s \<and>
      src_in_use (src_deactivate m s) = src_in_use s - {#m#}"
    and released: "src_ok s \<Longrightarrow> m \<in># src_held s \<Longrightarrow> m \<notin># src_in_use s \<Longrightarrow>
      src_ok (src_release m s) \<and> src_held (src_release m s) = src_held s - {#m#} \<and>
      src_in_use (src_release m s) = src_in_use s"
begin

text \<open>A state from which a client that holds nothing new has started.\<close>

definition balanced :: "'m multiset \<Rightarrow> 'm multiset \<Rightarrow> 'w \<Rightarrow> bool" where
  "balanced H U s \<longleftrightarrow> src_ok s \<and> src_held s = H \<and> src_in_use s = U"

lemma balanced_acquire:
  "balanced H U s \<Longrightarrow> src_acquire d s = (Inr (Some m), s') \<Longrightarrow> balanced (add_mset m H) U s' \<and> m \<notin># U"
  using acquired by (auto simp: balanced_def)

lemma balanced_acquire_error: "balanced H U s \<Longrightarrow> src_acquire d s = (Inl e, s') \<Longrightarrow> balanced H U s'"
  using not_acquired by (auto simp: balanced_def)

lemma balanced_use:
  "balanced (add_mset m H) U s \<Longrightarrow> m \<notin># U \<Longrightarrow> balanced (add_mset m H) (add_mset m U) (src_activate m s)"
  using activated by (auto simp: balanced_def)

lemma balanced_unuse:
  "balanced H (add_mset m U) s \<Longrightarrow> balanced H U (src_deactivate m s)"
  using deactivated by (auto simp: balanced_def)

lemma balanced_release:
  "balanced (add_mset m H) U s \<Longrightarrow> m \<notin># U \<Longrightarrow> balanced H U (src_release m s)"
  using released by (auto simp: balanced_def)

end

end
