(* ===== verification/Effects.thy ===== *)
theory Effects
  imports Prelude
begin

text \<open>
  Computations of the code that talk to the outside (an HTTP server, a virtual machine, the
  clock): a function of the state of the outside that returns a \<^verbatim>\<open>Result\<close>, or leaves by an
  exception, together with the new state. The combinators follow the code's early returns and its
  chains of \<^verbatim>\<open>and_then\<close> and \<^verbatim>\<open>or_else\<close>; the lemmas are their laws and a rule for
  properties that every part of a computation keeps.
\<close>

type_synonym ('s, 'a) io = "'s \<Rightarrow> (fault + 'a result) \<times> 's"

definition io_result :: "'a result \<Rightarrow> ('s, 'a) io" where
  "io_result r s = (Inr r, s)"

definition io_fault :: "fault \<Rightarrow> ('s, 'a) io" where
  "io_fault f s = (Inl f, s)"

definition io_bind :: "('s, 'a) io \<Rightarrow> ('a \<Rightarrow> ('s, 'b) io) \<Rightarrow> ('s, 'b) io" where
  "io_bind m f s =
     (case m s of
        (Inl flt, s') \<Rightarrow> (Inl flt, s')
      | (Inr (Inl e), s') \<Rightarrow> (Inr (Inl e), s')
      | (Inr (Inr a), s') \<Rightarrow> f a s')"

definition io_or_else :: "('s, 'a) io \<Rightarrow> (error \<Rightarrow> ('s, 'a) io) \<Rightarrow> ('s, 'a) io" where
  "io_or_else m h s =
     (case m s of
        (Inl flt, s') \<Rightarrow> (Inl flt, s')
      | (Inr (Inl e), s') \<Rightarrow> h e s'
      | (Inr (Inr a), s') \<Rightarrow> (Inr (Inr a), s'))"

text \<open>\<^verbatim>\<open>if (!res) return std::unexpected{Error{std::format("...: {}", res.error().what())}}\<close>.\<close>

definition io_wrap_error :: "string \<Rightarrow> ('s, 'a) io \<Rightarrow> ('s, 'a) io" where
  "io_wrap_error prefix m = io_or_else m (\<lambda>e. io_result (Inl (Error (prefix @ what_of e))))"

text \<open>\<^verbatim>\<open>std::ignore = ...\<close> and \<^verbatim>\<open>if (auto res{...}; !res) log\<close>: the result is dropped.\<close>

definition io_ignore :: "('s, 'a) io \<Rightarrow> ('s, unit) io" where
  "io_ignore m = io_or_else (io_bind m (\<lambda>_. io_result (Inr ()))) (\<lambda>_. io_result (Inr ()))"

text \<open>
  \<^verbatim>\<open>utility::Deferred\<close>: the clean-up runs when the scope is left, whether the body returned a
  value, returned an error or threw.
\<close>

definition io_defer :: "('s, 'a) io \<Rightarrow> ('s \<Rightarrow> 's) \<Rightarrow> ('s, 'a) io" where
  "io_defer m cleanup s = (case m s of (r, s') \<Rightarrow> (r, cleanup s'))"

text \<open>A clean-up that talks to the outside; a clean-up that faults ends the program.\<close>

definition io_finally :: "('s, 'a) io \<Rightarrow> ('s, unit) io \<Rightarrow> ('s, 'a) io" where
  "io_finally m c s =
     (case m s of (r, s') \<Rightarrow> (case c s' of (Inl flt, s'') \<Rightarrow> (Inl flt, s'') | (Inr _, s'') \<Rightarrow> (r, s'')))"

text \<open>A call that may throw, and \<^verbatim>\<open>try { ... } catch (const std::exception& ex)\<close> around a computation.\<close>

definition io_throwing :: "string + 'a \<Rightarrow> ('s, 'a) io" where
  "io_throwing x s = (case x of Inl what \<Rightarrow> (Inl (Throw what), s) | Inr a \<Rightarrow> (Inr (Inr a), s))"

definition io_catch :: "string \<Rightarrow> ('s, 'a) io \<Rightarrow> ('s, 'a) io" where
  "io_catch prefix m s =
     (case m s of (Inl (Throw what), s') \<Rightarrow> (Inr (Inl (Error (prefix @ what))), s') | x \<Rightarrow> x)"

section \<open>Laws\<close>

lemma io_bind_result [simp]:
  "io_bind (io_result (Inr a)) f = f a" "io_bind (io_result (Inl e)) f = io_result (Inl e)"
  by (simp_all add: io_bind_def io_result_def fun_eq_iff)

lemma io_bind_fault [simp]: "io_bind (io_fault flt) f = io_fault flt"
  by (simp add: io_bind_def io_fault_def fun_eq_iff)

lemma io_or_else_result [simp]:
  "io_or_else (io_result (Inr a)) h = io_result (Inr a)" "io_or_else (io_result (Inl e)) h = h e"
  by (simp_all add: io_or_else_def io_result_def fun_eq_iff)

lemma io_bind_assoc: "io_bind (io_bind m f) g = io_bind m (\<lambda>a. io_bind (f a) g)"
  by (auto simp: io_bind_def fun_eq_iff split: prod.split sum.split)

lemma io_wrap_error_ok: "fst (io_wrap_error p m s) = Inr (Inr a) \<longleftrightarrow> fst (m s) = Inr (Inr a)"
  by (auto simp: io_wrap_error_def io_or_else_def io_result_def split: prod.split sum.split)

lemma io_wrap_error_state [simp]: "snd (io_wrap_error p m s) = snd (m s)"
  by (auto simp: io_wrap_error_def io_or_else_def io_result_def split: prod.split sum.split)

section \<open>Properties kept by a computation\<close>

text \<open>
  \<open>keeps P m\<close>: whatever way \<open>m\<close> is left, \<open>P\<close> holds after it if it held before.
\<close>

definition keeps :: "('s \<Rightarrow> bool) \<Rightarrow> ('s, 'a) io \<Rightarrow> bool" where
  "keeps P m \<longleftrightarrow> (\<forall>s. P s \<longrightarrow> P (snd (m s)))"

lemma keepsI: "(\<And>s. P s \<Longrightarrow> P (snd (m s))) \<Longrightarrow> keeps P m"
  by (simp add: keeps_def)

lemma keepsD: "keeps P m \<Longrightarrow> P s \<Longrightarrow> P (snd (m s))"
  by (simp add: keeps_def)

lemma keeps_run: "keeps P m \<Longrightarrow> m s = (r, s') \<Longrightarrow> P s \<Longrightarrow> P s'"
  using keepsD [of P m s] by simp

lemma keeps_result [simp, intro]: "keeps P (io_result r)"
  by (simp add: keeps_def io_result_def)

lemma keeps_fault [simp, intro]: "keeps P (io_fault f)"
  by (simp add: keeps_def io_fault_def)

lemma keeps_bind [intro]: "keeps P m \<Longrightarrow> (\<And>a. keeps P (f a)) \<Longrightarrow> keeps P (io_bind m f)"
  by (auto simp: keeps_def io_bind_def split: prod.split sum.split)

lemma keeps_or_else [intro]: "keeps P m \<Longrightarrow> (\<And>e. keeps P (h e)) \<Longrightarrow> keeps P (io_or_else m h)"
  by (auto simp: keeps_def io_or_else_def split: prod.split sum.split)

lemma keeps_wrap_error [intro]: "keeps P m \<Longrightarrow> keeps P (io_wrap_error p m)"
  by (simp add: keeps_def)

lemma keeps_ignore [intro]: "keeps P m \<Longrightarrow> keeps P (io_ignore m)"
  unfolding io_ignore_def by (intro keeps_or_else keeps_bind keeps_result)

lemma keeps_finally [intro]: "keeps P m \<Longrightarrow> keeps P c \<Longrightarrow> keeps P (io_finally m c)"
  by (auto simp: keeps_def io_finally_def split: prod.split sum.split)

lemma keeps_throwing [simp, intro]: "keeps P (io_throwing x)"
  by (simp add: keeps_def io_throwing_def split: sum.split)

lemma io_catch_state [simp]: "snd (io_catch p m s) = snd (m s)"
  by (auto simp: io_catch_def split: prod.split sum.split fault.split)

lemma keeps_catch [intro]: "keeps P m \<Longrightarrow> keeps P (io_catch p m)"
  by (simp add: keeps_def)

section \<open>Computations that do not throw\<close>

definition faultless :: "('s, 'a) io \<Rightarrow> bool" where
  "faultless m \<longleftrightarrow> (\<forall>s. \<exists>r. fst (m s) = Inr r)"

lemma faultless_result [simp, intro]: "faultless (io_result r)"
  by (simp add: faultless_def io_result_def)

lemma faultless_bind [intro]: "faultless m \<Longrightarrow> (\<And>a. faultless (f a)) \<Longrightarrow> faultless (io_bind m f)"
  unfolding faultless_def io_bind_def by (auto split: prod.split sum.split) (metis fst_conv sum.distinct(1))+

lemma faultless_finally [intro]: "faultless m \<Longrightarrow> faultless c \<Longrightarrow> faultless (io_finally m c)"
  unfolding faultless_def io_finally_def by (auto split: prod.split sum.split) (metis fst_conv sum.distinct(1))+

lemma ignore_value: "faultless m \<Longrightarrow> fst (io_ignore m s) = Inr (Inr ())"
  unfolding faultless_def io_ignore_def io_or_else_def io_bind_def io_result_def
  by (auto split: prod.split sum.split) (metis fst_conv sum.distinct(1))+

end
