(* ===== verification/Http.thy ===== *)
theory Http
  imports Algorithm Effects "HOL-Library.List_Lexorder" "HOL-Library.Char_ord"
begin

text \<open>
  \<^verbatim>\<open>modules/utility/src/http.cpp\<close> and \<^verbatim>\<open>http.hpp\<close>: joining of paths, the request with its
  middlewares and headers, and \<^verbatim>\<open>HttpClient::send\<close>. libcurl is a parameter: \<open>curl\<close> performs one
  transfer on the state of the outside. The lemmas show the request that is sent and, for each
  outcome of the transfer, what \<^verbatim>\<open>send\<close> returns.
\<close>

section \<open>Paths\<close>

definition starts_with_slash :: "string \<Rightarrow> bool" where
  "starts_with_slash s = (case s of [] \<Rightarrow> False | c # _ \<Rightarrow> c = CHR ''/'')"

definition ends_with_slash :: "string \<Rightarrow> bool" where
  "ends_with_slash s = (case rev s of [] \<Rightarrow> False | c # _ \<Rightarrow> c = CHR ''/'')"

definition http_path_join :: "string \<Rightarrow> string \<Rightarrow> string" where
  "http_path_join first second =
     (let first_delim = ends_with_slash first; second_delim = starts_with_slash second
      in if first_delim \<and> second_delim then first @ drop 1 second
         else if \<not> first_delim \<and> \<not> second_delim then first @ ''/'' @ second
         else first @ second)"

section \<open>Requests\<close>

datatype http_method = Get | Post | Del

text \<open>The headers are a \<^verbatim>\<open>std::map\<close>: sorted by name, and \<^verbatim>\<open>emplace\<close> keeps an entry that exists.\<close>

record http_request =
  req_method :: http_method
  req_path :: string
  req_payload :: "byte list"
  req_headers :: "(string \<times> string) list"

record http_response =
  resp_status :: int
  resp_body :: "byte list"

fun header_emplace :: "string \<Rightarrow> string \<Rightarrow> (string \<times> string) list \<Rightarrow> (string \<times> string) list" where
  "header_emplace k v [] = [(k, v)]"
| "header_emplace k v ((k', v') # rest) =
     (if k = k' then (k', v') # rest
      else if k < k' then (k, v) # (k', v') # rest
      else (k', v') # header_emplace k v rest)"

text \<open>A middleware changes the request and says whether the following ones run.\<close>

type_synonym middleware = "http_request \<Rightarrow> bool \<times> http_request"

record http_client =
  m_base_url :: string
  m_req_middlewares :: "middleware list"

definition http_client_new :: "string \<Rightarrow> http_client" where
  "http_client_new base_url = \<lparr>m_base_url = base_url, m_req_middlewares = []\<rparr>"

definition add_request_middleware :: "middleware \<Rightarrow> http_client \<Rightarrow> http_client" where
  "add_request_middleware mw c = c\<lparr>m_req_middlewares := m_req_middlewares c @ [mw]\<rparr>"

fun run_middlewares :: "middleware list \<Rightarrow> http_request \<Rightarrow> http_request" where
  "run_middlewares [] req = req"
| "run_middlewares (mw # mws) req = (case mw req of (go_on, req') \<Rightarrow> if \<not> go_on then req' else run_middlewares mws req')"

section \<open>Sending\<close>

text \<open>
  What libcurl is given, and how a transfer ends: no handle could be created, \<^verbatim>\<open>curl_easy_perform\<close>
  returned an error code, or a response arrived with its status and body. \<^verbatim>\<open>FAILONERROR\<close> is off, so
  every status is a response.
\<close>

record transfer =
  tr_url :: string
  tr_headers :: "string list"
  tr_method :: http_method
  tr_payload :: "byte list"

datatype curl_outcome = No_handle | Curl_error int | Completed int "byte list"

type_synonym 's curl = "transfer \<Rightarrow> 's \<Rightarrow> curl_outcome \<times> 's"

definition long_t :: int_type where
  "long_t = \<lparr>is_signed = True, bits = 64\<rparr>"

definition make_transfer :: "http_client \<Rightarrow> http_request \<Rightarrow> transfer" where
  "make_transfer c req =
     \<lparr>tr_url = http_path_join (m_base_url c) (req_path req),
      tr_headers = map (\<lambda>(k, v). k @ '': '' @ v) (req_headers req),
      tr_method = req_method req,
      tr_payload = (if req_method req = Post then req_payload req else [])\<rparr>"

definition curl_failure :: "string \<Rightarrow> int \<Rightarrow> error" where
  "curl_failure url curl_code =
     Error (''HTTP request to \"'' @ url @ ''\" failed (cURL error code: '' @ show_int curl_code @ '')'')"

definition http_send :: "'s curl \<Rightarrow> http_client \<Rightarrow> http_request \<Rightarrow> ('s, http_response) io" where
  "http_send curl c req0 s =
     (let req = run_middlewares (m_req_middlewares c) req0;
          url = http_path_join (m_base_url c) (req_path req)
      in case curl (make_transfer c req) s of
           (No_handle, s') \<Rightarrow> (Inr (Inl (curl_failure url 0)), s')
         | (Curl_error curl_code, s') \<Rightarrow> (Inr (Inl (curl_failure url curl_code)), s')
         | (Completed status_code body, s') \<Rightarrow>
             (let is_ok_already_deleted = (status_code = 404 \<and> req_method req = Del)
              in if status_code \<ge> 400 \<and> \<not> is_ok_already_deleted
                 then (Inr (Inl (Error (''HTTP request to \"'' @ url @ ''\" failed with status code '' @ show_int status_code))), s')
                 else (case safe_cast_int int_t long_t status_code of
                         Inl flt \<Rightarrow> (Inl flt, s')
                       | Inr status \<Rightarrow> (Inr (Inr \<lparr>resp_status = status, resp_body = body\<rparr>), s'))))"

definition http_post :: "'s curl \<Rightarrow> http_client \<Rightarrow> string \<Rightarrow> byte list \<Rightarrow> ('s, http_response) io" where
  "http_post curl c path payload =
     http_send curl c \<lparr>req_method = Post, req_path = path, req_payload = payload, req_headers = []\<rparr>"

definition http_del :: "'s curl \<Rightarrow> http_client \<Rightarrow> string \<Rightarrow> ('s, http_response) io" where
  "http_del curl c path =
     http_send curl c \<lparr>req_method = Del, req_path = path, req_payload = [], req_headers = []\<rparr>"

section \<open>Lemmas\<close>

lemma starts_with_slash_simps [simp]: "\<not> starts_with_slash []" "starts_with_slash (c # s) \<longleftrightarrow> c = CHR ''/''"
  by (simp_all add: starts_with_slash_def)

lemma ends_with_slash_simps [simp]: "\<not> ends_with_slash []" "ends_with_slash (s @ [c]) \<longleftrightarrow> c = CHR ''/''"
  by (simp_all add: ends_with_slash_def)

lemma ends_with_slash_append: "t \<noteq> [] \<Longrightarrow> ends_with_slash (s @ t) = ends_with_slash t"
  by (cases t rule: rev_cases) (simp_all add: ends_with_slash_def)

lemma header_emplace_keys: "fst ` set (header_emplace k v hs) = insert k (fst ` set hs)"
  by (induction k v hs rule: header_emplace.induct) auto

lemma header_emplace_sorted:
  "sorted_wrt (<) (map fst hs) \<Longrightarrow> sorted_wrt (<) (map fst (header_emplace k v hs))"
proof (induction k v hs rule: header_emplace.induct)
  case (2 k v k' v' rest)
  have "fst ` set (header_emplace k v rest) = insert k (fst ` set rest)"
    by (rule header_emplace_keys)
  with 2 show ?case
    by (auto simp: image_iff)
qed simp

lemma header_emplace_lookup:
  "sorted_wrt (<) (map fst hs) \<Longrightarrow>
    map_of (header_emplace k v hs) = (map_of hs)(k := Some (case map_of hs k of Some w \<Rightarrow> w | None \<Rightarrow> v))"
proof (induction k v hs rule: header_emplace.induct)
  case (2 k v k' v' rest)
  have "k < k' \<Longrightarrow> map_of rest k = None"
    using "2.prems" by (force simp: map_of_eq_None_iff)
  with 2 show ?case
    by (auto simp: fun_eq_iff)
qed (auto simp: fun_eq_iff)

lemma run_middlewares_one [simp]: "run_middlewares [mw] req = snd (mw req)"
  by (simp split: prod.split)

lemma keeps_http_send:
  "(\<And>t s. P s \<Longrightarrow> P (snd (curl t s))) \<Longrightarrow> keeps P (http_send curl c req)"
  by (auto simp: keeps_def http_send_def Let_def split: prod.split curl_outcome.split sum.split) (metis snd_conv)+

lemma status_cast:
  assumes "in_type long_t st"
  shows "safe_cast_int int_t long_t st =
    (if st < - (2 ^ 31) then Inl (Throw ''value < result min'')
     else if 2 ^ 31 \<le> st then Inl (Throw ''value > result max'') else Inr st)"
  using assms by (auto simp: safe_cast_int_def safe_cast_same_exact int_t_def long_t_def type_min_def type_max_def)

section \<open>Properties\<close>

text \<open>
  \<^verbatim>\<open>http_path_join\<close> puts exactly one slash at the joint, whichever of the two parts brings one,
  and changes nothing else.
\<close>

theorem http_path_join_one_slash:
  "http_path_join first second =
     (if ends_with_slash first then butlast first else first) @ ''/'' @
     (if starts_with_slash second then tl second else second)"
proof (cases first rule: rev_cases)
  case Nil
  then show ?thesis
    by (cases second) (auto simp: http_path_join_def)
next
  case (snoc s c)
  then show ?thesis
    by (cases second) (auto simp: http_path_join_def)
qed

text \<open>
  \<^verbatim>\<open>HttpClient::send\<close> performs one transfer, of the request as the middlewares left it, and
  returns the response exactly for a status below 400 (a non-negative \<^verbatim>\<open>int\<close>), or for 404 on
  \<^verbatim>\<open>DELETE\<close>, so that deleting twice succeeds; every other completed transfer gives an error that names
  the status, a failed one an error that names libcurl's code, and none throws.
\<close>

theorem http_send_outcomes:
  assumes "curl (make_transfer c (run_middlewares (m_req_middlewares c) req)) s = (outcome, s')"
    "case outcome of Completed st _ \<Rightarrow> 0 \<le> st \<and> in_type long_t st | _ \<Rightarrow> True"
  shows "snd (http_send curl c req s) = s' \<and>
    (case outcome of
       Completed st body \<Rightarrow>
         if st < 400 \<or> (st = 404 \<and> req_method (run_middlewares (m_req_middlewares c) req) = Del)
         then fst (http_send curl c req s) = Inr (Inr \<lparr>resp_status = st, resp_body = body\<rparr>)
         else \<exists>msg. fst (http_send curl c req s) = Inr (Inl (Error (msg @ show_int st)))
     | Curl_error code \<Rightarrow> \<exists>msg. fst (http_send curl c req s) = Inr (Inl (Error (msg @ show_int code @ '')'')))
     | No_handle \<Rightarrow> \<exists>msg. fst (http_send curl c req s) = Inr (Inl (Error msg)))"
proof (cases outcome)
  case (Completed st body)
  with assms have st: "0 \<le> st" "in_type long_t st"
    by auto
  show ?thesis
  proof (cases "st < 400 \<or> (st = 404 \<and> req_method (run_middlewares (m_req_middlewares c) req) = Del)")
    case True
    then have "safe_cast_int int_t long_t st = Inr st"
      using st by (auto simp: status_cast)
    with True Completed assms(1) show ?thesis
      by (auto simp: http_send_def Let_def)
  next
    case False
    with Completed assms(1) show ?thesis
      by (auto simp: http_send_def Let_def)
  qed
qed (use assms in \<open>auto simp: http_send_def curl_failure_def Let_def\<close>)

theorem http_send_outcomes_witness:
  "fst (http_send (\<lambda>t n. (Completed 404 [], n + 1)) (http_client_new ''http://h'')
     \<lparr>req_method = Del, req_path = ''/x'', req_payload = [], req_headers = []\<rparr> (0 :: nat)) =
   Inr (Inr \<lparr>resp_status = 404, resp_body = []\<rparr>)"
  using http_send_outcomes [of "\<lambda>t n. (Completed 404 [], n + 1)" "http_client_new ''http://h''"
      "\<lparr>req_method = Del, req_path = ''/x'', req_payload = [], req_headers = []\<rparr>" "0 :: nat" "Completed 404 []" 1]
  by (simp add: http_client_new_def in_type_def long_t_def type_min_def type_max_def)

end
