(* ===== verification/Gitea.thy ===== *)
theory Gitea
  imports Http Strings
begin

text \<open>
  \<^verbatim>\<open>modules/gitea\<close>: the client of the administration interface, the client of the runner
  service, and the runner with its registration. The messages have the fields the code sets or
  reads; the generated protobuf code and the JSON parser are parameters, collected with libcurl in
  the record \<open>forge\<close>. A shared pointer to a client is the client, \<open>None\<close> once moved from.
  The lemmas show which requests a connection makes, in which order and with which credentials, that
  a registered runner is removed once however often the object is moved, and which registrations
  are never removed.
\<close>

section \<open>Messages and the outside\<close>

record register_request =
  reg_name :: string
  reg_token :: string
  reg_version :: string
  reg_labels :: "string list"
  reg_ephemeral :: bool

record registered_runner =
  rr_id :: int
  rr_uuid :: string
  rr_token :: string

record declare_request =
  decl_version :: string
  decl_labels :: "string list"

datatype task_result = Result_failure

record update_task_request =
  upd_id :: int
  upd_result :: task_result

record 't proto_task =
  pt_id :: int
  pt_rest :: 't

text \<open>
  For each message: \<^verbatim>\<open>SerializeToArray\<close> into an array of \<^verbatim>\<open>ByteSizeLong\<close> bytes, which may fail,
  and \<^verbatim>\<open>ParseFromArray\<close>, which is given the size as an \<^verbatim>\<open>int\<close>.
\<close>

type_synonym 'm serialize = "'m \<Rightarrow> byte list option"
type_synonym 'm parse = "byte list \<Rightarrow> int \<Rightarrow> 'm option"

record ('s, 't) forge =
  curl :: "'s curl"
  json_token :: "byte list \<Rightarrow> string + string"
  ping_request :: "string serialize"
  ping_response :: "unit parse"
  register_request_codec :: "register_request serialize"
  register_response :: "registered_runner parse"
  declare_request_codec :: "declare_request serialize"
  declare_response :: "unit parse"
  fetch_task_request :: "unit serialize"
  fetch_task_response :: "'t proto_task option parse"
  update_task_request_codec :: "update_task_request serialize"
  update_task_response :: "unit parse"
  task_codec :: "'t proto_task serialize"

section \<open>Administration client\<close>

definition admin_middleware :: "string \<Rightarrow> middleware" where
  "admin_middleware token req =
     (let h0 = req_headers req;
          h1 = (if req_method req = Post then header_emplace ''Content-Type'' ''application/json'' h0 else h0);
          h2 = header_emplace ''Accept'' ''application/json'' h1;
          h3 = (if token \<noteq> [] then header_emplace ''Authorization'' (''token '' @ token) h2 else h2)
      in (True, req\<lparr>req_headers := h3\<rparr>))"

definition admin_service_client :: "string \<Rightarrow> string \<Rightarrow> http_client" where
  "admin_service_client instance_url token =
     add_request_middleware (admin_middleware token) (http_client_new (http_path_join instance_url ''/api/v1/admin''))"

definition get_registration_token :: "('s, 't) forge \<Rightarrow> http_client \<Rightarrow> ('s, string) io" where
  "get_registration_token fg admin =
     io_bind (http_post (curl fg) admin ''/actions/runners/registration-token'' [])
       (\<lambda>res. case json_token fg (resp_body res) of
                Inl what \<Rightarrow> io_result (Inl (Error (''Failed to parse registration token: '' @ what)))
              | Inr token \<Rightarrow> io_result (Inr token))"

definition remove_runner :: "('s, 't) forge \<Rightarrow> http_client \<Rightarrow> int \<Rightarrow> ('s, unit) io" where
  "remove_runner fg admin runner_id =
     io_bind (http_del (curl fg) admin (''/actions/runners/'' @ show_int (static_cast size_t runner_id)))
       (\<lambda>_. io_result (Inr ()))"

section \<open>Runner service client\<close>

definition encode_payload :: "'m serialize \<Rightarrow> 'm \<Rightarrow> byte list result" where
  "encode_payload ser msg =
     (case ser msg of None \<Rightarrow> Inl (Error ''Failed to encode gRPC message'') | Some data \<Rightarrow> Inr data)"

definition decode_payload :: "'m parse \<Rightarrow> byte list \<Rightarrow> 'm result" where
  "decode_payload par payload =
     (case par payload (static_cast int_t (int (length payload))) of
        None \<Rightarrow> Inl (Error ''Failed to decode gRPC message'') | Some msg \<Rightarrow> Inr msg)"

definition send_post_request ::
  "'s curl \<Rightarrow> http_client \<Rightarrow> string \<Rightarrow> 'q serialize \<Rightarrow> 'r parse \<Rightarrow> 'q \<Rightarrow> ('s, 'r) io" where
  "send_post_request cu client path ser par req =
     io_bind (io_result (encode_payload ser req))
       (\<lambda>payload. io_bind (http_post cu client path payload)
         (\<lambda>res. io_result (decode_payload par (resp_body res))))"

record runner_credentials =
  cred_uuid :: string
  cred_token :: string

record runner_service_client =
  m_instance_url :: string
  m_credentials :: runner_credentials

definition runner_middleware :: "runner_credentials \<Rightarrow> middleware" where
  "runner_middleware cred req =
     (let h0 = req_headers req;
          h1 = (if req_method req = Post then header_emplace ''Content-Type'' ''application/proto'' h0 else h0);
          h2 = header_emplace ''Accept'' ''application/proto'' h1;
          h3 = (if cred_uuid cred \<noteq> [] then header_emplace ''X-Runner-UUID'' (cred_uuid cred) h2 else h2);
          h4 = (if cred_token cred \<noteq> [] then header_emplace ''X-Runner-Token'' (cred_token cred) h3 else h3)
      in (True, req\<lparr>req_headers := h4\<rparr>))"

text \<open>The middleware reads the credentials when a request is sent.\<close>

definition service_http_client :: "runner_service_client \<Rightarrow> http_client" where
  "service_http_client c =
     add_request_middleware (runner_middleware (m_credentials c))
       (http_client_new (http_path_join (m_instance_url c) ''/api/actions''))"

definition runner_service_client_new :: "string \<Rightarrow> runner_service_client" where
  "runner_service_client_new instance_url =
     \<lparr>m_instance_url = instance_url, m_credentials = \<lparr>cred_uuid = [], cred_token = []\<rparr>\<rparr>"

definition set_credentials :: "runner_credentials \<Rightarrow> runner_service_client \<Rightarrow> runner_service_client" where
  "set_credentials cred c = c\<lparr>m_credentials := cred\<rparr>"

definition service_ping :: "('s, 't) forge \<Rightarrow> runner_service_client \<Rightarrow> string \<Rightarrow> ('s, unit) io" where
  "service_ping fg c =
     send_post_request (curl fg) (service_http_client c) ''/ping.v1.PingService/Ping'' (ping_request fg) (ping_response fg)"

definition service_register ::
  "('s, 't) forge \<Rightarrow> runner_service_client \<Rightarrow> register_request \<Rightarrow> ('s, registered_runner) io" where
  "service_register fg c =
     send_post_request (curl fg) (service_http_client c) ''/runner.v1.RunnerService/Register''
       (register_request_codec fg) (register_response fg)"

definition service_declare :: "('s, 't) forge \<Rightarrow> runner_service_client \<Rightarrow> declare_request \<Rightarrow> ('s, unit) io" where
  "service_declare fg c =
     send_post_request (curl fg) (service_http_client c) ''/runner.v1.RunnerService/Declare''
       (declare_request_codec fg) (declare_response fg)"

definition service_fetch_task :: "('s, 't) forge \<Rightarrow> runner_service_client \<Rightarrow> ('s, 't proto_task option) io" where
  "service_fetch_task fg c =
     send_post_request (curl fg) (service_http_client c) ''/runner.v1.RunnerService/FetchTask''
       (fetch_task_request fg) (fetch_task_response fg) ()"

definition service_update_task :: "('s, 't) forge \<Rightarrow> runner_service_client \<Rightarrow> update_task_request \<Rightarrow> ('s, unit) io" where
  "service_update_task fg c =
     send_post_request (curl fg) (service_http_client c) ''/runner.v1.RunnerService/UpdateTask''
       (update_task_request_codec fg) (update_task_response fg)"

text \<open>\<^verbatim>\<open>update_log\<close> has no caller; its messages stay parameters.\<close>

definition service_update_log :: "'s curl \<Rightarrow> runner_service_client \<Rightarrow> 'q serialize \<Rightarrow> 'r parse \<Rightarrow> 'q \<Rightarrow> ('s, 'r) io" where
  "service_update_log cu c ser par =
     send_post_request cu (service_http_client c) ''/runner.v1.RunnerService/UpdateLog'' ser par"

section \<open>Runner\<close>

record runner_options =
  opt_forge_uri :: string
  opt_name :: string
  opt_labels :: "string list"
  opt_version :: string

definition label_name :: "string \<Rightarrow> string" where
  "label_name label = (case find_first_of label (CHR '':'') 0 of Some pos \<Rightarrow> take pos label | None \<Rightarrow> label)"

definition get_label_names :: "runner_options \<Rightarrow> string list" where
  "get_label_names options = map label_name (opt_labels options)"

record task_parcel =
  parcel_id :: int
  parcel_data :: "byte list"

definition ping_internal :: "('s, 't) forge \<Rightarrow> runner_service_client \<Rightarrow> runner_options \<Rightarrow> ('s, unit) io" where
  "ping_internal fg c options = io_wrap_error ''Failed to send ping: '' (service_ping fg c (opt_name options))"

definition register_internal ::
  "('s, 't) forge \<Rightarrow> runner_service_client \<Rightarrow> runner_options \<Rightarrow> string \<Rightarrow> ('s, registered_runner) io" where
  "register_internal fg c options token =
     io_wrap_error ''Failed to register runner: ''
       (service_register fg c
          \<lparr>reg_name = opt_name options, reg_token = token, reg_version = opt_version options,
           reg_labels = get_label_names options, reg_ephemeral = True\<rparr>)"

definition declare_internal :: "('s, 't) forge \<Rightarrow> runner_service_client \<Rightarrow> runner_options \<Rightarrow> ('s, unit) io" where
  "declare_internal fg c options =
     io_wrap_error ''Failed to declare runner: ''
       (service_declare fg c \<lparr>decl_version = opt_version options, decl_labels = get_label_names options\<rparr>)"

definition fetch_task_internal :: "('s, 't) forge \<Rightarrow> runner_service_client \<Rightarrow> ('s, task_parcel option) io" where
  "fetch_task_internal fg c =
     io_bind (io_wrap_error ''Failed to fetch any new tasks: '' (service_fetch_task fg c))
       (\<lambda>task. case task of
                 None \<Rightarrow> io_result (Inr None)
               | Some t \<Rightarrow> io_bind (io_result (encode_payload (task_codec fg) t))
                            (\<lambda>data. io_result (Inr (Some \<lparr>parcel_id = pt_id t, parcel_data = data\<rparr>))))"

text \<open>The moved-from strings and vectors are unspecified in C++ and never read; they stay as they were.\<close>

record runner =
  m_moved :: bool
  m_id :: int
  m_labels :: "string list"
  m_forge_uri :: string
  runner_cred :: runner_credentials
  m_client :: "runner_service_client option"
  m_admin :: "http_client option"

definition runner_new ::
  "int \<Rightarrow> string list \<Rightarrow> string \<Rightarrow> runner_credentials \<Rightarrow> runner_service_client option \<Rightarrow> http_client option \<Rightarrow> runner" where
  "runner_new rid ls uri cred client admin =
     \<lparr>m_moved = False, m_id = rid, m_labels = ls, m_forge_uri = uri, runner_cred = cred, m_client = client, m_admin = admin\<rparr>"

definition runner_connect :: "('s, 't) forge \<Rightarrow> runner_options \<Rightarrow> http_client \<Rightarrow> ('s, runner) io" where
  "runner_connect fg options admin =
     io_bind (get_registration_token fg admin) (\<lambda>token.
       let client = runner_service_client_new (opt_forge_uri options)
       in io_bind (ping_internal fg client options) (\<lambda>_.
            io_bind (register_internal fg client options token) (\<lambda>reg.
              let credentials = \<lparr>cred_uuid = rr_uuid reg, cred_token = rr_token reg\<rparr>;
                  client' = set_credentials credentials client
              in io_bind (declare_internal fg client' options) (\<lambda>_.
                   io_result (Inr (runner_new (rr_id reg) (opt_labels options) (opt_forge_uri options) credentials
                     (Some client') (Some admin)))))))"

text \<open>A call through a null pointer is undefined.\<close>

definition runner_fetch_task :: "('s, 't) forge \<Rightarrow> runner \<Rightarrow> ('s, task_parcel option) io" where
  "runner_fetch_task fg r =
     (case m_client r of None \<Rightarrow> io_fault Undefined | Some c \<Rightarrow> fetch_task_internal fg c)"

definition set_task_failed :: "('s, 't) forge \<Rightarrow> runner \<Rightarrow> task_parcel \<Rightarrow> ('s, unit) io" where
  "set_task_failed fg r parcel =
     (case m_client r of
        None \<Rightarrow> io_fault Undefined
      | Some c \<Rightarrow> io_ignore (service_update_task fg c \<lparr>upd_id = parcel_id parcel, upd_result = Result_failure\<rparr>))"

definition runner_destroy :: "('s, 't) forge \<Rightarrow> runner \<Rightarrow> ('s, unit) io" where
  "runner_destroy fg r =
     (if \<not> m_moved r
      then (case m_admin r of None \<Rightarrow> io_fault Undefined | Some a \<Rightarrow> io_ignore (remove_runner fg a (m_id r)))
      else io_result (Inr ()))"

text \<open>Move construction and move assignment: the new state of the target and of the source.\<close>

definition runner_move :: "runner \<Rightarrow> runner \<times> runner" where
  "runner_move other =
     (runner_new (m_id other) (m_labels other) (m_forge_uri other) (runner_cred other) (m_client other) (m_admin other),
      other\<lparr>m_moved := True, m_client := None, m_admin := None\<rparr>)"

definition runner_move_assign :: "runner \<Rightarrow> runner \<Rightarrow> runner \<times> runner" where
  "runner_move_assign this other =
     (this\<lparr>m_id := m_id other, m_labels := m_labels other, m_forge_uri := m_forge_uri other,
           runner_cred := runner_cred other, m_client := m_client other, m_admin := m_admin other\<rparr>,
      other\<lparr>m_moved := True, m_client := None, m_admin := None\<rparr>)"

section \<open>Requests made\<close>

text \<open>A transport that records the transfers, and the request lines recorded.\<close>

definition logging :: "'w curl \<Rightarrow> (transfer list \<times> 'w) curl" where
  "logging cu t s = (case cu t (snd s) of (out, w) \<Rightarrow> (out, (fst s @ [t], w)))"

definition request_lines :: "transfer list \<times> 'w \<Rightarrow> (http_method \<times> string) list" where
  "request_lines s = map (\<lambda>t. (tr_method t, tr_url t)) (fst s)"

text \<open>
  \<open>emits m rs\<close>: \<open>m\<close> makes requests from the front of \<open>rs\<close>, in that order and each once, and all
  of them when it returns a value.
\<close>

definition emits :: "(transfer list \<times> 'w, 'a) io \<Rightarrow> (http_method \<times> string) list \<Rightarrow> bool" where
  "emits m rs \<longleftrightarrow> (\<forall>s. \<exists>k \<le> length rs. request_lines (snd (m s)) = request_lines s @ take k rs \<and>
     ((\<exists>a. fst (m s) = Inr (Inr a)) \<longrightarrow> k = length rs))"

lemma emits_result [intro]: "emits (io_result r) []"
  by (simp add: emits_def io_result_def)

lemma emits_bind [intro]:
  assumes m: "emits m rs" and f: "\<And>a. emits (f a) qs"
  shows "emits (io_bind m f) (rs @ qs)"
  unfolding emits_def
proof
  fix s
  obtain k where k: "k \<le> length rs" "request_lines (snd (m s)) = request_lines s @ take k rs"
    "(\<exists>a. fst (m s) = Inr (Inr a)) \<longrightarrow> k = length rs"
    using m [unfolded emits_def, rule_format, of s] by blast
  show "\<exists>k \<le> length (rs @ qs). request_lines (snd (io_bind m f s)) = request_lines s @ take k (rs @ qs) \<and>
     ((\<exists>b. fst (io_bind m f s) = Inr (Inr b)) \<longrightarrow> k = length (rs @ qs))"
  proof (cases "\<exists>a. fst (m s) = Inr (Inr a)")
    case True
    then obtain a where a: "fst (m s) = Inr (Inr a)"
      by blast
    obtain j where j: "j \<le> length qs" "request_lines (snd (f a (snd (m s)))) = request_lines (snd (m s)) @ take j qs"
      "(\<exists>b. fst (f a (snd (m s))) = Inr (Inr b)) \<longrightarrow> j = length qs"
      using f [of a, unfolded emits_def, rule_format, of "snd (m s)"] by blast
    have "io_bind m f s = f a (snd (m s))"
      using a by (cases "m s") (simp add: io_bind_def)
    with a k j show ?thesis
      by (intro exI [of _ "length rs + j"]) auto
  next
    case False
    then have "snd (io_bind m f s) = snd (m s)" "\<nexists>b. fst (io_bind m f s) = Inr (Inr b)"
      by (auto simp: io_bind_def split: prod.split sum.split)
    with k show ?thesis
      by (intro exI [of _ k]) auto
  qed
qed

lemma emits_wrap [intro]: "emits m rs \<Longrightarrow> emits (io_wrap_error p m) rs"
  by (simp add: emits_def io_wrap_error_ok)

definition line_of :: "http_client \<Rightarrow> http_method \<Rightarrow> string \<Rightarrow> http_method \<times> string" where
  "line_of c meth path = (meth, http_path_join (m_base_url c) path)"

text \<open>The middlewares of both clients change headers only.\<close>

definition headers_only :: "http_client \<Rightarrow> bool" where
  "headers_only c \<longleftrightarrow> (\<forall>mw \<in> set (m_req_middlewares c). \<forall>req.
     req_method (snd (mw req)) = req_method req \<and> req_path (snd (mw req)) = req_path req)"

lemma http_send_lines:
  assumes "headers_only c"
  shows "request_lines (snd (http_send (logging cu) c req s)) = request_lines s @ [line_of c (req_method req) (req_path req)]"
proof -
  have "req_method (run_middlewares mws req) = req_method req \<and> req_path (run_middlewares mws req) = req_path req"
    if "set mws \<subseteq> set (m_req_middlewares c)" for mws
    using that
  proof (induction mws arbitrary: req)
    case (Cons mw mws)
    obtain go_on req' where mw: "mw req = (go_on, req')"
      by fastforce
    with Cons.prems assms have "req_method req' = req_method req" "req_path req' = req_path req"
      unfolding headers_only_def by (auto dest!: bspec [of _ _ mw] spec [of _ req])
    with mw Cons show ?case
      by simp
  qed simp
  then have "req_method (run_middlewares (m_req_middlewares c) req) = req_method req \<and>
      req_path (run_middlewares (m_req_middlewares c) req) = req_path req"
    by simp
  then show ?thesis
    by (auto simp: http_send_def logging_def request_lines_def line_of_def make_transfer_def Let_def
        split: prod.split curl_outcome.split sum.split)
qed

lemma emits_http_send:
  "headers_only c \<Longrightarrow> emits (http_send (logging cu) c req) [line_of c (req_method req) (req_path req)]"
  by (auto simp: emits_def http_send_lines intro!: exI [of _ 1])

lemma headers_only_clients [simp]: "headers_only (admin_service_client url token)" "headers_only (service_http_client c)"
  by (auto simp: headers_only_def admin_service_client_def service_http_client_def add_request_middleware_def
      http_client_new_def admin_middleware_def runner_middleware_def Let_def)

lemma emits_http:
  assumes "headers_only c"
  shows "emits (http_post (logging cu) c path payload) [line_of c Post path]"
    and "emits (http_del (logging cu) c path) [line_of c Del path]"
  unfolding http_post_def http_del_def
  using emits_http_send [OF assms, of cu "\<lparr>req_method = Post, req_path = path, req_payload = payload, req_headers = []\<rparr>"]
    emits_http_send [OF assms, of cu "\<lparr>req_method = Del, req_path = path, req_payload = [], req_headers = []\<rparr>"]
  by simp_all

lemma emits_service:
  "emits (send_post_request (logging cu) (service_http_client c) path ser par req) [line_of (service_http_client c) Post path]"
proof -
  have "emits (send_post_request (logging cu) (service_http_client c) path ser par req)
      ([] @ [line_of (service_http_client c) Post path] @ [])"
    unfolding send_post_request_def by (intro emits_bind emits_result emits_http) simp
  then show ?thesis
    by simp
qed

text \<open>The request line does not depend on the credentials.\<close>

lemma line_of_service:
  "line_of (service_http_client c) Post path = (Post, http_path_join (http_path_join (m_instance_url c) ''/api/actions'') path)"
  by (simp add: line_of_def service_http_client_def add_request_middleware_def http_client_new_def)

lemma line_of_admin:
  "line_of (admin_service_client url token) meth path = (meth, http_path_join (http_path_join url ''/api/v1/admin'') path)"
  by (simp add: line_of_def admin_service_client_def add_request_middleware_def http_client_new_def)

definition connect_lines :: "string \<Rightarrow> string \<Rightarrow> (http_method \<times> string) list" where
  "connect_lines admin_url forge_uri =
     [(Post, http_path_join (http_path_join admin_url ''/api/v1/admin'') ''/actions/runners/registration-token''),
      (Post, http_path_join (http_path_join forge_uri ''/api/actions'') ''/ping.v1.PingService/Ping''),
      (Post, http_path_join (http_path_join forge_uri ''/api/actions'') ''/runner.v1.RunnerService/Register''),
      (Post, http_path_join (http_path_join forge_uri ''/api/actions'') ''/runner.v1.RunnerService/Declare'')]"

lemma emits_connect:
  assumes "curl fg = logging cu"
  shows "emits (runner_connect fg options (admin_service_client url token)) (connect_lines url (opt_forge_uri options))"
proof -
  let ?admin = "admin_service_client url token" and ?c = "runner_service_client_new (opt_forge_uri options)"
  have token: "emits (get_registration_token fg ?admin) ([line_of ?admin Post ''/actions/runners/registration-token''] @ [])"
    unfolding get_registration_token_def assms
    by (intro emits_bind emits_http headers_only_clients) (auto split: sum.split)
  have ping: "emits (ping_internal fg ?c options) [line_of (service_http_client ?c) Post ''/ping.v1.PingService/Ping'']"
    unfolding ping_internal_def service_ping_def assms by (intro emits_wrap emits_service)
  have register: "emits (register_internal fg ?c options t) [line_of (service_http_client ?c) Post ''/runner.v1.RunnerService/Register'']" for t
    unfolding register_internal_def service_register_def assms by (intro emits_wrap emits_service)
  have decl: "emits (declare_internal fg (set_credentials cred ?c) options)
      [(Post, http_path_join (http_path_join (opt_forge_uri options) ''/api/actions'') ''/runner.v1.RunnerService/Declare'')]" for cred
    unfolding declare_internal_def service_declare_def assms
    using emits_wrap [OF emits_service [of cu "set_credentials cred ?c" "''/runner.v1.RunnerService/Declare''"]]
    by (simp add: line_of_service set_credentials_def runner_service_client_new_def)
  have "emits (runner_connect fg options ?admin)
      (([line_of ?admin Post ''/actions/runners/registration-token''] @ []) @
       [line_of (service_http_client ?c) Post ''/ping.v1.PingService/Ping''] @
       [line_of (service_http_client ?c) Post ''/runner.v1.RunnerService/Register''] @
       [(Post, http_path_join (http_path_join (opt_forge_uri options) ''/api/actions'') ''/runner.v1.RunnerService/Declare'')] @ [])"
    unfolding runner_connect_def Let_def by (intro emits_bind token ping register decl emits_result)
  then show ?thesis
    by (simp add: connect_lines_def line_of_service line_of_admin runner_service_client_new_def)
qed

section \<open>Moves\<close>

text \<open>The objects left behind by a chain of moves, the last of which owns the registration.\<close>

fun move_chain :: "nat \<Rightarrow> runner \<Rightarrow> runner list" where
  "move_chain 0 r = [r]"
| "move_chain (Suc n) r = (case runner_move r of (target, source) \<Rightarrow> source # move_chain n target)"

fun destroy_all :: "('s, 't) forge \<Rightarrow> runner list \<Rightarrow> ('s, unit) io" where
  "destroy_all fg [] = io_result (Inr ())"
| "destroy_all fg (r # rs) = io_bind (runner_destroy fg r) (\<lambda>_. destroy_all fg rs)"

lemma destroy_moved [simp]: "m_moved r \<Longrightarrow> runner_destroy fg r = io_result (Inr ())"
  by (simp add: runner_destroy_def)

lemma destroy_move_chain:
  "\<not> m_moved r \<Longrightarrow> destroy_all fg (move_chain n r) = io_bind (runner_destroy fg r) (\<lambda>_. io_result (Inr ()))"
proof (induction n arbitrary: r)
  case (Suc n)
  then show ?case
    by (cases "m_admin r") (simp_all add: runner_move_def runner_new_def runner_destroy_def)
qed simp

lemma ignore_bind [simp]: "io_bind (io_ignore m) (\<lambda>_. io_result (Inr ())) = io_ignore m"
  by (auto simp: io_ignore_def io_bind_def io_or_else_def io_result_def fun_eq_iff split: prod.split sum.split)

lemma io_ignore_state [simp]: "snd (io_ignore m s) = snd (m s)"
  by (auto simp: io_ignore_def io_bind_def io_or_else_def io_result_def split: prod.split sum.split)

lemma io_bind_unit_state: "snd (io_bind m (\<lambda>_. io_result (Inr ())) s) = snd (m s)"
  by (auto simp: io_bind_def io_result_def split: prod.split sum.split)

lemma destroy_lines:
  assumes "curl fg = logging cu" "\<not> m_moved r" "m_admin r = Some (admin_service_client url token)"
  shows "request_lines (snd (runner_destroy fg r s)) =
    request_lines s @ [(Del, http_path_join (http_path_join url ''/api/v1/admin'')
      (''/actions/runners/'' @ show_int (static_cast size_t (m_id r))))]"
proof -
  have "snd (runner_destroy fg r s) = snd (http_del (logging cu) (admin_service_client url token)
      (''/actions/runners/'' @ show_int (static_cast size_t (m_id r))) s)"
    using assms by (simp add: runner_destroy_def remove_runner_def io_bind_unit_state del: append.simps)
  then show ?thesis
    by (simp only: http_del_def http_send_lines headers_only_clients http_request.simps line_of_admin)
qed

text \<open>A server that accepts everything and a runner registered with it.\<close>

definition demo_forge :: "(transfer list \<times> unit, unit) forge" where
  "demo_forge =
     \<lparr>curl = logging (\<lambda>t s. (Completed 200 [], s)), json_token = (\<lambda>_. Inr ''T''),
      ping_request = (\<lambda>_. Some []), ping_response = (\<lambda>_ _. Some ()),
      register_request_codec = (\<lambda>_. Some []), register_response = (\<lambda>_ _. Some \<lparr>rr_id = 7, rr_uuid = ''u'', rr_token = ''t''\<rparr>),
      declare_request_codec = (\<lambda>_. Some []), declare_response = (\<lambda>_ _. Some ()),
      fetch_task_request = (\<lambda>_. Some []), fetch_task_response = (\<lambda>_ _. Some None),
      update_task_request_codec = (\<lambda>_. Some []), update_task_response = (\<lambda>_ _. Some ()),
      task_codec = (\<lambda>_. Some [])\<rparr>"

definition demo_options :: runner_options where
  "demo_options = \<lparr>opt_forge_uri = ''http://f'', opt_name = ''n'', opt_labels = [''linux:host''], opt_version = ''1''\<rparr>"

definition demo_admin :: http_client where
  "demo_admin = admin_service_client ''http://f'' ''secret''"

lemma demo_http_send:
  "http_send (curl demo_forge) c req s =
     (Inr (Inr \<lparr>resp_status = 200, resp_body = []\<rparr>),
      (fst s @ [make_transfer c (run_middlewares (m_req_middlewares c) req)], ()))"
proof -
  have "in_type long_t 200"
    by (simp add: in_type_def long_t_def type_min_def type_max_def)
  then have "safe_cast_int int_t long_t 200 = Inr 200"
    by (simp add: status_cast)
  then show ?thesis
    by (simp add: http_send_def logging_def Let_def demo_forge_def)
qed

definition demo_runner :: runner where
  "demo_runner = runner_new 7 [''linux:host''] ''http://f'' \<lparr>cred_uuid = ''u'', cred_token = ''t''\<rparr>
     (Some \<lparr>m_instance_url = ''http://f'', m_credentials = \<lparr>cred_uuid = ''u'', cred_token = ''t''\<rparr>\<rparr>) (Some demo_admin)"

lemma demo_connect: "fst (runner_connect demo_forge demo_options demo_admin s) = Inr (Inr demo_runner)"
proof -
  have codecs: "json_token demo_forge b = Inr ''T''" "ping_request demo_forge q = Some []"
    "register_request_codec demo_forge q' = Some []" "declare_request_codec demo_forge q'' = Some []"
    "ping_response demo_forge b n = Some ()" "declare_response demo_forge b n = Some ()"
    "register_response demo_forge b n = Some \<lparr>rr_id = 7, rr_uuid = ''u'', rr_token = ''t''\<rparr>" for b q q' q'' n
    by (simp_all add: demo_forge_def)
  show ?thesis
    unfolding runner_connect_def Let_def get_registration_token_def ping_internal_def register_internal_def
      declare_internal_def service_ping_def service_register_def service_declare_def send_post_request_def http_post_def
      encode_payload_def decode_payload_def
    by (simp add: io_bind_def io_result_def io_wrap_error_def io_or_else_def demo_http_send codecs
        demo_runner_def demo_options_def runner_new_def set_credentials_def runner_service_client_new_def)
qed
section \<open>Properties\<close>

text \<open>
  C29. Connecting a runner makes at most four requests, always from the front of: registration token,
  ping, register, declare, each once and in this order, and all four when it succeeds. In particular
  no request removes the runner again, also when the declaration fails after the registration.
\<close>

theorem connect_request_order:
  assumes "curl fg = logging cu"
    "runner_connect fg options (admin_service_client url token) s = (r, s')"
  shows "\<exists>k \<le> 4. request_lines s' = request_lines s @ take k (connect_lines url (opt_forge_uri options)) \<and>
    (case r of Inr (Inr _) \<Rightarrow> k = 4 | _ \<Rightarrow> True)"
proof -
  obtain k where "k \<le> length (connect_lines url (opt_forge_uri options))"
    "request_lines s' = request_lines s @ take k (connect_lines url (opt_forge_uri options))"
    "\<And>a. r = Inr (Inr a) \<Longrightarrow> k = length (connect_lines url (opt_forge_uri options))"
    using emits_connect [OF assms(1), of options url token, unfolded emits_def, rule_format, of s] assms(2) by auto
  then show ?thesis
    by (intro exI [of _ k]) (auto simp: connect_lines_def split: sum.split)
qed

theorem connect_request_order_witness:
  "\<exists>k \<le> 4. request_lines (snd (runner_connect demo_forge demo_options demo_admin ([], ()))) =
     take k (connect_lines ''http://f'' ''http://f'') \<and> k = 4"
proof -
  obtain s' where run: "runner_connect demo_forge demo_options (admin_service_client ''http://f'' ''secret'') ([], ()) =
      (Inr (Inr demo_runner), s')"
    using demo_connect [of "([], ())"] unfolding demo_admin_def by (metis prod.collapse)
  have cu: "curl demo_forge = logging (\<lambda>t s. (Completed 200 [], s))" and uri: "opt_forge_uri demo_options = ''http://f''"
    by (simp_all add: demo_forge_def demo_options_def)
  have start: "request_lines ([] :: transfer list, ()) = []"
    by (simp add: request_lines_def)
  from connect_request_order [OF cu run] show ?thesis
    unfolding demo_admin_def run uri start by simp
qed

text \<open>
  A connected runner carries the identity the server returned: its identifier and credentials are those
  of the registration response, the later requests send those credentials, and it is not moved from.
\<close>

theorem connect_identity:
  assumes "runner_connect fg options admin s = (Inr (Inr r), s')"
  shows "\<exists>token s1 s2 reg. register_internal fg (runner_service_client_new (opt_forge_uri options)) options token s1 = (Inr (Inr reg), s2) \<and>
    r = \<lparr>m_moved = False, m_id = rr_id reg, m_labels = opt_labels options, m_forge_uri = opt_forge_uri options,
         runner_cred = \<lparr>cred_uuid = rr_uuid reg, cred_token = rr_token reg\<rparr>,
         m_client = Some \<lparr>m_instance_url = opt_forge_uri options,
                          m_credentials = \<lparr>cred_uuid = rr_uuid reg, cred_token = rr_token reg\<rparr>\<rparr>,
         m_admin = Some admin\<rparr>"
  using assms unfolding runner_connect_def Let_def
  by (auto simp: io_bind_def io_result_def runner_new_def set_credentials_def runner_service_client_new_def
      split: prod.splits sum.splits)

theorem connect_identity_witness:
  "\<exists>token s1 s2 reg. register_internal demo_forge (runner_service_client_new ''http://f'') demo_options token s1 = (Inr (Inr reg), s2) \<and>
    rr_id reg = 7"
  using connect_identity [of demo_forge demo_options demo_admin "([], ())" demo_runner
      "snd (runner_connect demo_forge demo_options demo_admin ([], ()))"]
  by (simp add: prod_eq_iff demo_connect) (simp add: demo_runner_def runner_new_def demo_options_def, blast)

text \<open>
  C23. However often a runner is moved, destroying all the objects it went through removes its
  registration exactly once. Move assignment does not: the registration the target held before is
  never removed, only the one of the source.
\<close>

theorem runner_removed_once:
  assumes "curl fg = logging cu" "\<not> m_moved r" "m_admin r = Some (admin_service_client url token)"
    "\<not> m_moved target"
  shows "request_lines (snd (destroy_all fg (move_chain n r) s)) =
      request_lines s @ [(Del, http_path_join (http_path_join url ''/api/v1/admin'')
        (''/actions/runners/'' @ show_int (static_cast size_t (m_id r))))] \<and>
    request_lines (snd (case runner_move_assign target r of (t, src) \<Rightarrow> destroy_all fg [t, src] s)) =
      request_lines s @ [(Del, http_path_join (http_path_join url ''/api/v1/admin'')
        (''/actions/runners/'' @ show_int (static_cast size_t (m_id r))))]"
proof -
  let ?t = "target\<lparr>m_id := m_id r, m_labels := m_labels r, m_forge_uri := m_forge_uri r,
           runner_cred := runner_cred r, m_client := m_client r, m_admin := m_admin r\<rparr>"
  have "(case runner_move_assign target r of (t, src) \<Rightarrow> destroy_all fg [t, src]) =
      io_bind (runner_destroy fg ?t) (\<lambda>_. io_result (Inr ()))"
    by (simp add: runner_move_assign_def)
  moreover have "request_lines (snd (runner_destroy fg ?t s)) = request_lines s @ [(Del, http_path_join (http_path_join url ''/api/v1/admin'')
        (''/actions/runners/'' @ show_int (static_cast size_t (m_id r))))]"
    using destroy_lines [of fg cu ?t url token s] assms by simp
  ultimately show ?thesis
    using destroy_lines [OF assms(1-3)] assms(2)
    by (simp add: destroy_move_chain io_bind_unit_state split_beta)
qed

theorem runner_removed_once_witness:
  "request_lines (snd (destroy_all demo_forge (move_chain 2 demo_runner) ([], ()))) =
     [(Del, http_path_join (http_path_join ''http://f'' ''/api/v1/admin'')
        (''/actions/runners/'' @ show_int (static_cast size_t 7)))]"
proof -
  have "curl demo_forge = logging (\<lambda>t s. (Completed 200 [], s))" "\<not> m_moved demo_runner" "m_id demo_runner = 7"
    "m_admin demo_runner = Some (admin_service_client ''http://f'' ''secret'')"
    by (simp_all add: demo_forge_def demo_runner_def runner_new_def demo_admin_def)
  with runner_removed_once [of demo_forge "\<lambda>t s. (Completed 200 [], s)" demo_runner "''http://f''" "''secret''" demo_runner 2 "([], ())"]
  show ?thesis
    by (simp only: request_lines_def [of "([], ())"] fst_conv list.map append_Nil simp_thms)
qed

end
