(* ===== verification/Config.thy ===== *)
theory Config
  imports Algorithm Strings
begin

text \<open>
  \<^verbatim>\<open>modules/app/src/config.cpp\<close> and \<^verbatim>\<open>config.hpp\<close>: loading of the configuration file, with
  \<^verbatim>\<open>virt/src/arch.cpp\<close>, the log levels of \<^verbatim>\<open>log/level.hpp\<close>, \<^verbatim>\<open>utility::getenv\<close> and
  \<^verbatim>\<open>fs::read_file\<close> as it uses them. yaml-cpp is a parameter: a record of its operations on an
  abstract type of nodes, each of which may throw. The host gives the environment and the files.
  The lemmas show what a loaded configuration satisfies, how the token is resolved, and what the
  names of architectures are turned into.
\<close>

section \<open>Architectures and log levels\<close>

datatype arch = Amd64 | Arm64

definition amd64_names :: "string list" where
  "amd64_names = [''amd64'', ''x64'', ''x86_64'', ''x86-64'']"

definition arm64_names :: "string list" where
  "arm64_names = [''arm64'', ''aarch64'']"

definition arch_from_name :: "string \<Rightarrow> arch result" where
  "arch_from_name name =
     (if list_ex (\<lambda>s. string_compare_ci name s = 0) amd64_names then Inr Amd64
      else if list_ex (\<lambda>s. string_compare_ci name s = 0) arm64_names then Inr Amd64
      else Inl (Error (''Unsupported arch: '' @ name)))"

definition arch_to_name :: "arch \<Rightarrow> string" where
  "arch_to_name a = (case a of Amd64 \<Rightarrow> ''amd64;'' | Arm64 \<Rightarrow> ''arm64;'')"

datatype log_level = Log_none | Log_error | Log_warning | Log_info | Log_debug

definition get_log_level_name :: "log_level \<Rightarrow> string" where
  "get_log_level_name l =
     (case l of Log_none \<Rightarrow> ''NONE'' | Log_error \<Rightarrow> ''ERROR'' | Log_warning \<Rightarrow> ''WARN''
      | Log_info \<Rightarrow> ''INFO'' | Log_debug \<Rightarrow> ''DEBUG'')"

section \<open>Host and YAML\<close>

text \<open>
  The environment, the readable files, and the text of the exception that reading another one
  throws. Paths are POSIX paths: absolute when they start with a slash.
\<close>

record host =
  environment :: "string \<Rightarrow> string option"
  readable_file :: "string \<Rightarrow> string option"
  file_error :: "string \<Rightarrow> string"

definition getenv :: "host \<Rightarrow> string \<Rightarrow> string option" where
  "getenv h name = environment h name"

definition read_file :: "host \<Rightarrow> string \<Rightarrow> fault + string" where
  "read_file h path = (case readable_file h path of Some content \<Rightarrow> Inr content | None \<Rightarrow> Inl (Throw (file_error h path)))"

definition is_relative :: "string \<Rightarrow> bool" where
  "is_relative p = (case p of [] \<Rightarrow> True | c # _ \<Rightarrow> c \<noteq> CHR ''/'')"

text \<open>\<^verbatim>\<open>std::filesystem::path::operator/\<close>.\<close>

definition path_append :: "string \<Rightarrow> string \<Rightarrow> string" where
  "path_append base p =
     (if \<not> is_relative p then p
      else if base = [] \<or> last base = CHR ''/'' then base @ p
      else base @ ''/'' @ p)"

text \<open>
  Operations of yaml-cpp: \<^verbatim>\<open>node[key]\<close>, \<^verbatim>\<open>as<std::string>\<close>, \<^verbatim>\<open>as<int>\<close>, \<^verbatim>\<open>size()\<close>, the elements an iteration
  visits, the emitter, and \<^verbatim>\<open>YAML::Load\<close>. \<open>Inl\<close> is the text of the exception thrown.
\<close>

record 'n yaml =
  node_at :: "'n \<Rightarrow> string \<Rightarrow> string + 'n"
  node_string :: "'n \<Rightarrow> string + string"
  node_int :: "'n \<Rightarrow> string + int"
  node_size :: "'n \<Rightarrow> string + nat"
  node_elements :: "'n \<Rightarrow> 'n list"
  node_emit :: "'n \<Rightarrow> string"
  load_stream :: "string \<Rightarrow> string + 'n"

definition throwing :: "string + 'a \<Rightarrow> fault + 'a" where
  "throwing r = (case r of Inl what \<Rightarrow> Inl (Throw what) | Inr a \<Rightarrow> Inr a)"

text \<open>\<^verbatim>\<open>if (!r) throw std::move(r).error()\<close>.\<close>

definition throw_error :: "'a result \<Rightarrow> fault + 'a" where
  "throw_error r = (case r of Inl e \<Rightarrow> Inl (Throw (what_of e)) | Inr a \<Rightarrow> Inr a)"

definition child :: "'n yaml \<Rightarrow> 'n \<Rightarrow> string \<Rightarrow> fault + 'n" where
  "child y n key = throwing (node_at y n key)"

definition child_string :: "'n yaml \<Rightarrow> 'n \<Rightarrow> string \<Rightarrow> fault + string" where
  "child_string y n key = and_then (child y n key) (\<lambda>c. throwing (node_string y c))"

definition child_int :: "'n yaml \<Rightarrow> 'n \<Rightarrow> string \<Rightarrow> fault + int" where
  "child_int y n key = and_then (child y n key) (\<lambda>c. throwing (node_int y c))"

definition child_size :: "'n yaml \<Rightarrow> 'n \<Rightarrow> string \<Rightarrow> fault + nat" where
  "child_size y n key = transform (and_then (child_int y n key) (safe_cast_int size_t int_t)) nat"

text \<open>A loop over the elements that stops at the first exception.\<close>

fun for_each :: "('n \<Rightarrow> fault + 'a) \<Rightarrow> 'n list \<Rightarrow> fault + 'a list" where
  "for_each f [] = Inr []"
| "for_each f (n # ns) = and_then (f n) (\<lambda>a. transform (for_each f ns) (\<lambda>as. a # as))"

section \<open>Configuration\<close>

record template_config =
  tc_os :: string
  tc_arch :: arch
  tc_temp_dir :: string
  tc_idle_target :: nat
  tc_max_concurrency :: nat
  tc_runner_exe_path :: string
  tc_labels :: "string list"
  tc_raw_details :: string

record token_config =
  tok_source :: string
  tok_value :: string
  resolved_token :: string

record forge_config =
  fc_type :: string
  fc_uri :: string
  fc_token :: token_config

record backend_config =
  bc_type :: string
  bc_name :: string
  bc_templates :: "template_config list"
  bc_raw_details :: string

record main_config =
  mc_base_dir :: string
  config_version :: nat
  mc_log_level :: log_level
  mc_name :: string
  mc_forge :: forge_config
  mc_backends :: "backend_config list"

definition load_forge_token :: "'n yaml \<Rightarrow> 'n \<Rightarrow> fault + token_config" where
  "load_forge_token y from =
     and_then (child_string y from ''source'') (\<lambda>source.
     and_then (child_string y from ''value'') (\<lambda>val.
       Inr \<lparr>tok_source = source, tok_value = val, resolved_token = []\<rparr>))"

definition load_forge :: "'n yaml \<Rightarrow> 'n \<Rightarrow> fault + forge_config" where
  "load_forge y from =
     and_then (child_string y from ''type'') (\<lambda>type.
     and_then (child_string y from ''uri'') (\<lambda>uri.
     and_then (child y from ''token'') (\<lambda>token_node.
     and_then (load_forge_token y token_node) (\<lambda>token.
       Inr \<lparr>fc_type = type, fc_uri = uri, fc_token = token\<rparr>))))"

definition load_template :: "'n yaml \<Rightarrow> 'n \<Rightarrow> fault + template_config" where
  "load_template y from =
     and_then (child_string y from ''arch'') (\<lambda>arch_name.
     and_then (throw_error (arch_from_name arch_name)) (\<lambda>arch.
     and_then (child_string y from ''os'') (\<lambda>os.
     and_then (child_string y from ''temp_dir'') (\<lambda>temp_dir.
     and_then (child_size y from ''idle_target'') (\<lambda>idle_target.
     and_then (child_size y from ''max_concurrency'') (\<lambda>max_concurrency.
     and_then (child_string y from ''runner_exe_path'') (\<lambda>exe.
     and_then (child y from ''labels'') (\<lambda>runner_labels.
     and_then (throwing (node_size y runner_labels)) (\<lambda>_.
     and_then (for_each (\<lambda>l. throwing (node_string y l)) (node_elements y runner_labels)) (\<lambda>labels.
     and_then (child y from ''details'') (\<lambda>details.
       Inr \<lparr>tc_os = os, tc_arch = arch, tc_temp_dir = temp_dir, tc_idle_target = idle_target,
            tc_max_concurrency = max_concurrency, tc_runner_exe_path = exe, tc_labels = labels,
            tc_raw_details = node_emit y details\<rparr>)))))))))))"

definition load_backend :: "'n yaml \<Rightarrow> 'n \<Rightarrow> fault + backend_config" where
  "load_backend y from =
     and_then (child_string y from ''type'') (\<lambda>type.
     and_then (child_string y from ''name'') (\<lambda>name.
     and_then (child y from ''details'') (\<lambda>details.
     and_then (child y from ''templates'') (\<lambda>templates_node.
     and_then (for_each (load_template y) (node_elements y templates_node)) (\<lambda>templates.
       Inr \<lparr>bc_type = type, bc_name = name, bc_templates = templates, bc_raw_details = node_emit y details\<rparr>)))))"

definition load_log_level :: "'n yaml \<Rightarrow> 'n \<Rightarrow> fault + log_level" where
  "load_log_level y from =
     and_then (throwing (node_string y from)) (\<lambda>level_name.
       if string_compare_ci level_name ''none'' = 0 then Inr Log_none
       else if string_compare_ci level_name ''error'' = 0 then Inr Log_error
       else if string_compare_ci level_name ''warn'' = 0 then Inr Log_warning
       else if string_compare_ci level_name ''info'' = 0 then Inr Log_info
       else if string_compare_ci level_name ''debug'' = 0 then Inr Log_debug
       else Inl (Throw (''Invalid log level: '' @ level_name)))"

definition load_log :: "'n yaml \<Rightarrow> 'n \<Rightarrow> fault + log_level" where
  "load_log y from = and_then (child y from ''level'') (load_log_level y)"

section \<open>Tokens\<close>

definition token_resolve :: "host \<Rightarrow> string \<Rightarrow> token_config \<Rightarrow> fault + token_config" where
  "token_resolve h base_dir t =
     (if tok_source t = ''inline'' then Inr (t\<lparr>resolved_token := tok_value t\<rparr>)
      else if tok_source t = ''env''
      then Inr (t\<lparr>resolved_token := (case getenv h (tok_value t) of Some v \<Rightarrow> v | None \<Rightarrow> [])\<rparr>)
      else if tok_source t = ''file''
      then (let file_path = (if is_relative (u8string_from_string (tok_value t))
                             then path_append base_dir (u8string_from_string (tok_value t))
                             else u8string_from_string (tok_value t))
            in transform (read_file h file_path) (\<lambda>raw_content.
                 let trimmed_content = string_trim raw_content white_space
                 in t\<lparr>resolved_token := (if length raw_content > length trimmed_content then trimmed_content else raw_content)\<rparr>))
      else Inl (Throw (''Invalid token source: '' @ tok_source t)))"

definition forge_resolve :: "host \<Rightarrow> string \<Rightarrow> forge_config \<Rightarrow> fault + forge_config" where
  "forge_resolve h base_dir f = transform (token_resolve h base_dir (fc_token f)) (\<lambda>t. f\<lparr>fc_token := t\<rparr>)"

definition main_resolve :: "host \<Rightarrow> string \<Rightarrow> main_config \<Rightarrow> fault + main_config" where
  "main_resolve h base_dir c =
     transform (forge_resolve h base_dir (mc_forge c)) (\<lambda>f. c\<lparr>mc_base_dir := base_dir, mc_forge := f\<rparr>)"

section \<open>Loading the file\<close>

text \<open>
  A stream that cannot be opened is empty to \<^verbatim>\<open>YAML::Load\<close>. \<open>base_dir\<close> is the file's
  \<^verbatim>\<open>parent_path()\<close>.
\<close>

definition load_yaml_file :: "host \<Rightarrow> 'n yaml \<Rightarrow> string \<Rightarrow> 'n result" where
  "load_yaml_file h y file_path =
     (case load_stream y (case readable_file h file_path of Some content \<Rightarrow> content | None \<Rightarrow> []) of
        Inl _ \<Rightarrow> Inl (Error ''Failed to parse workflow YAML'')
      | Inr node \<Rightarrow> Inr node)"

definition load_main :: "host \<Rightarrow> 'n yaml \<Rightarrow> string \<Rightarrow> 'n \<Rightarrow> fault + main_config" where
  "load_main h y base_dir n =
     and_then (child_size y n ''config_version'') (\<lambda>version.
     and_then (child y n ''log'') (\<lambda>log_node.
     and_then (load_log y log_node) (\<lambda>level.
     and_then (child_string y n ''name'') (\<lambda>name.
     and_then (child y n ''forge'') (\<lambda>forge_node.
     and_then (load_forge y forge_node) (\<lambda>forge.
     and_then (child y n ''backends'') (\<lambda>backends_node.
     and_then (for_each (load_backend y) (node_elements y backends_node)) (\<lambda>backends.
       main_resolve h base_dir
         \<lparr>mc_base_dir = [], config_version = version, mc_log_level = level, mc_name = name,
          mc_forge = forge, mc_backends = backends\<rparr>))))))))"

text \<open>Only exceptions derived from \<^verbatim>\<open>std::exception\<close> are caught.\<close>

definition load_file :: "host \<Rightarrow> 'n yaml \<Rightarrow> string \<Rightarrow> string \<Rightarrow> fault + main_config result" where
  "load_file h y base_dir file_path =
     (case load_yaml_file h y file_path of
        Inl e \<Rightarrow> Inr (Inl e)
      | Inr n \<Rightarrow>
          (case load_main h y base_dir n of
             Inr c \<Rightarrow> Inr (Inr c)
           | Inl (Throw what) \<Rightarrow>
               Inr (Inl (Error (''Error while loading config file \"'' @ string_from_u8string file_path @ ''\": '' @ what)))
           | Inl flt \<Rightarrow> Inl flt))"

text \<open>\<^verbatim>\<open>count_max_concurrency\<close> of \<^verbatim>\<open>core.cpp\<close> adds the numbers of templates.\<close>

definition count_max_concurrency :: "main_config \<Rightarrow> nat" where
  "count_max_concurrency c = fold (\<lambda>b n. size_add n (length (bc_templates b))) (mc_backends c) 0"

definition template_label_names :: "template_config \<Rightarrow> string list" where
  "template_label_names t =
     map (\<lambda>label. case find_first_of label (CHR '':'') 0 of Some pos \<Rightarrow> take pos label | None \<Rightarrow> label) (tc_labels t)"

section \<open>Exceptions\<close>

definition throws_only :: "fault + 'a \<Rightarrow> bool" where
  "throws_only r = (case r of Inl (Throw _) \<Rightarrow> True | Inl _ \<Rightarrow> False | Inr _ \<Rightarrow> True)"

lemma throws_only_simps [simp]: "throws_only (Inr a)" "throws_only (Inl (Throw w))"
  by (simp_all add: throws_only_def)

lemma throws_only_and_then [intro]: "throws_only r \<Longrightarrow> (\<And>a. throws_only (f a)) \<Longrightarrow> throws_only (and_then r f)"
  by (cases r) (simp_all add: throws_only_def)

lemma throws_only_transform [intro]: "throws_only r \<Longrightarrow> throws_only (transform r f)"
  by (cases r) (simp_all add: throws_only_def)

lemma throws_only_throwing [simp]: "throws_only (throwing r)"
  by (cases r) (simp_all add: throwing_def)

lemma throws_only_throw_error [simp]: "throws_only (throw_error r)"
  by (cases r) (simp_all add: throw_error_def)

lemma throw_error_Inr_iff [simp]: "throw_error r = Inr a \<longleftrightarrow> r = Inr a"
  by (cases r) (simp_all add: throw_error_def)

lemma throws_only_for_each [intro]: "(\<And>n. throws_only (f n)) \<Longrightarrow> throws_only (for_each f ns)"
  by (induction ns) (auto intro!: throws_only_and_then throws_only_transform)

lemma throws_only_safe_cast: "throws_only (safe_cast_int size_t int_t i)"
  by (simp add: safe_cast_int_def safe_cast_to_unsigned_def size_t_def int_t_def Let_def)

lemma throws_only_children [simp]:
  "throws_only (child y n k)" "throws_only (child_string y n k)" "throws_only (child_int y n k)" "throws_only (child_size y n k)"
  by (auto simp: child_def child_string_def child_int_def child_size_def intro!: throws_only_and_then throws_only_transform throws_only_safe_cast)

lemma throws_only_load [simp]:
  "throws_only (load_forge_token y n)" "throws_only (load_forge y n)" "throws_only (load_template y n)"
  "throws_only (load_backend y n)" "throws_only (load_log_level y n)" "throws_only (load_log y n)"
proof -
  show tok: "throws_only (load_forge_token y n)" for n
    by (auto simp: load_forge_token_def intro!: throws_only_and_then)
  show "throws_only (load_forge y n)"
    by (auto simp: load_forge_def tok intro!: throws_only_and_then)
  show tmpl: "throws_only (load_template y n)" for n
    unfolding load_template_def by (intro throws_only_and_then throws_only_for_each) simp_all
  show "throws_only (load_backend y n)"
    by (auto simp: load_backend_def tmpl intro!: throws_only_and_then throws_only_for_each)
  show lvl: "throws_only (load_log_level y n)" for n
    by (auto simp: load_log_level_def intro!: throws_only_and_then)
  show "throws_only (load_log y n)"
    by (auto simp: load_log_def lvl intro!: throws_only_and_then)
qed

lemma throws_only_resolve [simp]: "throws_only (main_resolve h b c)"
  by (auto simp: main_resolve_def forge_resolve_def token_resolve_def read_file_def Let_def
      intro!: throws_only_transform split: option.split)

lemma throws_only_load_main: "throws_only (load_main h y b n)"
  unfolding load_main_def by (intro throws_only_and_then throws_only_for_each) simp_all

section \<open>Loaded values\<close>

lemma for_each_all: "for_each f ns = Inr xs \<Longrightarrow> x \<in> set xs \<Longrightarrow> \<exists>n. f n = Inr x"
  by (induction ns arbitrary: xs) (auto simp: and_then_eq_Inr_iff transform_eq_Inr_iff)

text \<open>\<^verbatim>\<open>as<int>\<close> gives a value of type \<^verbatim>\<open>int\<close>.\<close>

definition ints_fit :: "'n yaml \<Rightarrow> bool" where
  "ints_fit y \<longleftrightarrow> (\<forall>n i. node_int y n = Inr i \<longrightarrow> in_type int_t i)"

lemma child_size_bound:
  assumes "ints_fit y" "child_size y n k = Inr v"
  shows "v < 2 ^ 31"
proof -
  obtain i j where i: "child_int y n k = Inr i" "safe_cast_int size_t int_t i = Inr j" "v = nat j"
    using assms(2) by (auto simp: child_size_def and_then_eq_Inr_iff transform_eq_Inr_iff)
  obtain c where "throwing (node_int y c) = Inr i"
    using i(1) by (auto simp: child_int_def and_then_eq_Inr_iff)
  then have "in_type int_t i"
    using assms(1) by (auto simp: throwing_def ints_fit_def split: sum.splits)
  moreover from this have "j = i"
    using i(2) safe_cast_int_Inr_iff [of size_t int_t i j] by (simp add: size_t_def int_t_def)
  ultimately show ?thesis
    using i(3) by (auto simp: in_type_def int_t_def type_max_def nat_less_iff)
qed

definition template_ok :: "template_config \<Rightarrow> bool" where
  "template_ok t \<longleftrightarrow> tc_arch t = Amd64 \<and> tc_idle_target t < 2 ^ 31 \<and> tc_max_concurrency t < 2 ^ 31"

lemma arch_from_name_amd64: "arch_from_name name = Inr a \<Longrightarrow> a = Amd64"
  by (auto simp: arch_from_name_def split: if_splits)

lemma load_template_ok:
  assumes "ints_fit y" "load_template y n = Inr t"
  shows "template_ok t"
proof -
  have "\<exists>name. arch_from_name name = Inr (tc_arch t)" "child_size y n ''idle_target'' = Inr (tc_idle_target t)"
    "child_size y n ''max_concurrency'' = Inr (tc_max_concurrency t)"
    using assms(2) by (auto simp: load_template_def and_then_eq_Inr_iff)
  then show ?thesis
    using child_size_bound [OF assms(1)] arch_from_name_amd64 by (auto simp: template_ok_def)
qed

lemma load_backend_ok:
  assumes "ints_fit y" "load_backend y n = Inr b" "t \<in> set (bc_templates b)"
  shows "template_ok t"
proof -
  obtain ns where "for_each (load_template y) ns = Inr (bc_templates b)"
    using assms(2) by (auto simp: load_backend_def and_then_eq_Inr_iff)
  then show ?thesis
    using for_each_all [OF _ assms(3)] load_template_ok [OF assms(1)] by blast
qed

lemma load_main_parts:
  assumes "load_main h y b n = Inr c"
  obtains ns c0 where "for_each (load_backend y) ns = Inr (mc_backends c)" "main_resolve h b c0 = Inr c"
    "\<exists>n. child_size y n ''config_version'' = Inr (config_version c)"
proof -
  obtain ns bs c0 k where "for_each (load_backend y) ns = Inr bs" "main_resolve h b c0 = Inr c" "mc_backends c0 = bs"
      "child_size y n ''config_version'' = Inr k" "config_version c0 = k"
    using assms by (force simp: load_main_def and_then_eq_Inr_iff)
  moreover from this have "mc_backends c = mc_backends c0" "config_version c = config_version c0"
    by (auto simp: main_resolve_def transform_eq_Inr_iff)
  ultimately show thesis
    using that [of ns c0] by auto
qed

section \<open>Properties\<close>

text \<open>
  C30. Loading a configuration never lets an exception out, and a configuration it returns has, in each
  template, counts that fit an \<^verbatim>\<open>int\<close> and are therefore valid sizes for the machine pool, and always the
  architecture amd64; its token is the resolution of the one in the file, against the directory of the file.
\<close>

theorem config_load_sound:
  assumes "ints_fit y"
  shows "case load_file h y base_dir file_path of
      Inl _ \<Rightarrow> False
    | Inr (Inl _) \<Rightarrow> True
    | Inr (Inr c) \<Rightarrow>
        list_all (\<lambda>b. list_all template_ok (bc_templates b)) (mc_backends c) \<and> config_version c < 2 ^ 31 \<and>
        mc_base_dir c = base_dir \<and>
        (\<exists>t. token_resolve h base_dir t = Inr (fc_token (mc_forge c)))"
proof (cases "load_yaml_file h y file_path")
  case (Inl e)
  then show ?thesis
    by (simp add: load_file_def)
next
  case (Inr n)
  show ?thesis
  proof (cases "load_main h y base_dir n")
    case (Inl flt)
    then show ?thesis
      using throws_only_load_main [of h y base_dir n] Inr
      by (cases flt) (auto simp: load_file_def throws_only_def)
  next
    fix c assume c: "load_main h y base_dir n = Inr c"
    obtain ns c0 where parts: "for_each (load_backend y) ns = Inr (mc_backends c)" "main_resolve h base_dir c0 = Inr c"
      "\<exists>n. child_size y n ''config_version'' = Inr (config_version c)"
      using load_main_parts [OF c] by blast
    have "template_ok t" if "b \<in> set (mc_backends c)" "t \<in> set (bc_templates b)" for b t
      using for_each_all [OF parts(1) that(1)] load_backend_ok [OF assms _ that(2)] by blast
    moreover have "config_version c < 2 ^ 31"
      using parts(3) child_size_bound [OF assms] by blast
    moreover have "mc_base_dir c = base_dir" "\<exists>t. token_resolve h base_dir t = Inr (fc_token (mc_forge c))"
      using parts(2) by (auto simp: main_resolve_def forge_resolve_def transform_eq_Inr_iff)
    ultimately show ?thesis
      using c Inr by (auto simp: load_file_def list_all_iff)
  qed
qed

text \<open>A document of one template, as a tree of strings.\<close>

datatype doc = Scalar string | Sequence "doc list" | Table "(string \<times> doc) list"

definition doc_yaml :: "doc \<Rightarrow> doc yaml" where
  "doc_yaml root =
     \<lparr>node_at = (\<lambda>n k. case n of Table kvs \<Rightarrow> (case map_of kvs k of Some d \<Rightarrow> Inr d | None \<Rightarrow> Inl ''no key'') | _ \<Rightarrow> Inl ''no table''),
      node_string = (\<lambda>n. case n of Scalar s \<Rightarrow> Inr s | _ \<Rightarrow> Inl ''no scalar''),
      node_int = (\<lambda>n. case n of Scalar s \<Rightarrow> if length s < 100 then Inr (int (length s)) else Inl ''range'' | _ \<Rightarrow> Inl ''no number''),
      node_size = (\<lambda>n. case n of Sequence ds \<Rightarrow> Inr (length ds) | Table kvs \<Rightarrow> Inr (length kvs) | _ \<Rightarrow> Inr 0),
      node_elements = (\<lambda>n. case n of Sequence ds \<Rightarrow> ds | _ \<Rightarrow> []),
      node_emit = (\<lambda>_. []), load_stream = (\<lambda>_. Inr root)\<rparr>"

lemma doc_ints_fit: "ints_fit (doc_yaml root)"
  by (auto simp: ints_fit_def doc_yaml_def in_type_def int_t_def type_min_def type_max_def split: doc.splits if_splits)

definition demo_doc :: doc where
  "demo_doc = Table
     [(''config_version'', Scalar ''1''), (''log'', Table [(''level'', Scalar ''Info'')]), (''name'', Scalar ''n''),
      (''forge'', Table [(''type'', Scalar ''gitea''), (''uri'', Scalar ''http://f''),
                         (''token'', Table [(''source'', Scalar ''inline''), (''value'', Scalar ''s'')])]),
      (''backends'', Sequence [Table [(''type'', Scalar ''libvirt''), (''name'', Scalar ''b''), (''details'', Scalar []),
         (''templates'', Sequence [Table
            [(''arch'', Scalar ''ARM64''), (''os'', Scalar ''linux''), (''temp_dir'', Scalar ''/tmp''), (''idle_target'', Scalar ''1''),
             (''max_concurrency'', Scalar ''11''), (''runner_exe_path'', Scalar ''/r''), (''labels'', Sequence [Scalar ''a:b'']),
             (''details'', Scalar [])]])]])]"

definition demo_host :: host where
  "demo_host = \<lparr>environment = (\<lambda>_. None), readable_file = (\<lambda>_. Some ''text''), file_error = (\<lambda>_. [])\<rparr>"

lemma demo_load:
  "map (\<lambda>b. map tc_arch (bc_templates b)) (case load_file demo_host (doc_yaml demo_doc) ''/etc'' ''/etc/c.yml'' of Inr (Inr c) \<Rightarrow> mc_backends c | _ \<Rightarrow> []) = [[Amd64]]"
  by code_simp

theorem config_load_sound_witness:
  "case load_file demo_host (doc_yaml demo_doc) ''/etc'' ''/etc/c.yml'' of
      Inr (Inr c) \<Rightarrow> list_all (\<lambda>b. list_all template_ok (bc_templates b)) (mc_backends c) | _ \<Rightarrow> False"
  using config_load_sound [OF doc_ints_fit [of demo_doc], where h = demo_host and base_dir = "''/etc''" and file_path = "''/etc/c.yml''"] demo_load
  by (auto split: sum.splits)

lemma length_strip_eq:
  assumes "length (strip s chars) = length s"
  shows "strip s chars = s"
proof -
  have le: "length (strip s chars) \<le> length (strip_right s chars)" "length (strip_right s chars) \<le> length s"
    using length_dropWhile_le [of "\<lambda>c. c \<in> chars" "rev s"]
      length_dropWhile_le [of "\<lambda>c. c \<in> chars" "strip_right s chars"]
    by (simp_all add: strip_def strip_right_def)
  have right: "strip_right s chars = s"
  proof -
    have "length (dropWhile (\<lambda>c. c \<in> chars) (rev s)) = length (rev s)"
      using le assms by (simp add: strip_right_def)
    then have "dropWhile (\<lambda>c. c \<in> chars) (rev s) = rev s"
      by (metis append_eq_append_conv append_Nil takeWhile_dropWhile_id)
    then show ?thesis
      by (simp add: strip_right_def)
  qed
  have "length (dropWhile (\<lambda>c. c \<in> chars) s) = length s"
    using assms right by (simp add: strip_def)
  then show ?thesis
    using right unfolding strip_def by (metis append_eq_append_conv append_Nil takeWhile_dropWhile_id)
qed

text \<open>
  A token from a file is the content of the file, found relative to the directory of the
  configuration unless its path is absolute, without the white space at its two ends; but a file of
  only white space gives its content unchanged. The check on the lengths never matters.
\<close>

theorem token_from_file:
  assumes "tok_source t = ''file''"
    "readable_file h (if is_relative (tok_value t) then path_append base_dir (tok_value t) else tok_value t) = Some content"
  shows "token_resolve h base_dir t =
    Inr (t\<lparr>resolved_token := (if set content \<subseteq> white_space then content else strip content white_space)\<rparr>)"
proof -
  have "(if length content > length (string_trim content white_space) then string_trim content white_space else content) =
      (if set content \<subseteq> white_space then content else strip content white_space)"
  proof (cases "set content \<subseteq> white_space \<or> length content > length (strip content white_space)")
    case False
    moreover have "length (strip content white_space) \<le> length content"
      by (simp add: strip_def strip_right_def) (metis le_trans length_dropWhile_le length_rev)
    ultimately have "strip content white_space = content"
      by (intro length_strip_eq) auto
    with False show ?thesis
      by (simp add: string_trim_eq)
  qed (auto simp: string_trim_eq)
  note trimmed = this
  have "read_file h (if is_relative (tok_value t) then path_append base_dir (tok_value t) else tok_value t) = Inr content"
    using assms(2) by (simp only: read_file_def option.case)
  then show ?thesis
    using assms(1) by (simp add: token_resolve_def u8string_from_string_def Let_def trimmed cong: if_cong)
qed

theorem token_from_file_witness:
  "token_resolve demo_host ''/etc'' \<lparr>tok_source = ''file'', tok_value = ''t'', resolved_token = []\<rparr> =
     Inr \<lparr>tok_source = ''file'', tok_value = ''t'', resolved_token = ''text''\<rparr>"
  using token_from_file [of "\<lparr>tok_source = ''file'', tok_value = ''t'', resolved_token = []\<rparr>" demo_host "''/etc''" "''text''"]
  by (simp add: demo_host_def white_space_def strip_def strip_right_def)

text \<open>
  \<^verbatim>\<open>Arch::from_name\<close> accepts exactly the six names, in any case, and maps all of them to amd64, the
  names of arm64 too; \<^verbatim>\<open>Arch::to_name\<close> gives no name that \<^verbatim>\<open>from_name\<close> accepts.
\<close>

theorem arch_names:
  "arch_from_name name =
     (if list_ex (string_equals_ci name) (amd64_names @ arm64_names) then Inr Amd64
      else Inl (Error (''Unsupported arch: '' @ name))) \<and>
   arch_from_name (arch_to_name a) = Inl (Error (''Unsupported arch: '' @ arch_to_name a))"
proof
  have "(string_compare_ci name s = 0) = string_equals_ci name s" for s
    using compare_ci_sign by blast
  then show "arch_from_name name =
     (if list_ex (string_equals_ci name) (amd64_names @ arm64_names) then Inr Amd64
      else Inl (Error (''Unsupported arch: '' @ name)))"
    by (auto simp: arch_from_name_def list_ex_iff)
  have "arch_from_name (arch_to_name Amd64) = Inl (Error (''Unsupported arch: '' @ arch_to_name Amd64))"
    "arch_from_name (arch_to_name Arm64) = Inl (Error (''Unsupported arch: '' @ arch_to_name Arm64))"
    by code_simp+
  then show "arch_from_name (arch_to_name a) = Inl (Error (''Unsupported arch: '' @ arch_to_name a))"
    by (cases a) simp_all
qed

end
