(* ===== verification/Core.thy ===== *)
theory Core
  imports Config Gitea Interfaces
begin

text \<open>
  \<^verbatim>\<open>modules/app/src/core.cpp\<close>, \<^verbatim>\<open>commands.cpp\<close>, \<^verbatim>\<open>virt/src/machine.cpp\<close> and \<^verbatim>\<open>factory.cpp\<close>:
  spawning of a machine, waiting for its network, the files injected into it, and the loop that
  acquires a machine, registers a runner, fetches a task and runs it. The interfaces the code calls
  (a machine, a backend, the machine pool, the shutdown signal, the clock, URL and JSON libraries)
  are the fields of \<open>app\<close>, functions on the state of the world; logging has no effect here. Local
  objects with destructors (\<^verbatim>\<open>utility::Deferred\<close>, the runner, the machine) are clean-ups that run
  when their scope is left, in reverse order of construction.
\<close>

section \<open>Machines\<close>

record machine_info =
  mi_os :: string
  mi_arch :: arch
  mi_temp_dir :: string

record spawn_result =
  exit_code :: int
  spawn_output :: string

text \<open>\<^verbatim>\<open>string_replace\<close> always returns for the pattern \<^verbatim>\<open>"/"\<close>.\<close>

definition make_temp_path :: "machine_info \<Rightarrow> string \<Rightarrow> string" where
  "make_temp_path mi sub_path =
     (let delimiter = (if string_compare_ci (mi_os mi) ''windows'' = 0 then [CHR 0x5C] else ''/'')
      in case string_replace (string_from_u8string (path_append (mi_temp_dir mi) (u8string_from_string sub_path))) ''/'' delimiter of
           Some result \<Rightarrow> result
         | None \<Rightarrow> [])"

section \<open>The world\<close>

text \<open>
  \<open>stop_signalled\<close> reads the shutdown signal, \<open>now\<close> the steady clock, in seconds. The machine
  pool's operations are those of \<^verbatim>\<open>MachinePool\<close>; \<open>acquire\<close> is given its time-out in seconds, and the
  pointer it returns may be null as far as this code can tell.
\<close>

record ('w, 'm, 't) app =
  forge_api :: "('w, 't) forge"
  stop_signalled :: "'w \<Rightarrow> bool \<times> 'w"
  now :: "'w \<Rightarrow> int \<times> 'w"
  sleep_for :: "int \<Rightarrow> 'w \<Rightarrow> 'w"
  get_id :: "'m \<Rightarrow> string"
  info :: "'m \<Rightarrow> machine_info"
  shell_exec :: "'m \<Rightarrow> string list \<Rightarrow> int option \<Rightarrow> ('w, spawn_result) io"
  wait_for_guest_agent :: "'m \<Rightarrow> int \<Rightarrow> ('w, unit) io"
  write_file :: "'m \<Rightarrow> string \<Rightarrow> byte list \<Rightarrow> ('w, unit) io"
  destroy_machine :: "'m \<Rightarrow> 'w \<Rightarrow> 'w"
  create_libvirt_backend :: "('w, unit) io"
  backend_spawn :: "machine_info \<Rightarrow> string \<Rightarrow> string \<Rightarrow> string \<Rightarrow> ('w, 'm) io"
  uri_host :: "string \<Rightarrow> string option"
  state_json :: "int \<Rightarrow> string \<Rightarrow> string \<Rightarrow> string \<Rightarrow> string list \<Rightarrow> string"
  version :: string
  acquire :: "int \<Rightarrow> 'w \<Rightarrow> 'm option result \<times> 'w"
  pool_activate :: "'m \<Rightarrow> 'w \<Rightarrow> 'w"
  pool_deactivate :: "'m \<Rightarrow> 'w \<Rightarrow> 'w"
  pool_release :: "'m \<Rightarrow> 'w \<Rightarrow> 'w"

text \<open>\<^verbatim>\<open>if (stop.is_signalled()) return std::unexpected{Error{...}}\<close>, and the rest otherwise.\<close>

definition unless_stopped :: "('w, 'm, 't) app \<Rightarrow> ('w, 'a) io \<Rightarrow> ('w, 'a) io \<Rightarrow> ('w, 'a) io" where
  "unless_stopped A stopped rest s = (case stop_signalled A s of (sig, s') \<Rightarrow> if sig then stopped s' else rest s')"

section \<open>Files for the runner\<close>

record injectables =
  runner_state_json :: string
  runner_config_yaml :: string
  encoded_task :: "byte list"

definition injectables_generate :: "('w, 'm, 't) app \<Rightarrow> 'm \<Rightarrow> task_parcel \<Rightarrow> runner \<Rightarrow> injectables result" where
  "injectables_generate A machine task r =
     Inr \<lparr>runner_state_json = state_json A (m_id r) (cred_uuid (runner_cred r)) (cred_token (runner_cred r)) (m_forge_uri r) (m_labels r),
          runner_config_yaml = ''runner:'' @ [CHR 0x0A] @ ''  file: '' @ make_temp_path (info A machine) ''.runner'' @ [CHR 0x0A],
          encoded_task = parcel_data task\<rparr>"

definition inject_runner_files :: "('w, 'm, 't) app \<Rightarrow> 'm \<Rightarrow> injectables \<Rightarrow> ('w, unit) io" where
  "inject_runner_files A machine files =
     io_bind (write_file A machine (make_temp_path (info A machine) ''runner_config.yml'') (string_bytes (runner_config_yaml files)))
       (\<lambda>_. io_bind (write_file A machine (make_temp_path (info A machine) ''.runner'') (string_bytes (runner_state_json files)))
         (\<lambda>_. write_file A machine (make_temp_path (info A machine) ''runner_task'') (encoded_task files)))"

section \<open>Waiting for the network\<close>

definition make_ping_command :: "string \<Rightarrow> string \<Rightarrow> string list result" where
  "make_ping_command target_os host_name =
     (if string_compare_ci target_os ''linux'' = 0 then Inr [''ping'', ''-c'', ''1'', ''-W'', ''2'', host_name]
      else if string_compare_ci target_os ''macos'' = 0 then Inr [''ping'', ''-c'', ''1'', ''-W'', ''2000'', host_name]
      else if string_compare_ci target_os ''windows'' = 0 then Inr [''ping'', ''-n'', ''1'', ''-w'', ''2'', host_name]
      else Inl (Error (''Ping command not implemented for target OS '' @ target_os)))"

text \<open>
  The loop, with fuel: \<open>None\<close> means that it has not ended within \<open>fuel\<close> turns. Its condition compares
  the start time minus the current time with the time-out.
\<close>

fun ping_loop ::
  "('w, 'm, 't) app \<Rightarrow> 'm \<Rightarrow> string \<Rightarrow> string list \<Rightarrow> int \<Rightarrow> int \<Rightarrow> string \<Rightarrow> nat \<Rightarrow> 'w \<Rightarrow> ((fault + unit result) \<times> 'w) option" where
  "ping_loop A machine host_name cmd timeout start_time out 0 s = None"
| "ping_loop A machine host_name cmd timeout start_time out (Suc fuel) s =
     (case now A s of (t, s1) \<Rightarrow>
        if start_time - t < timeout
        then (case stop_signalled A s1 of (sig, s2) \<Rightarrow>
                if sig then Some (Inr (Inl (Error ''Shutting down'')), s2)
                else (case shell_exec A machine cmd (Some (if timeout < 10 then timeout else 10)) s2 of
                        (Inl flt, s3) \<Rightarrow> Some (Inl flt, s3)
                      | (Inr (Inl e), s3) \<Rightarrow>
                          Some (Inr (Inl (Error (''Failed to execute ping command for host '' @ host_name @ '' in machine '' @
                                 get_id A machine @ '': '' @ what_of e))), s3)
                      | (Inr (Inr res), s3) \<Rightarrow>
                          if exit_code res = 0 then Some (Inr (Inr ()), s3)
                          else ping_loop A machine host_name cmd timeout start_time (spawn_output res) fuel (sleep_for A 2 s3)))
        else Some (Inr (Inl (Error (''Ping timeout for host '' @ host_name @ '' in machine '' @ get_id A machine @
                    '', with output: '' @ out))), s1))"

text \<open>Reading the host of a URL that did not parse is undefined.\<close>

definition wait_until_gitea_instance_available ::
  "('w, 'm, 't) app \<Rightarrow> 'm \<Rightarrow> string \<Rightarrow> int \<Rightarrow> nat \<Rightarrow> 'w \<Rightarrow> ((fault + unit result) \<times> 'w) option" where
  "wait_until_gitea_instance_available A machine instance_url timeout fuel s =
     (case uri_host A instance_url of
        None \<Rightarrow> Some (Inl Undefined, s)
      | Some host_name \<Rightarrow>
          (case make_ping_command (mi_os (info A machine)) host_name of
             Inl e \<Rightarrow> Some (Inr (Inl e), s)
           | Inr cmd \<Rightarrow>
               (case now A s of (start_time, s1) \<Rightarrow> ping_loop A machine host_name cmd timeout start_time [] fuel s1)))"

section \<open>Spawning a machine\<close>

definition create_backend :: "('w, 'm, 't) app \<Rightarrow> string \<Rightarrow> ('w, unit) io" where
  "create_backend A name =
     (if name = ''libvirt'' then create_libvirt_backend A
      else io_result (Inl (Error (''Unknown backend: '' @ name))))"

text \<open>
  The machine is owned by a \<^verbatim>\<open>std::unique_ptr\<close> of the function: it is destroyed when the function
  ends without returning it. The waiting loop may not end, so neither may the function.
\<close>

definition spawn_machine ::
  "('w, 'm, 't) app \<Rightarrow> main_config \<Rightarrow> backend_config \<Rightarrow> template_config \<Rightarrow> nat \<Rightarrow> 'w \<Rightarrow> ((fault + 'm result) \<times> 'w) option" where
  "spawn_machine A mc bc tc fuel s =
     (case io_bind (create_backend A (bc_type bc))
             (\<lambda>_. backend_spawn A \<lparr>mi_os = tc_os tc, mi_arch = tc_arch tc, mi_temp_dir = tc_temp_dir tc\<rparr>
                    (bc_raw_details bc) (tc_raw_details tc) (mc_base_dir mc)) s of
        (Inl flt, s1) \<Rightarrow> Some (Inl flt, s1)
      | (Inr (Inl e), s1) \<Rightarrow> Some (Inr (Inl e), s1)
      | (Inr (Inr machine), s1) \<Rightarrow>
          (case wait_for_guest_agent A machine 120 s1 of
             (Inl flt, s2) \<Rightarrow> Some (Inl flt, destroy_machine A machine s2)
           | (Inr (Inl e), s2) \<Rightarrow> Some (Inr (Inl e), destroy_machine A machine s2)
           | (Inr (Inr _), s2) \<Rightarrow>
               (case wait_until_gitea_instance_available A machine (fc_uri (mc_forge mc)) 120 fuel s2 of
                  None \<Rightarrow> None
                | Some (Inl flt, s3) \<Rightarrow> Some (Inl flt, destroy_machine A machine s3)
                | Some (Inr (Inl e), s3) \<Rightarrow>
                    Some (Inr (Inl (Error (''Error while waiting for machine '' @ get_id A machine @ '' network: '' @ what_of e))),
                          destroy_machine A machine s3)
                | Some (Inr (Inr _), s3) \<Rightarrow> Some (Inr (Inr machine), s3))))"

section \<open>Running a task\<close>

definition execute_task_in_machine ::
  "('w, 'm, 't) app \<Rightarrow> task_parcel \<Rightarrow> runner \<Rightarrow> template_config \<Rightarrow> 'm \<Rightarrow> ('w, unit) io" where
  "execute_task_in_machine A task r tc machine =
     io_bind (io_result (injectables_generate A machine task r))
       (\<lambda>files. io_bind (inject_runner_files A machine files)
         (\<lambda>_. io_bind
                (shell_exec A machine
                   [tc_runner_exe_path tc, ''run-task'', ''--config'', make_temp_path (info A machine) ''runner_config.yml'',
                    ''--task'', make_temp_path (info A machine) ''runner_task'']
                   (Some 10800))
                (\<lambda>res. if exit_code res \<noteq> 0 then io_result (Inl (Error ''Treating non-zero exit code as an error''))
                       else io_result (Inr ()))))"

section \<open>The runner loop\<close>

definition create_runner :: "('w, 'm, 't) app \<Rightarrow> main_config \<Rightarrow> template_config \<Rightarrow> http_client \<Rightarrow> 'm \<Rightarrow> ('w, runner) io" where
  "create_runner A mc tc admin machine =
     runner_connect (forge_api A)
       \<lparr>opt_forge_uri = fc_uri (mc_forge mc), opt_name = mc_name mc @ ''-'' @ get_id A machine,
        opt_labels = tc_labels tc, opt_version = version A\<rparr> admin"

text \<open>
  \<^verbatim>\<open>fetch_task\<close>: the loop runs while the signal is not set and no task has been found. After it
  the signal is read again, also when a task was found.
\<close>

definition fetch_task_end :: "('w, 'm, 't) app \<Rightarrow> task_parcel option \<Rightarrow> ('w, task_parcel) io" where
  "fetch_task_end A task =
     unless_stopped A (io_result (Inl (Error ''Fetch task loop is shutting down'')))
       (case task of Some t \<Rightarrow> io_result (Inr t) | None \<Rightarrow> io_fault Undefined)"

fun fetch_task_loop :: "('w, 'm, 't) app \<Rightarrow> runner \<Rightarrow> nat \<Rightarrow> 'w \<Rightarrow> ((fault + task_parcel result) \<times> 'w) option" where
  "fetch_task_loop A r 0 s = None"
| "fetch_task_loop A r (Suc fuel) s =
     (case stop_signalled A s of (sig, s1) \<Rightarrow>
        if sig then Some (fetch_task_end A None s1)
        else (case runner_fetch_task (forge_api A) r s1 of
                (Inl flt, s2) \<Rightarrow> Some (Inl flt, s2)
              | (Inr (Inl e), s2) \<Rightarrow> Some (Inr (Inl e), s2)
              | (Inr (Inr None), s2) \<Rightarrow>
                  (case stop_signalled A s2 of (sig', s3) \<Rightarrow>
                     fetch_task_loop A r fuel (if sig' then s3 else sleep_for A 1 s3))
              | (Inr (Inr (Some task)), s2) \<Rightarrow>
                  (case stop_signalled A s2 of (_, s3) \<Rightarrow> Some (fetch_task_end A (Some task) s3))))"

text \<open>
  The rest of an iteration, from the inside out. The task is run between activation and deactivation;
  an error of the execution is reported to the forge and swallowed.
\<close>

definition run_task :: "('w, 'm, 't) app \<Rightarrow> template_config \<Rightarrow> runner \<Rightarrow> task_parcel \<Rightarrow> 'm \<Rightarrow> ('w, unit) io" where
  "run_task A tc r task machine s =
     (case io_or_else (execute_task_in_machine A task r tc machine) (\<lambda>_. set_task_failed (forge_api A) r task)
             (pool_activate A machine s) of
        (res, s') \<Rightarrow> (res, pool_deactivate A machine s'))"

definition with_task :: "('w, 'm, 't) app \<Rightarrow> template_config \<Rightarrow> runner \<Rightarrow> task_parcel \<Rightarrow> 'm \<Rightarrow> ('w, unit) io" where
  "with_task A tc r task machine =
     unless_stopped A
       (io_bind (set_task_failed (forge_api A) r task) (\<lambda>_. io_result (Inl (Error ''Runner loop shutting down''))))
       (run_task A tc r task machine)"

definition with_runner ::
  "('w, 'm, 't) app \<Rightarrow> template_config \<Rightarrow> runner \<Rightarrow> 'm \<Rightarrow> nat \<Rightarrow> 'w \<Rightarrow> ((fault + unit result) \<times> 'w) option" where
  "with_runner A tc r machine fuel s =
     (case stop_signalled A s of (sig, s1) \<Rightarrow>
        if sig then Some (Inr (Inl (Error ''Runner loop shutting down'')), s1)
        else (case fetch_task_loop A r fuel s1 of
                None \<Rightarrow> None
              | Some (Inl flt, s2) \<Rightarrow> Some (Inl flt, s2)
              | Some (Inr (Inl e), s2) \<Rightarrow> Some (Inr (Inl e), s2)
              | Some (Inr (Inr task), s2) \<Rightarrow> Some (with_task A tc r task machine s2)))"

text \<open>The runner is destroyed, and so unregistered, when \<^verbatim>\<open>runner_loop_iteration\<close> is left.\<close>

definition destroy_runner_after :: "('w, 'm, 't) app \<Rightarrow> runner \<Rightarrow> (fault + unit result) \<times> 'w \<Rightarrow> (fault + unit result) \<times> 'w" where
  "destroy_runner_after A r x = io_finally (\<lambda>_. x) (runner_destroy (forge_api A) r) (snd x)"

definition with_machine ::
  "('w, 'm, 't) app \<Rightarrow> main_config \<Rightarrow> template_config \<Rightarrow> http_client \<Rightarrow> 'm \<Rightarrow> nat \<Rightarrow> 'w \<Rightarrow> ((fault + unit result) \<times> 'w) option" where
  "with_machine A mc tc admin machine fuel s =
     (case stop_signalled A s of (sig, s1) \<Rightarrow>
        if sig then Some (Inr (Inl (Error ''Runner loop shutting down'')), s1)
        else (case create_runner A mc tc admin machine s1 of
                (Inl flt, s2) \<Rightarrow> Some (Inl flt, s2)
              | (Inr (Inl e), s2) \<Rightarrow> Some (Inr (Inl e), s2)
              | (Inr (Inr r), s2) \<Rightarrow> map_option (destroy_runner_after A r) (with_runner A tc r machine fuel s2)))"

text \<open>
  An iteration acquires a machine for at most three hours. The machine is released when the
  iteration is left. In the branch for a null machine the log message dereferences it.
\<close>

definition runner_loop_iteration ::
  "('w, 'm, 't) app \<Rightarrow> main_config \<Rightarrow> template_config \<Rightarrow> http_client \<Rightarrow> nat \<Rightarrow> 'w \<Rightarrow> ((fault + unit result) \<times> 'w) option" where
  "runner_loop_iteration A mc tc admin fuel s =
     (case acquire A 10800 s of
        (Inl e, s1) \<Rightarrow>
          (case stop_signalled A s1 of (sig, s2) \<Rightarrow> Some (Inr (Inr ()), if sig then s2 else sleep_for A 5 s2))
      | (Inr None, s1) \<Rightarrow>
          (case stop_signalled A s1 of (sig, s2) \<Rightarrow> Some (if sig then Inr (Inr ()) else Inl Undefined, s2))
      | (Inr (Some machine), s1) \<Rightarrow>
          map_option (\<lambda>(r, s'). (r, pool_release A machine s')) (with_machine A mc tc admin machine fuel s1))"

text \<open>
  The loop of a runner thread: errors are logged, the loop goes on. \<open>turns\<close> bounds the number of
  iterations followed, \<open>fuel\<close> the turns of the loops inside.
\<close>

fun runner_loop ::
  "('w, 'm, 't) app \<Rightarrow> main_config \<Rightarrow> template_config \<Rightarrow> http_client \<Rightarrow> nat \<Rightarrow> nat \<Rightarrow> 'w \<Rightarrow> ((fault + unit) \<times> 'w) option" where
  "runner_loop A mc tc admin fuel 0 s = None"
| "runner_loop A mc tc admin fuel (Suc turns) s =
     (case stop_signalled A s of (sig, s1) \<Rightarrow>
        if sig then Some (Inr (), s1)
        else (case runner_loop_iteration A mc tc admin fuel s1 of
                None \<Rightarrow> None
              | Some (Inl flt, s2) \<Rightarrow> Some (Inl flt, s2)
              | Some (Inr _, s2) \<Rightarrow> runner_loop A mc tc admin fuel turns s2))"

section \<open>The daemon\<close>

text \<open>
  \<^verbatim>\<open>cmd_daemon\<close> creates one state per template, with its machine pool, and starts one runner thread
  for each machine the pool may have: the list of templates, and for each thread its template.
\<close>

definition template_states :: "main_config \<Rightarrow> template_config list" where
  "template_states mc = concat (map bc_templates (mc_backends mc))"

definition runner_threads :: "main_config \<Rightarrow> template_config list" where
  "runner_threads mc = concat (map (\<lambda>tc. replicate (tc_max_concurrency tc) tc) (template_states mc))"

section \<open>What the parts of an iteration keep\<close>

definition curl_keeps :: "('w \<Rightarrow> bool) \<Rightarrow> ('w, 't) forge \<Rightarrow> bool" where
  "curl_keeps P fg \<longleftrightarrow> (\<forall>t s. P s \<longrightarrow> P (snd (curl fg t s)))"

lemma keeps_send: "curl_keeps P fg \<Longrightarrow> keeps P (http_send (curl fg) c req)"
  by (rule keeps_http_send) (simp add: curl_keeps_def)

lemma keeps_post_request: "curl_keeps P fg \<Longrightarrow> keeps P (send_post_request (curl fg) c path ser par req)"
  unfolding send_post_request_def http_post_def by (intro keeps_bind keeps_result keeps_send)

lemma keeps_services:
  assumes "curl_keeps P fg"
  shows "keeps P (get_registration_token fg a)" "keeps P (remove_runner fg a i)" "keeps P (ping_internal fg c opt)"
    "keeps P (register_internal fg c opt tok)" "keeps P (declare_internal fg c opt)" "keeps P (fetch_task_internal fg c)"
    "keeps P (service_update_task fg c u)"
proof -
  show "keeps P (get_registration_token fg a)"
    unfolding get_registration_token_def http_post_def
    by (intro keeps_bind keeps_send assms) (auto split: sum.split)
  show "keeps P (remove_runner fg a i)"
    unfolding remove_runner_def http_del_def by (intro keeps_bind keeps_send assms keeps_result)
  show "keeps P (fetch_task_internal fg c)"
    unfolding fetch_task_internal_def service_fetch_task_def
    by (intro keeps_bind keeps_wrap_error keeps_post_request assms) (auto split: option.split)
qed (auto simp: ping_internal_def register_internal_def declare_internal_def service_ping_def service_register_def
    service_declare_def service_update_task_def intro: keeps_wrap_error keeps_post_request assms)

lemma keeps_runner:
  assumes "curl_keeps P fg"
  shows "keeps P (runner_connect fg opt a)" "keeps P (runner_fetch_task fg r)" "keeps P (set_task_failed fg r p)"
    "keeps P (runner_destroy fg r)"
proof -
  show "keeps P (runner_connect fg opt a)"
    unfolding runner_connect_def Let_def by (intro keeps_bind keeps_services assms keeps_result)
qed (auto simp: runner_fetch_task_def set_task_failed_def runner_destroy_def keeps_services assms split: option.split)

text \<open>Operations on the machine and the surroundings that keep \<open>P\<close>.\<close>

definition app_keeps :: "('w \<Rightarrow> bool) \<Rightarrow> ('w, 'm, 't) app \<Rightarrow> bool" where
  "app_keeps P A \<longleftrightarrow>
     curl_keeps P (forge_api A) \<and> (\<forall>s. P s \<longrightarrow> P (snd (stop_signalled A s))) \<and> (\<forall>d s. P s \<longrightarrow> P (sleep_for A d s)) \<and>
     (\<forall>m cmd t. keeps P (shell_exec A m cmd t)) \<and> (\<forall>m path content. keeps P (write_file A m path content))"

lemma app_keepsD:
  assumes "app_keeps P A"
  shows "curl_keeps P (forge_api A)" "P s \<Longrightarrow> stop_signalled A s = (b, s') \<Longrightarrow> P s'" "P s \<Longrightarrow> P (sleep_for A d s)"
    "keeps P (shell_exec A m cmd t)" "keeps P (write_file A m path content)"
proof -
  show "P s \<Longrightarrow> stop_signalled A s = (b, s') \<Longrightarrow> P s'"
    using assms by (auto simp: app_keeps_def dest: spec [of _ s])
qed (use assms in \<open>simp_all add: app_keeps_def\<close>)

lemma keeps_unless_stopped: "app_keeps P A \<Longrightarrow> keeps P a \<Longrightarrow> keeps P b \<Longrightarrow> keeps P (unless_stopped A a b)"
  using app_keepsD(2) [of P A] by (simp add: keeps_def unless_stopped_def split: prod.split)

lemma keeps_execute: "app_keeps P A \<Longrightarrow> keeps P (execute_task_in_machine A task r tc m)"
  unfolding execute_task_in_machine_def inject_runner_files_def
  by (intro keeps_bind keeps_result) (auto intro: keeps_bind app_keepsD)

lemma keeps_fetch_end: "app_keeps P A \<Longrightarrow> keeps P (fetch_task_end A task)"
  unfolding fetch_task_end_def by (intro keeps_unless_stopped) (auto split: option.split)

lemma fetch_loop_keeps:
  assumes "app_keeps P A"
  shows "fetch_task_loop A r fuel s = Some (res, s') \<Longrightarrow> P s \<Longrightarrow> P s'"
proof (induction fuel arbitrary: s)
  case (Suc fuel)
  obtain sig s1 where sig: "stop_signalled A s = (sig, s1)"
    by fastforce
  then have s1: "P s1"
    using Suc.prems app_keepsD(2) [OF assms] by blast
  obtain x s2 where x: "runner_fetch_task (forge_api A) r s1 = (x, s2)"
    by fastforce
  then have s2: "P s2"
    using keepsD [OF keeps_runner(2) [OF app_keepsD(1) [OF assms]] s1, of r] by simp
  obtain sig' s3 where sig': "stop_signalled A s2 = (sig', s3)"
    by fastforce
  then have s3: "P s3" "P (sleep_for A 1 s3)"
    using s2 app_keepsD(2,3) [OF assms] by blast+
  have ends: "P (snd (fetch_task_end A t s1))" "P (snd (fetch_task_end A t s3))" for t
    using s1 s3(1) keepsD [OF keeps_fetch_end [OF assms]] by blast+
  show ?case
    using Suc.prems(1) Suc.IH [of s3] Suc.IH [of "sleep_for A 1 s3"] s2 s3 ends(1) [of None] ends(2) sig x sig'
    by (auto split: if_splits sum.splits option.splits) (metis snd_conv)+
qed simp

text \<open>
  A thread's iteration gives back what it took: in a world whose pool operations satisfy the
  contract and whose other operations leave the thread's machines alone.
\<close>

context machine_source
begin

definition serves :: "('w, 'm, 't) app \<Rightarrow> bool" where
  "serves A \<longleftrightarrow>
     acquire A = src_acquire \<and> pool_activate A = src_activate \<and> pool_deactivate A = src_deactivate \<and>
     pool_release A = src_release \<and> (\<forall>H U. app_keeps (balanced H U) A)"

lemma serves_keeps: "serves A \<Longrightarrow> app_keeps (balanced H U) A"
  by (simp add: serves_def)

lemma serves_ops:
  assumes "serves A"
  shows "acquire A = src_acquire" "pool_activate A = src_activate" "pool_deactivate A = src_deactivate"
    "pool_release A = src_release"
  using assms by (simp_all add: serves_def)

lemma run_task_balanced:
  assumes "serves A" "balanced (add_mset m H) U s" "m \<notin># U"
  shows "balanced (add_mset m H) U (snd (run_task A tc r task m s))"
proof -
  let ?P = "balanced (add_mset m H) (add_mset m U)"
  have "keeps ?P (io_or_else (execute_task_in_machine A task r tc m) (\<lambda>_. set_task_failed (forge_api A) r task))"
    using assms(1) by (intro keeps_or_else keeps_execute keeps_runner app_keepsD(1)) (auto intro: serves_keeps)
  moreover have "?P (pool_activate A m s)"
    using assms by (simp add: serves_ops balanced_use)
  ultimately have "?P (snd (io_or_else (execute_task_in_machine A task r tc m) (\<lambda>_. set_task_failed (forge_api A) r task)
      (pool_activate A m s)))"
    by (rule keepsD)
  then show ?thesis
    using assms(1) balanced_unuse by (simp add: run_task_def serves_ops case_prod_beta)
qed

lemma with_task_balanced:
  assumes "serves A" "balanced (add_mset m H) U s" "m \<notin># U"
  shows "balanced (add_mset m H) U (snd (with_task A tc r task m s))"
proof -
  let ?P = "balanced (add_mset m H) U"
  have app: "app_keeps ?P A"
    using assms(1) by (rule serves_keeps)
  have "keeps ?P (run_task A tc r task m)"
    by (rule keepsI) (rule run_task_balanced [OF assms(1) _ assms(3)])
  then have "keeps ?P (with_task A tc r task m)"
    unfolding with_task_def
    by (intro keeps_unless_stopped keeps_bind keeps_runner keeps_result app app_keepsD(1) [OF app])
  then show ?thesis
    using assms(2) by (rule keepsD)
qed

lemma with_runner_balanced:
  assumes "serves A" "balanced (add_mset m H) U s" "m \<notin># U" "with_runner A tc r m fuel s = Some (res, s')"
  shows "balanced (add_mset m H) U s'"
proof -
  let ?P = "balanced (add_mset m H) U"
  have app: "app_keeps ?P A"
    using assms(1) by (rule serves_keeps)
  obtain sig s1 where sig: "stop_signalled A s = (sig, s1)"
    by fastforce
  then have "?P s1"
    using assms(2) app_keepsD(2) [OF app] by blast
  then have fetched: "?P s2" if "fetch_task_loop A r fuel s1 = Some (x, s2)" for x s2
    using fetch_loop_keeps [OF app that] by simp
  have "?P (snd (with_task A tc r task m s2))" if "?P s2" for task s2
    using that by (rule with_task_balanced [OF assms(1) _ assms(3)])
  with assms(4) sig \<open>?P s1\<close> fetched show ?thesis
    by (simp add: with_runner_def split: if_splits option.splits prod.splits sum.splits) (metis snd_conv)+
qed

lemma with_machine_balanced:
  assumes "serves A" "balanced (add_mset m H) U s" "m \<notin># U" "with_machine A mc tc admin m fuel s = Some (res, s')"
  shows "balanced (add_mset m H) U s'"
proof -
  let ?P = "balanced (add_mset m H) U"
  have app: "app_keeps ?P A"
    using assms(1) by (rule serves_keeps)
  obtain sig s1 where sig: "stop_signalled A s = (sig, s1)"
    by fastforce
  then have s1: "?P s1"
    using assms(2) app_keepsD(2) [OF app] by blast
  have "keeps ?P (create_runner A mc tc admin m)"
    unfolding create_runner_def by (intro keeps_runner app_keepsD(1) [OF app])
  then have s2: "?P s2" if "create_runner A mc tc admin m s1 = (x, s2)" for x s2
    using keepsD [of ?P "create_runner A mc tc admin m" s1] s1 that by simp
  have destroyed: "?P s4" if "destroy_runner_after A r x = (y, s4)" "?P (snd x)" for r x y s4
    using keepsD [OF keeps_runner(4) [OF app_keepsD(1) [OF app]] that(2), of r] that(1)
    by (auto simp: destroy_runner_after_def io_finally_def split: prod.splits sum.splits)
  have ran: "?P (snd x)" if "with_runner A tc r m fuel s2 = Some x" "?P s2" for r s2 x
    using with_runner_balanced [OF assms(1) that(2) assms(3), of tc r fuel "fst x" "snd x"] that(1) by simp
  from assms(4) sig s1 s2 show ?thesis
    by (auto simp: with_machine_def split: if_splits prod.splits sum.splits intro: destroyed ran)
qed

lemma iteration_balanced:
  assumes "serves A" "balanced H U s" "runner_loop_iteration A mc tc admin fuel s = Some (res, s')"
  shows "balanced H U s'"
proof -
  have app: "app_keeps (balanced H U) A"
    using assms(1) by (rule serves_keeps)
  obtain a s1 where acq: "src_acquire 10800 s = (a, s1)"
    by fastforce
  have fin: "balanced H U s2" if "stop_signalled A s1 = (b, s2)" "balanced H U s1" for b s2
    using that app_keepsD(2) [OF app] by blast
  show ?thesis
  proof (cases a)
    case (Inl e)
    then have "balanced H U s1"
      using acq assms(2) balanced_acquire_error by blast
    with Inl acq assms(1,3) fin app_keepsD(3) [OF app] show ?thesis
      by (auto simp: runner_loop_iteration_def serves_ops split: prod.splits if_splits)
  next
    case (Inr mo)
    moreover have "a \<noteq> Inr None"
      using acq assms(2) never_null [of s 10800] by (simp add: balanced_def)
    ultimately obtain m where m: "a = Inr (Some m)"
      by (cases mo) auto
    then have "balanced (add_mset m H) U s1" "m \<notin># U"
      using acq assms(2) balanced_acquire by blast+
    with m acq assms(1,3) show ?thesis
      using with_machine_balanced [OF assms(1)] balanced_release
      by (auto simp: runner_loop_iteration_def serves_ops)
  qed
qed

lemma loop_balanced:
  assumes "serves A"
  shows "balanced H U s \<Longrightarrow> runner_loop A mc tc admin fuel turns s = Some (res, s') \<Longrightarrow> balanced H U s'"
proof (induction turns arbitrary: s)
  case (Suc turns)
  obtain sig s1 where sig: "stop_signalled A s = (sig, s1)"
    by fastforce
  then have s1: "balanced H U s1"
    using Suc.prems(1) app_keepsD(2) [OF serves_keeps [OF assms]] by blast
  show ?case
    using Suc.prems(2) Suc.IH sig s1 iteration_balanced [OF assms s1]
    by (simp split: if_splits option.splits prod.splits sum.splits) blast+
qed simp

end

end
