(* ===== verification/PoolView.thy ===== *)
theory PoolView
  imports MachinePool Core
begin

text \<open>
  The machine pool as one thread sees it. The pool is shared: between any two critical sections of
  the thread the other threads (clients, the control loop, the spawn tasks, shutdown) may run, and a
  waiting \<^verbatim>\<open>acquire\<close> lets them run between two turns of its loop. The view interprets the contract
  \<open>machine_source\<close>: whatever the others do, as long as they leave this thread's machines alone, the
  thread holds what it acquired and has not released.
\<close>

section \<open>View of a thread\<close>

text \<open>\<open>v_mine\<close> and \<open>v_active\<close> are the machines this thread holds and those it has activated.\<close>

record ('m, 'w) view =
  v_pool :: "'m machine_pool"
  v_mine :: "'m multiset"
  v_active :: "'m multiset"
  v_outside :: 'w

text \<open>
  What the other threads do next, and how many turns of the loop of \<^verbatim>\<open>acquire\<close> pass before its
  time-out: both are given by the state of the outside.
\<close>

record ('m, 'w) surroundings =
  others :: "'m multiset \<Rightarrow> 'm multiset \<Rightarrow> 'm machine_pool \<Rightarrow> 'w \<Rightarrow> 'm machine_pool \<times> 'w"
  patience :: "'w \<Rightarrow> nat"

definition run_others :: "('m, 'w) surroundings \<Rightarrow> ('m, 'w) view \<Rightarrow> ('m, 'w) view" where
  "run_others E v =
     (case others E (v_mine v) (v_active v) (v_pool v) (v_outside v) of (p, w) \<Rightarrow> v\<lparr>v_pool := p, v_outside := w\<rparr>)"

text \<open>The loop of \<^verbatim>\<open>acquire\<close>: \<open>k\<close> turns before the time-out, then one after it.\<close>

fun acquire_loop :: "('m, 'w) surroundings \<Rightarrow> int \<Rightarrow> nat \<Rightarrow> ('m, 'w) view \<Rightarrow> 'm result option \<times> ('m, 'w) view" where
  "acquire_loop E timeout 0 v =
     (case acquire_turn timeout timeout (v_pool v) of (r, p) \<Rightarrow> (r, v\<lparr>v_pool := p\<rparr>))"
| "acquire_loop E timeout (Suc k) v =
     (case acquire_turn 0 timeout (v_pool v) of
        (None, p) \<Rightarrow> acquire_loop E timeout k (run_others E (v\<lparr>v_pool := p\<rparr>))
      | (Some r, p) \<Rightarrow> (Some r, v\<lparr>v_pool := p\<rparr>))"

definition view_acquire :: "('m, 'w) surroundings \<Rightarrow> int \<Rightarrow> ('m, 'w) view \<Rightarrow> 'm option result \<times> ('m, 'w) view" where
  "view_acquire E timeout v =
     (let v1 = run_others E v;
          v2 = run_others E (v1\<lparr>v_pool := acquire_enter (v_pool v1)\<rparr>)
      in case acquire_loop E timeout (patience E (v_outside v2)) v2 of
           (Some (Inr m), v3) \<Rightarrow> (Inr (Some m), v3\<lparr>v_mine := add_mset m (v_mine v3)\<rparr>)
         | (Some (Inl e), v3) \<Rightarrow> (Inl e, v3)
         | (None, v3) \<Rightarrow> (Inl (Error []), v3))"

definition view_activate :: "('m, 'w) surroundings \<Rightarrow> 'm \<Rightarrow> ('m, 'w) view \<Rightarrow> ('m, 'w) view" where
  "view_activate E m v =
     (let v1 = run_others E v in v1\<lparr>v_pool := activate m (v_pool v1), v_active := add_mset m (v_active v1)\<rparr>)"

definition view_deactivate :: "('m, 'w) surroundings \<Rightarrow> 'm \<Rightarrow> ('m, 'w) view \<Rightarrow> ('m, 'w) view" where
  "view_deactivate E m v =
     (let v1 = run_others E v in v1\<lparr>v_pool := deactivate m (v_pool v1), v_active := v_active v1 - {#m#}\<rparr>)"

definition view_release :: "('m, 'w) surroundings \<Rightarrow> 'm \<Rightarrow> ('m, 'w) view \<Rightarrow> ('m, 'w) view" where
  "view_release E m v =
     (let v1 = run_others E v in v1\<lparr>v_pool := release m (v_pool v1), v_mine := v_mine v1 - {#m#}\<rparr>)"

section \<open>Others that leave this thread's machines alone\<close>

definition agrees :: "nat \<Rightarrow> nat \<Rightarrow> 'm multiset \<Rightarrow> 'm multiset \<Rightarrow> 'm machine_pool \<Rightarrow> bool" where
  "agrees n waiting mine act p \<longleftrightarrow>
     pool_inv n p \<and> waiting \<le> clients p \<and> clients p + 2 < size_modulus + waiting \<and> act \<subseteq># mine \<and> mine \<subseteq># held p \<and>
     (\<forall>m \<in># mine. count (activated p) m = count act m)"

text \<open>
  The others keep the pool's invariant (they follow its protocol), keep this thread's machines held
  and as active as they were, leave the thread counted as waiting when it is (\<open>waiting\<close> is 0 or
  1), and are fewer than \<open>2 ^ 64 - 2\<close>.
\<close>

definition polite :: "nat \<Rightarrow> ('m, 'w) surroundings \<Rightarrow> bool" where
  "polite n E \<longleftrightarrow> (\<forall>waiting mine act p w. agrees n waiting mine act p \<longrightarrow>
     agrees n waiting mine act (fst (others E mine act p w)))"

definition view_ok :: "nat \<Rightarrow> ('m, 'w) surroundings \<Rightarrow> ('m, 'w) view \<Rightarrow> bool" where
  "view_ok n E v \<longleftrightarrow> polite n E \<and> agrees n 0 (v_mine v) (v_active v) (v_pool v)"

lemma run_others_fields [simp]:
  "v_mine (run_others E v) = v_mine v" "v_active (run_others E v) = v_active v"
  by (simp_all add: run_others_def split: prod.split)

lemma run_others_agrees:
  "polite n E \<Longrightarrow> agrees n w (v_mine v) (v_active v) (v_pool v) \<Longrightarrow>
     agrees n w (v_mine v) (v_active v) (v_pool (run_others E v))"
  unfolding polite_def run_others_def by (auto split: prod.split) (metis fst_conv)

section \<open>The thread's own steps\<close>

lemma agrees_inv: "agrees n w mine act p \<Longrightarrow> pool_inv n p"
  by (simp add: agrees_def)

lemma agrees_enter: "agrees n 0 mine act p \<Longrightarrow> agrees n 1 mine act (acquire_enter p)"
  using inv_acquire_enter [of n p] by (auto simp: agrees_def) (simp_all add: acquire_enter_def)

lemma idle_not_held: "pool_inv n p \<Longrightarrow> m \<in> set (m_idle_machines p) \<Longrightarrow> m \<notin># held p"
  using custody_distinct [of p] mset_subset_eqD [of "held p" "mset (handed_out p)" m] by (auto simp: pool_inv_def custody_ok_def)

text \<open>A turn that ends the waiting without a machine, one that does not end it, and one that hands out a machine.\<close>

lemma agrees_turn_waits: "agrees n 1 mine act p \<Longrightarrow> acquire_turn e t p = (None, p') \<Longrightarrow> agrees n 1 mine act p'"
  by (auto simp: acquire_turn_def split: if_splits list.splits)

lemma agrees_turn_error:
  assumes "agrees n 1 mine act p" "acquire_turn e t p = (Some (Inl err), p')"
  shows "agrees n 0 mine act p'"
proof -
  have "pool_inv n p'"
    using assms by (intro inv_acquire_turn [OF _ _ assms(2)]) (auto simp: agrees_def)
  moreover have "p' = p\<lparr>acquiring := size_dec (acquiring p), clients := clients p - 1\<rparr>"
    using assms(2) by (auto simp: acquire_turn_def split: if_splits list.splits)
  ultimately show ?thesis
    using assms(1) by (auto simp: agrees_def)
qed

lemma agrees_turn_machine:
  assumes "agrees n 1 mine act p" "acquire_turn e t p = (Some (Inr m), p')"
  shows "agrees n 0 (add_mset m mine) act p' \<and> m \<notin># act"
proof -
  have inv: "pool_inv n p'"
    using assms by (intro inv_acquire_turn [OF _ _ assms(2)]) (auto simp: agrees_def)
  obtain rest where idle: "m_idle_machines p = m # rest"
    using assms(2) by (auto simp: acquire_turn_def split: if_splits list.splits)
  have p': "held p' = add_mset m (held p)" "activated p' = activated p" "clients p' = clients p - 1"
    using assms(2) idle by (auto simp: acquire_turn_def split: if_splits)
  have new: "m \<notin># held p"
    using idle_not_held [OF agrees_inv [OF assms(1)]] idle by simp
  moreover have "activated p \<subseteq># held p"
    using agrees_inv [OF assms(1)] by (simp add: pool_unfold)
  moreover have sub: "act \<subseteq># mine" "mine \<subseteq># held p"
    using assms(1) by (simp_all add: agrees_def)
  ultimately have "m \<notin># activated p" "m \<notin># act"
    by (meson mset_subset_eqD)+
  then have "count (activated p') m = count act m"
    using p' by (simp add: not_in_iff)
  with assms(1) inv p' sub \<open>m \<notin># act\<close> show ?thesis
    by (simp add: agrees_def mset_sub_add)
qed

definition loop_result :: "nat \<Rightarrow> 'm multiset \<Rightarrow> 'm multiset \<Rightarrow> 'm result option \<Rightarrow> 'm machine_pool \<Rightarrow> bool" where
  "loop_result n mine act r p =
     (case r of Some (Inr m) \<Rightarrow> agrees n 0 (add_mset m mine) act p \<and> m \<notin># act
      | Some (Inl e) \<Rightarrow> agrees n 0 mine act p
      | None \<Rightarrow> False)"

lemma loop_result_simps [simp]:
  "loop_result n mine act (Some (Inr m)) p \<longleftrightarrow> agrees n 0 (add_mset m mine) act p \<and> m \<notin># act"
  "loop_result n mine act (Some (Inl e)) p \<longleftrightarrow> agrees n 0 mine act p"
  "\<not> loop_result n mine act None p"
  by (simp_all add: loop_result_def)

lemma loop_result_turn:
  assumes "agrees n 1 mine act p" "acquire_turn e t p = (Some r, p')"
  shows "loop_result n mine act (Some r) p'"
  using assms by (cases r) (auto simp: agrees_turn_error agrees_turn_machine)

lemma acquire_loop_agrees:
  assumes "polite n E" "agrees n 1 (v_mine v) (v_active v) (v_pool v)"
  shows "case acquire_loop E t k v of (r, v') \<Rightarrow>
     v_mine v' = v_mine v \<and> v_active v' = v_active v \<and> loop_result n (v_mine v) (v_active v) r (v_pool v')"
  using assms(2)
proof (induction k arbitrary: v)
  case 0
  obtain r p where turn: "acquire_turn t t (v_pool v) = (r, p)"
    by fastforce
  then have "r \<noteq> None"
    by (auto simp: acquire_turn_def split: if_splits list.splits)
  with 0 turn show ?case
    using loop_result_turn [OF 0] by auto
next
  case (Suc k)
  obtain r p where turn: "acquire_turn 0 t (v_pool v) = (r, p)"
    by fastforce
  show ?case
  proof (cases r)
    case None
    then have "agrees n 1 (v_mine v) (v_active v) (v_pool (run_others E (v\<lparr>v_pool := p\<rparr>)))"
      using agrees_turn_waits [OF Suc.prems] turn run_others_agrees [OF assms(1), of 1 "v\<lparr>v_pool := p\<rparr>"] by simp
    with None turn show ?thesis
      using Suc.IH [of "run_others E (v\<lparr>v_pool := p\<rparr>)"] by simp
  next
    case (Some x)
    with turn show ?thesis
      using loop_result_turn [OF Suc.prems] by simp
  qed
qed

lemma agrees_activate:
  assumes "agrees n 0 mine act p" "m \<in># mine" "m \<notin># act"
  shows "agrees n 0 mine (add_mset m act) (activate m p)"
proof -
  have "m \<in># held p" "m \<notin># activated p"
    using assms by (auto simp: agrees_def not_in_iff dest: mset_subset_eqD)
  then have "pool_inv n (activate m p)"
    using assms(1) by (intro inv_activate) (simp_all add: agrees_def)
  with assms show ?thesis
    by (auto simp: agrees_def activate_def mset_add_sub)
qed

lemma agrees_deactivate:
  assumes "agrees n 0 mine act p" "m \<in># act"
  shows "agrees n 0 mine (act - {#m#}) (deactivate m p)"
proof -
  have "m \<in># mine"
    using assms by (auto simp: agrees_def dest: mset_subset_eqD)
  then have "m \<in># activated p"
    using assms by (auto simp: agrees_def) (metis count_eq_zero_iff)
  then have "pool_inv n (deactivate m p)"
    using assms(1) by (intro inv_deactivate) (simp_all add: agrees_def)
  with assms show ?thesis
    by (auto simp: agrees_def deactivate_def mset_diff_sub)
qed

lemma agrees_release:
  assumes "agrees n 0 mine act p" "m \<in># mine" "m \<notin># act"
  shows "agrees n 0 (mine - {#m#}) act (release m p)"
proof -
  have "m \<in># held p" "m \<notin># activated p"
    using assms by (auto simp: agrees_def not_in_iff dest: mset_subset_eqD)
  then have "pool_inv n (release m p)"
    using assms(1) by (intro inv_release) (simp_all add: agrees_def)
  moreover have "act \<subseteq># mine - {#m#}" "mine - {#m#} \<subseteq># held p - {#m#}"
    using assms mset_sub_remove [of act mine m] by (auto simp: agrees_def subseteq_mset_def diff_le_mono)
  ultimately show ?thesis
    using assms by (auto simp: agrees_def release_def dest: in_diffD)
qed

interpretation view: machine_source "view_acquire E" "view_activate E" "view_deactivate E" "view_release E" v_mine v_active "view_ok n E"
  for E :: "('m, 'w) surroundings" and n
proof unfold_locales
  fix s s' :: "('m, 'w) view" and d m e
  assume ok: "view_ok n E s"
  have pol: "polite n E"
    using ok by (simp add: view_ok_def)
  have here: "agrees n 0 (v_mine s) (v_active s) (v_pool (run_others E s))"
    using ok by (simp add: view_ok_def run_others_agrees)
  let ?v1 = "run_others E s" let ?v2 = "run_others E (?v1\<lparr>v_pool := acquire_enter (v_pool ?v1)\<rparr>)"
  have "agrees n 1 (v_mine s) (v_active s) (v_pool ?v2)"
    using run_others_agrees [OF pol, of 1 "?v1\<lparr>v_pool := acquire_enter (v_pool ?v1)\<rparr>"] agrees_enter [OF here] by simp
  then have loop: "case acquire_loop E d (patience E (v_outside ?v2)) ?v2 of (r, v') \<Rightarrow>
     v_mine v' = v_mine s \<and> v_active v' = v_active s \<and> loop_result n (v_mine s) (v_active s) r (v_pool v')" for d
    using acquire_loop_agrees [OF pol, of ?v2] by simp
  show "view_ok n E s' \<and> v_mine s' = add_mset m (v_mine s) \<and> v_active s' = v_active s \<and> m \<notin># v_active s"
    if "view_acquire E d s = (Inr (Some m), s')"
    using that loop [of d] pol by (auto simp: view_acquire_def Let_def view_ok_def split: prod.splits option.splits sum.splits)
  show "view_ok n E s' \<and> v_mine s' = v_mine s \<and> v_active s' = v_active s" if "view_acquire E d s = (Inl e, s')"
    using that loop [of d] pol by (auto simp: view_acquire_def Let_def view_ok_def split: prod.splits option.splits sum.splits)
  show "fst (view_acquire E d s) \<noteq> Inr None"
    by (auto simp: view_acquire_def Let_def split: prod.splits option.splits sum.splits)
  show "view_ok n E (view_activate E m s) \<and> v_mine (view_activate E m s) = v_mine s \<and>
      v_active (view_activate E m s) = add_mset m (v_active s)" if "m \<in># v_mine s" "m \<notin># v_active s"
    using agrees_activate [OF here that] pol by (simp add: view_activate_def view_ok_def Let_def)
  show "view_ok n E (view_deactivate E m s) \<and> v_mine (view_deactivate E m s) = v_mine s \<and>
      v_active (view_deactivate E m s) = v_active s - {#m#}" if "m \<in># v_active s"
    using agrees_deactivate [OF here that] pol by (simp add: view_deactivate_def view_ok_def Let_def)
  show "view_ok n E (view_release E m s) \<and> v_mine (view_release E m s) = v_mine s - {#m#} \<and>
      v_active (view_release E m s) = v_active s" if "m \<in># v_mine s" "m \<notin># v_active s"
    using agrees_release [OF here that] pol by (simp add: view_release_def view_ok_def Let_def)
qed

end
