(* ===== verification/RunnerLoop.thy ===== *)
theory RunnerLoop
  imports PoolView
begin

text \<open>
  Properties of the runner loop on its components: with the machine pool of \<open>PoolView\<close> a thread
  gives back every machine it took; a machine that was spawned is returned or destroyed; a runner
  that was registered is removed; what happens to a fetched task; how waiting for the network ends.
\<close>

section \<open>Spawned machines\<close>

text \<open>
  \<open>live\<close> reads the existing machines off the world: the backend adds the machine it returns,
  destruction removes it, nothing else changes them.
\<close>

definition tracks_machines :: "('w \<Rightarrow> 'm multiset) \<Rightarrow> ('w, 'm, 't) app \<Rightarrow> bool" where
  "tracks_machines live A \<longleftrightarrow>
     (\<forall>i b t d s. live (snd (backend_spawn A i b t d s)) =
        (case fst (backend_spawn A i b t d s) of Inr (Inr m) \<Rightarrow> add_mset m (live s) | _ \<Rightarrow> live s)) \<and>
     (\<forall>m s. live (destroy_machine A m s) = live s - {#m#}) \<and>
     (\<forall>s. live (snd (create_libvirt_backend A s)) = live s) \<and>
     (\<forall>m t s. live (snd (wait_for_guest_agent A m t s)) = live s) \<and>
     (\<forall>m cmd t s. live (snd (shell_exec A m cmd t s)) = live s) \<and>
     (\<forall>s. live (snd (stop_signalled A s)) = live s) \<and> (\<forall>s. live (snd (now A s)) = live s) \<and>
     (\<forall>t s. live (sleep_for A t s) = live s)"

lemma tracksD:
  assumes "tracks_machines live A"
  shows "backend_spawn A i b t d s = (r, s') \<Longrightarrow> live s' = (case r of Inr (Inr m) \<Rightarrow> add_mset m (live s) | _ \<Rightarrow> live s)"
    "live (destroy_machine A m s) = live s - {#m#}"
    "create_libvirt_backend A s = (x, s') \<Longrightarrow> live s' = live s"
    "wait_for_guest_agent A m k s = (y, s') \<Longrightarrow> live s' = live s"
    "shell_exec A m cmd w s = (z, s') \<Longrightarrow> live s' = live s"
    "stop_signalled A s = (sig, s') \<Longrightarrow> live s' = live s" "now A s = (c, s') \<Longrightarrow> live s' = live s"
    "live (sleep_for A k s) = live s"
  using assms unfolding tracks_machines_def by (metis fst_conv snd_conv)+

lemma ping_loop_live:
  assumes "tracks_machines live A"
  shows "ping_loop A m host cmd timeout t0 out fuel s = Some (r, s') \<Longrightarrow> live s' = live s"
proof (induction fuel arbitrary: out s)
  case (Suc fuel)
  note tracks = tracksD(5-8) [OF assms]
  show ?case
    using Suc.prems Suc.IH
    by (auto simp: tracks(4) split: prod.splits if_splits sum.splits dest!: tracks(1-3))
qed simp

lemma wait_live:
  assumes "tracks_machines live A" "wait_until_gitea_instance_available A m url timeout fuel s = Some (r, s')"
  shows "live s' = live s"
proof -
  consider (early) "s' = s" | (loop) host cmd t0 s1 where "now A s = (t0, s1)" "ping_loop A m host cmd timeout t0 [] fuel s1 = Some (r, s')"
    using assms(2) by (auto simp: wait_until_gitea_instance_available_def split: option.splits sum.splits prod.splits)
  then show ?thesis
  proof cases
    case loop
    with tracksD(7) [OF assms(1)] ping_loop_live [OF assms(1)] show ?thesis
      by metis
  qed simp
qed

lemma backend_live:
  assumes "tracks_machines live A"
    "io_bind (create_backend A name) (\<lambda>_. backend_spawn A i b t d) s = (r, s')"
  shows "live s' = (case r of Inr (Inr m) \<Rightarrow> add_mset m (live s) | _ \<Rightarrow> live s)"
proof (cases "create_backend A name s")
  case (Pair x s1)
  then have "live s1 = live s"
    using tracksD(3) [OF assms(1)] by (auto simp: create_backend_def io_result_def split: if_splits)
  with Pair assms show ?thesis
    using tracksD(1) [OF assms(1), of i b t d s1 r s'] by (auto simp: io_bind_def split: sum.splits)
qed

section \<open>Waiting for the network\<close>

lemma ping_loop_no_timeout:
  assumes "0 < timeout" "\<And>s. t0 \<le> fst (now A s)"
  shows "ping_loop A m host cmd timeout t0 out fuel s = Some (Inr (Inl e), s') \<Longrightarrow>
    e = Error ''Shutting down'' \<or> (\<exists>why. e = Error (''Failed to execute ping command for host '' @ host @ '' in machine '' @ get_id A m @ '': '' @ why))"
proof (induction fuel arbitrary: out s)
  case (Suc fuel)
  have "t0 - fst (now A s) < timeout"
    using assms(2) [of s] assms(1) by linarith
  then show ?case
    using Suc.prems Suc.IH by (cases "now A s") (auto split: prod.splits if_splits sum.splits)
qed simp

lemma ping_loop_forever:
  assumes "0 < timeout" "\<And>s. t0 \<le> fst (now A s)" "\<And>s. \<not> fst (stop_signalled A s)"
    "\<And>t s. \<exists>out k. k \<noteq> 0 \<and> fst (shell_exec A m cmd t s) = Inr (Inr \<lparr>exit_code = k, spawn_output = out\<rparr>)"
  shows "ping_loop A m host cmd timeout t0 out fuel s = None"
proof (induction fuel arbitrary: out s)
  case (Suc fuel)
  obtain t s1 where now: "now A s = (t, s1)"
    by fastforce
  obtain s2 where stop: "stop_signalled A s1 = (False, s2)"
    using assms(3) [of s1] by (cases "stop_signalled A s1") auto
  obtain o' k s3 where exec: "shell_exec A m cmd (Some (if timeout < 10 then timeout else 10)) s2 = (Inr (Inr \<lparr>exit_code = k, spawn_output = o'\<rparr>), s3)" "k \<noteq> 0"
    using assms(4) [of "Some (if timeout < 10 then timeout else 10)" s2] by (metis prod.collapse)
  have "t0 - t < timeout"
    using assms(1) assms(2) [of s] now by simp
  with now stop exec Suc.IH show ?case
    by simp
qed simp

section \<open>Fetching and running a task\<close>

lemma run_task_value:
  "run_task A tc r task m s =
     (case execute_task_in_machine A task r tc m (pool_activate A m s) of
        (Inr (Inl _), s1) \<Rightarrow> (case set_task_failed (forge_api A) r task s1 of (x, s2) \<Rightarrow> (x, pool_deactivate A m s2))
      | (x, s1) \<Rightarrow> (x, pool_deactivate A m s1))"
  by (auto simp: run_task_def io_or_else_def split: prod.split sum.split)

definition update_line :: "runner_service_client \<Rightarrow> http_method \<times> string" where
  "update_line c = (Post, http_path_join (http_path_join (m_instance_url c) ''/api/actions'') ''/runner.v1.RunnerService/UpdateTask'')"

lemma bind_result_state: "snd (io_bind m (\<lambda>x. io_result (f x)) s) = snd (m s)"
  by (auto simp: io_bind_def io_result_def split: prod.split sum.split)

lemma set_task_failed_lines:
  assumes "curl fg = logging cu" "m_client r = Some c"
    "update_task_request_codec fg \<lparr>upd_id = parcel_id task, upd_result = Result_failure\<rparr> = Some payload"
  shows "request_lines (snd (set_task_failed fg r task s)) = request_lines s @ [update_line c]"
proof -
  have "snd (set_task_failed fg r task s) =
      snd (http_send (logging cu) (service_http_client c)
        \<lparr>req_method = Post, req_path = ''/runner.v1.RunnerService/UpdateTask'', req_payload = payload, req_headers = []\<rparr> s)"
    using assms by (simp add: set_task_failed_def service_update_task_def send_post_request_def encode_payload_def
        http_post_def bind_result_state)
  then show ?thesis
    by (simp only: http_send_lines headers_only_clients http_request.simps line_of_service update_line_def)
qed

lemma set_task_failed_no_error: "fst (set_task_failed fg r task s) \<noteq> Inr (Inl e)"
  by (auto simp: set_task_failed_def io_ignore_def io_or_else_def io_bind_def io_result_def io_fault_def
      split: option.split prod.split sum.split)

lemma connected_runner:
  "runner_connect fg options admin s = (Inr (Inr r), s') \<Longrightarrow> \<not> m_moved r \<and> m_admin r = Some admin"
  unfolding runner_connect_def Let_def
  by (auto simp: io_bind_def io_result_def runner_new_def split: prod.splits sum.splits)

section \<open>Paths on the machine\<close>

text \<open>The replacement of slashes ends, since its pattern is not empty.\<close>

lemma make_temp_path_value:
  "make_temp_path mi sub =
     (let path = string_from_u8string (path_append (mi_temp_dir mi) (u8string_from_string sub))
      in if string_compare_ci (mi_os mi) ''windows'' = 0
         then map (\<lambda>x. if x = CHR ''/'' then CHR 0x5C else x) path else path)"
proof -
  have "map (\<lambda>x. if x = CHR ''/'' then CHR ''/'' else x) xs = xs" for xs
    by (induction xs) auto
  then show ?thesis
    by (simp add: make_temp_path_def string_replace_correct replace_all_char Let_def)
qed

section \<open>An application on a small world\<close>

definition demo_app :: "('w, unit) forge \<Rightarrow> ('w \<Rightarrow> bool \<times> 'w) \<Rightarrow> ('w, nat, unit) app" where
  "demo_app fg sig =
     \<lparr>forge_api = fg, stop_signalled = sig, now = (\<lambda>s. (0, s)), sleep_for = (\<lambda>_ s. s), get_id = (\<lambda>_. ''vm''),
      info = (\<lambda>_. \<lparr>mi_os = ''linux'', mi_arch = Amd64, mi_temp_dir = ''/tmp''\<rparr>),
      shell_exec = (\<lambda>_ _ _ s. (Inr (Inr \<lparr>exit_code = 1, spawn_output = []\<rparr>), s)),
      wait_for_guest_agent = (\<lambda>_ _ s. (Inr (Inr ()), s)), write_file = (\<lambda>_ _ _ s. (Inr (Inr ()), s)),
      destroy_machine = (\<lambda>_ s. s), create_libvirt_backend = (\<lambda>s. (Inr (Inr ()), s)),
      backend_spawn = (\<lambda>_ _ _ _ s. (Inr (Inr 7), s)), uri_host = (\<lambda>_. Some ''h''), state_json = (\<lambda>_ _ _ _ _. []),
      version = ''1'', acquire = (\<lambda>_ s. (Inl (Error []), s)), pool_activate = (\<lambda>_ s. s),
      pool_deactivate = (\<lambda>_ s. s), pool_release = (\<lambda>_ s. s)\<rparr>"

definition demo_template :: template_config where
  "demo_template = \<lparr>tc_os = ''linux'', tc_arch = Amd64, tc_temp_dir = ''/tmp'', tc_idle_target = 1, tc_max_concurrency = 2,
     tc_runner_exe_path = ''/r'', tc_labels = [''l''], tc_raw_details = []\<rparr>"

definition demo_backend :: backend_config where
  "demo_backend = \<lparr>bc_type = ''libvirt'', bc_name = ''b'', bc_templates = [demo_template], bc_raw_details = []\<rparr>"

definition demo_main :: main_config where
  "demo_main = \<lparr>mc_base_dir = [], config_version = 1, mc_log_level = Log_info, mc_name = ''n'',
     mc_forge = \<lparr>fc_type = ''gitea'', fc_uri = ''http://f'', fc_token = \<lparr>tok_source = ''inline'', tok_value = ''s'', resolved_token = ''s''\<rparr>\<rparr>,
     mc_backends = [demo_backend]\<rparr>"

text \<open>A transport without a handle.\<close>

definition mute_forge :: "('w, unit) forge" where
  "mute_forge =
     \<lparr>curl = (\<lambda>t s. (No_handle, s)), json_token = (\<lambda>_. Inr ''T''),
      ping_request = (\<lambda>_. Some []), ping_response = (\<lambda>_ _. Some ()),
      register_request_codec = (\<lambda>_. Some []), register_response = (\<lambda>_ _. None),
      declare_request_codec = (\<lambda>_. Some []), declare_response = (\<lambda>_ _. Some ()),
      fetch_task_request = (\<lambda>_. Some []), fetch_task_response = (\<lambda>_ _. Some None),
      update_task_request_codec = (\<lambda>_. Some []), update_task_response = (\<lambda>_ _. Some ()),
      task_codec = (\<lambda>_. Some [])\<rparr>"

section \<open>Properties\<close>

text \<open>
  C8. No machine is lost while it is brought up: for every way in which \<^verbatim>\<open>spawn_machine\<close> returns, the
  machine the backend created exists afterwards exactly when it is the one returned; on every
  failure, of the guest agent or of the network, it has been destroyed.
\<close>

theorem spawn_no_leak:
  assumes "tracks_machines live A" "spawn_machine A mc bc tc fuel s = Some (r, s')"
  shows "live s' = (case r of Inr (Inr m) \<Rightarrow> add_mset m (live s) | _ \<Rightarrow> live s)"
proof -
  let ?spawn = "io_bind (create_backend A (bc_type bc))
      (\<lambda>_. backend_spawn A \<lparr>mi_os = tc_os tc, mi_arch = tc_arch tc, mi_temp_dir = tc_temp_dir tc\<rparr>
        (bc_raw_details bc) (tc_raw_details tc) (mc_base_dir mc))"
  obtain x s1 where x: "?spawn s = (x, s1)"
    by fastforce
  have live1: "live s1 = (case x of Inr (Inr m) \<Rightarrow> add_mset m (live s) | _ \<Rightarrow> live s)"
    using backend_live [OF assms(1) x] .
  show ?thesis
  proof (cases "\<exists>m. x = Inr (Inr m)")
    case False
    with assms(2) x live1 show ?thesis
      by (auto simp: spawn_machine_def split: sum.splits)
  next
    case True
    then obtain m where m: "x = Inr (Inr m)"
      by blast
    obtain y s2 where agent: "wait_for_guest_agent A m 120 s1 = (y, s2)"
      by fastforce
    have live2: "live s2 = add_mset m (live s)"
      using tracksD(4) [OF assms(1) agent] live1 m by simp
    have live3: "live s3 = add_mset m (live s)"
      if "wait_until_gitea_instance_available A m (fc_uri (mc_forge mc)) 120 fuel s2 = Some (z, s3)" for z s3
      using wait_live [OF assms(1) that] live2 by simp
    from assms(2) show ?thesis
      by (auto simp: spawn_machine_def x m agent live2 tracksD(2) [OF assms(1)] dest: live3
          split: sum.splits option.splits prod.splits)
  qed
qed

text \<open>A world that is the set of machines: the network never comes up, and the program is stopped.\<close>

definition machine_world :: "(nat multiset, nat, unit) app" where
  "machine_world = (demo_app mute_forge (\<lambda>s. (True, s)))
     \<lparr>backend_spawn := (\<lambda>_ _ _ _ s. (Inr (Inr 7), add_mset 7 s)), destroy_machine := (\<lambda>m s. s - {#m#})\<rparr>"

theorem spawn_no_leak_witness:
  "\<exists>e. spawn_machine machine_world demo_main demo_backend demo_template 1 {#3#} = Some (Inr (Inl e), {#3#})"
proof -
  have tracks: "tracks_machines (\<lambda>s. s) machine_world"
    by (simp add: tracks_machines_def machine_world_def demo_app_def)
  have "\<exists>e s'. spawn_machine machine_world demo_main demo_backend demo_template 1 {#3#} = Some (Inr (Inl e), s')"
    by (simp add: spawn_machine_def machine_world_def demo_app_def demo_main_def demo_backend_def demo_template_def
        create_backend_def io_bind_def wait_until_gitea_instance_available_def make_ping_command_def
        string_compare_ci_def compare_ci_loop.simps toupper_def)
  then show ?thesis
    using spawn_no_leak [OF tracks, of demo_main demo_backend demo_template 1 "{#3#}"] by fastforce
qed

text \<open>
  C31. Waiting for the network never times out: as long as the clock does not go back before the start,
  the error it reports is not the time-out, and when every ping fails and nobody stops the program
  it does not return at all, for any number of turns.
\<close>

theorem network_wait_never_times_out:
  assumes "0 < timeout" "\<And>s. t0 \<le> fst (now A s)"
  shows "(case ping_loop A m host cmd timeout t0 out fuel s of
        Some (Inr (Inl e), s') \<Rightarrow>
          e = Error ''Shutting down'' \<or>
          (\<exists>why. e = Error (''Failed to execute ping command for host '' @ host @ '' in machine '' @ get_id A m @ '': '' @ why))
      | _ \<Rightarrow> True) \<and>
    ((\<forall>s. \<not> fst (stop_signalled A s)) \<and>
     (\<forall>t s. \<exists>out k. k \<noteq> 0 \<and> fst (shell_exec A m cmd t s) = Inr (Inr \<lparr>exit_code = k, spawn_output = out\<rparr>)) \<longrightarrow>
      ping_loop A m host cmd timeout t0 out fuel s = None)"
proof -
  have "case ping_loop A m host cmd timeout t0 out fuel s of Some (Inr (Inl e), s') \<Rightarrow>
      e = Error ''Shutting down'' \<or>
      (\<exists>why. e = Error (''Failed to execute ping command for host '' @ host @ '' in machine '' @ get_id A m @ '': '' @ why)) | _ \<Rightarrow> True"
    using ping_loop_no_timeout [OF assms, of m host cmd out fuel s] by (auto split: option.split sum.split)
  moreover have "(\<forall>s. \<not> fst (stop_signalled A s)) \<Longrightarrow>
     (\<forall>t s. \<exists>out k. k \<noteq> 0 \<and> fst (shell_exec A m cmd t s) = Inr (Inr \<lparr>exit_code = k, spawn_output = out\<rparr>)) \<Longrightarrow>
      ping_loop A m host cmd timeout t0 out fuel s = None"
    using ping_loop_forever [OF assms, of m cmd host out fuel s] by blast
  ultimately show ?thesis
    by blast
qed

theorem network_wait_never_times_out_witness:
  "ping_loop (demo_app mute_forge (\<lambda>s :: nat. (False, s))) 7 ''h'' [''ping''] 120 0 [] 1000 0 = None"
proof -
  let ?A = "demo_app mute_forge (\<lambda>s :: nat. (False, s))"
  have "(\<forall>s. \<not> fst (stop_signalled ?A s)) \<and>
     (\<forall>t s. \<exists>out k. k \<noteq> 0 \<and> fst (shell_exec ?A 7 [''ping''] t s) = Inr (Inr \<lparr>exit_code = k, spawn_output = out\<rparr>))"
    "\<And>s. 0 \<le> fst (now ?A s)" "(0 :: int) < 120"
    by (simp_all add: demo_app_def)
  with network_wait_never_times_out [of 120 0 ?A] show ?thesis
    by blast
qed






text \<open>
  A task whose execution fails is reported as failed, by exactly one request, before the machine is
  deactivated, and the iteration goes on without an error; a task that succeeds causes no request.
\<close>

theorem failed_task_reported:
  assumes "curl (forge_api A) = logging cu" "m_client r = Some c"
    "update_task_request_codec (forge_api A) \<lparr>upd_id = parcel_id task, upd_result = Result_failure\<rparr> = Some payload"
    "execute_task_in_machine A task r tc m (pool_activate A m s) = (x, s1)"
    "run_task A tc r task m s = (y, s')"
  shows "\<exists>s2. s' = pool_deactivate A m s2 \<and>
     request_lines s2 = request_lines s1 @ (case x of Inr (Inl _) \<Rightarrow> [update_line c] | _ \<Rightarrow> []) \<and>
     (\<forall>e. y \<noteq> Inr (Inl e))"
proof (cases "\<exists>e. x = Inr (Inl e)")
  case True
  then show ?thesis
    using assms(4,5) set_task_failed_lines [OF assms(1-3), of s1] set_task_failed_no_error [of "forge_api A" r task s1]
    by (auto simp: run_task_value split: prod.splits)
next
  case False
  then have "s' = pool_deactivate A m s1" "y = x"
    using assms(4,5) by (auto simp: run_task_value split: sum.splits)
  with False show ?thesis
    by (intro exI [of _ s1]) (auto split: sum.split)
qed

theorem failed_task_reported_witness:
  "\<exists>s2. snd (run_task (demo_app demo_forge (\<lambda>s. (False, s))) demo_template demo_runner \<lparr>parcel_id = 5, parcel_data = []\<rparr> 7 ([], ())) = s2 \<and>
     request_lines s2 = [update_line \<lparr>m_instance_url = ''http://f'', m_credentials = \<lparr>cred_uuid = ''u'', cred_token = ''t''\<rparr>\<rparr>]"
proof -
  let ?A = "demo_app demo_forge (\<lambda>s. (False, s))" and ?task = "\<lparr>parcel_id = 5, parcel_data = []\<rparr>"
  let ?c = "\<lparr>m_instance_url = ''http://f'', m_credentials = \<lparr>cred_uuid = ''u'', cred_token = ''t''\<rparr>\<rparr>"
  have exec: "execute_task_in_machine ?A ?task demo_runner demo_template 7 (pool_activate ?A 7 ([], ())) =
      (Inr (Inl (Error ''Treating non-zero exit code as an error'')), ([], ()))"
    by (simp add: execute_task_in_machine_def injectables_generate_def inject_runner_files_def demo_app_def io_bind_def io_result_def)
  obtain y s' where run: "run_task ?A demo_template demo_runner ?task 7 ([], ()) = (y, s')"
    by (rule prod.exhaust)
  have "curl (forge_api ?A) = logging (\<lambda>t s. (Completed 200 [], s))" "m_client demo_runner = Some ?c"
    "update_task_request_codec (forge_api ?A) q = Some []" "pool_deactivate ?A 7 s = s" for q s
    by (simp_all add: demo_app_def demo_forge_def demo_runner_def runner_new_def)
  with failed_task_reported [OF _ _ _ exec run] show ?thesis
    by (simp add: run) (simp add: request_lines_def)
qed

text \<open>
  C15. A runner that was registered is removed: whatever happens between, once a runner is connected the
  last request of the iteration is the removal of its registration.
\<close>

theorem runner_unregistered:
  assumes "curl (forge_api A) = logging cu" "stop_signalled A s = (False, s1)"
    "create_runner A mc tc (admin_service_client url token) m s1 = (Inr (Inr r), s2)"
    "with_machine A mc tc (admin_service_client url token) m fuel s = Some (res, s')"
  shows "\<exists>before. request_lines s' = before @
     [(Del, http_path_join (http_path_join url ''/api/v1/admin'') (''/actions/runners/'' @ show_int (static_cast size_t (m_id r))))]"
proof -
  have r: "\<not> m_moved r" "m_admin r = Some (admin_service_client url token)"
    using connected_runner [OF assms(3) [unfolded create_runner_def]] by simp_all
  obtain x where x: "with_runner A tc r m fuel s2 = Some x" "s' = snd (destroy_runner_after A r x)"
    using assms(2-4) by (auto simp: with_machine_def)
  moreover have "snd (destroy_runner_after A r x) = snd (runner_destroy (forge_api A) r (snd x))"
    by (auto simp: destroy_runner_after_def io_finally_def split: prod.split sum.split)
  ultimately show ?thesis
    using destroy_lines [OF assms(1) r, of "snd x"] by metis
qed


lemma demo_connect_any:
  "\<exists>s'. runner_connect demo_forge opt demo_admin s = (Inr (Inr (runner_new 7 (opt_labels opt) (opt_forge_uri opt)
      \<lparr>cred_uuid = ''u'', cred_token = ''t''\<rparr>
      (Some \<lparr>m_instance_url = opt_forge_uri opt, m_credentials = \<lparr>cred_uuid = ''u'', cred_token = ''t''\<rparr>\<rparr>) (Some demo_admin))), s') \<and>
     fst s' \<noteq> []"
proof -
  have codecs: "json_token demo_forge b = Inr ''T''" "ping_request demo_forge q = Some []"
    "register_request_codec demo_forge q' = Some []" "declare_request_codec demo_forge q'' = Some []"
    "ping_response demo_forge b n = Some ()" "declare_response demo_forge b n = Some ()"
    "register_response demo_forge b n = Some \<lparr>rr_id = 7, rr_uuid = ''u'', rr_token = ''t''\<rparr>" for b q q' q'' n
    by (simp_all add: demo_forge_def)
  show ?thesis
    unfolding runner_connect_def Let_def get_registration_token_def ping_internal_def register_internal_def
      declare_internal_def service_ping_def service_register_def service_declare_def send_post_request_def http_post_def
      encode_payload_def decode_payload_def
    by (simp add: io_bind_def io_result_def io_wrap_error_def io_or_else_def demo_http_send codecs
        runner_new_def set_credentials_def runner_service_client_new_def)
qed

text \<open>The program is stopped as soon as a request has been made.\<close>

theorem runner_unregistered_witness:
  "\<exists>before res s'.
     with_machine (demo_app demo_forge (\<lambda>s. (fst s \<noteq> [], s))) demo_main demo_template demo_admin 7 0 ([], ()) = Some (res, s') \<and>
     request_lines s' = before @
       [(Del, http_path_join (http_path_join ''http://f'' ''/api/v1/admin'') (''/actions/runners/'' @ show_int (static_cast size_t 7)))]"
proof -
  let ?A = "demo_app demo_forge (\<lambda>s :: transfer list \<times> unit. (fst s \<noteq> [], s))"
  have admin: "demo_admin = admin_service_client ''http://f'' ''secret''"
    by (simp add: demo_admin_def)
  have A: "curl (forge_api ?A) = logging (\<lambda>t s. (Completed 200 [], s))" "stop_signalled ?A ([], ()) = (False, ([], ()))"
    by (simp_all add: demo_app_def demo_forge_def)
  obtain r s2 where r: "create_runner ?A demo_main demo_template demo_admin 7 ([], ()) = (Inr (Inr r), s2)" "m_id r = 7" "fst s2 \<noteq> []"
    using demo_connect_any [of _ "([], ())"] by (fastforce simp: create_runner_def demo_app_def runner_new_def)
  then have "with_runner ?A demo_template r 7 0 s2 = Some (Inr (Inl (Error ''Runner loop shutting down'')), s2)"
    by (simp add: with_runner_def demo_app_def)
  with r A(2) obtain res s' where run: "with_machine ?A demo_main demo_template demo_admin 7 0 ([], ()) = Some (res, s')"
    by (cases "destroy_runner_after ?A r (Inr (Inl (Error ''Runner loop shutting down'')), s2)") (simp add: with_machine_def)
  from runner_unregistered [OF A r(1) [unfolded admin] run [unfolded admin], unfolded r(2)]
  obtain before where "request_lines s' = before @
       [(Del, http_path_join (http_path_join ''http://f'' ''/api/v1/admin'') (''/actions/runners/'' @ show_int (static_cast size_t 7)))]"
    by (rule exE)
  with run show ?thesis
    by (intro exI conjI)
qed

text \<open>An application whose pool operations are the views, and whose other operations leave the thread's machines alone.\<close>

definition thread_app :: "nat \<Rightarrow> ('m, 'w) surroundings \<Rightarrow> (('m, 'w) view, 'm, 't) app \<Rightarrow> bool" where
  "thread_app n E A \<longleftrightarrow>
     acquire A = view_acquire E \<and> pool_activate A = view_activate E \<and> pool_deactivate A = view_deactivate E \<and>
     pool_release A = view_release E \<and>
     (\<forall>H U. app_keeps (\<lambda>v. view_ok n E v \<and> v_mine v = H \<and> v_active v = U) A)"

lemma thread_app_serves: "thread_app n E A \<Longrightarrow> view.serves E n A"
  by (simp add: thread_app_def view.serves_def view.balanced_def [abs_def])

text \<open>
  C2. A runner thread gives back what it took. Whatever the other threads do, as long as they follow the
  pool's protocol and leave this thread's machines alone, after every iteration and at the end of
  the loop, also when it ends by a fault, the thread holds and has activated exactly the machines it
  held and had activated before, and the pool's invariant holds.
\<close>

theorem runner_gives_back:
  assumes "thread_app n E A" "view_ok n E v"
  shows "(case runner_loop_iteration A mc tc admin fuel v of None \<Rightarrow> True
       | Some (_, v') \<Rightarrow> view_ok n E v' \<and> v_mine v' = v_mine v \<and> v_active v' = v_active v) \<and>
     (case runner_loop A mc tc admin fuel turns v of None \<Rightarrow> True
       | Some (_, v') \<Rightarrow> view_ok n E v' \<and> v_mine v' = v_mine v \<and> v_active v' = v_active v)"
proof -
  have v: "view.balanced n E (v_mine v) (v_active v) v"
    using assms(2) by (simp add: view.balanced_def)
  note serves = thread_app_serves [OF assms(1)]
  show ?thesis
    using view.iteration_balanced [OF serves v, of mc tc admin fuel] view.loop_balanced [OF serves v, of mc tc admin fuel turns]
    by (auto simp: view.balanced_def split: option.split)
qed

text \<open>A thread on a pool with one idle machine; nobody else moves, and the forge cannot be reached.\<close>

definition still :: "(nat, nat) surroundings" where
  "still = \<lparr>others = (\<lambda>_ _ p w. (p, w)), patience = (\<lambda>_. 0)\<rparr>"

definition thread_demo :: "((nat, nat) view, nat, unit) app" where
  "thread_demo = (demo_app mute_forge (\<lambda>v. (False, v)))
     \<lparr>acquire := view_acquire still, pool_activate := view_activate still, pool_deactivate := view_deactivate still,
      pool_release := view_release still\<rparr>"

definition view_demo :: "(nat, nat) view" where
  "view_demo = \<lparr>v_pool = serving_pool, v_mine = {#}, v_active = {#}, v_outside = 0\<rparr>"

lemma thread_demo_ok: "thread_app 3 still thread_demo" "view_ok 3 still view_demo"
proof -
  show "thread_app 3 still thread_demo"
    by (simp add: thread_app_def thread_demo_def demo_app_def mute_forge_def app_keeps_def curl_keeps_def keeps_def)
  have "pool_inv 3 serving_pool"
    using serving_pool_reachable by (rule pool.inv_reachable)
  then show "view_ok 3 still view_demo"
    by (simp add: view_ok_def polite_def still_def agrees_def view_demo_def serving_pool_fields small_size)
qed

theorem runner_gives_back_witness:
  "\<exists>e v'. runner_loop_iteration thread_demo demo_main demo_template demo_admin 0 view_demo = Some (Inr (Inl e), v') \<and>
     v_mine v' = {#} \<and> v_active v' = {#}"
proof -
  have "\<exists>e v'. runner_loop_iteration thread_demo demo_main demo_template demo_admin 0 view_demo = Some (Inr (Inl e), v')"
    by (simp add: runner_loop_iteration_def thread_demo_def demo_app_def view_acquire_def still_def run_others_def view_demo_def
        acquire_turn_def should_stop_def serving_pool_fields acquire_enter_def with_machine_def create_runner_def
        runner_connect_def get_registration_token_def http_post_def io_bind_def http_send_def mute_forge_def Let_def)
  then show ?thesis
    using runner_gives_back [OF thread_demo_ok, of demo_main demo_template demo_admin 0 0] by (auto simp: view_demo_def)
qed

end
