(* ===== verification/EventLoop.thy ===== *)
theory EventLoop
  imports Prelude
begin

text \<open>
  \<^verbatim>\<open>EventLoopImpl\<close> of \<^verbatim>\<open>modules/virt/src/libvirt/libvirt.cpp\<close>: the thread that runs libvirt's
  event loop, its start, and the destructor that stops it. A step is one critical section of
  \<^verbatim>\<open>m_run_loop_state_mutex\<close>, one call of \<^verbatim>\<open>virEventRunDefaultImpl\<close>, or one notification; the waits of
  \<^verbatim>\<open>stop_loop\<close> are guarded by their predicates. The lemmas show that the thread never aborts, that the
  object is not destroyed under the thread, that its timer is removed, and that stopping ends.
\<close>

section \<open>State\<close>

datatype run_loop_state = Stopped | Starting | Running | Stopping

text \<open>Where the loop thread is, and where the code that owns the object is.\<close>

datatype loop_point = No_thread | At_entry | Notifies_start | At_check | At_poll | At_leave | Notifies_stop | Ended

datatype owner_point = Created | Registered | Launching | In_use | Stop_begins | Stop_waits | Joins | Unregisters | Gone

record event_loop =
  m_run_loop_state :: run_loop_state
  m_stop_event_id :: int
  loop_at :: loop_point
  owner_at :: owner_point
  timers :: "int list"
  aborted :: bool

definition event_loop_new :: event_loop where
  "event_loop_new = \<lparr>m_run_loop_state = Stopped, m_stop_event_id = -1, loop_at = No_thread, owner_at = Created, timers = [], aborted = False\<rparr>"

section \<open>Creation\<close>

text \<open>
  \<open>timer\<close> is what \<^verbatim>\<open>virEventAddTimeout\<close> returns. When a step of \<^verbatim>\<open>create\<close> fails, the object is
  destroyed.
\<close>

definition register_event_handlers :: "int \<Rightarrow> event_loop \<Rightarrow> unit result \<times> event_loop" where
  "register_event_handlers timer s =
     (if timer < 0 then (Inl (Error ''Unable to register libvirt timeout event needed to stop run loop''), s)
      else (Inr (), s\<lparr>m_stop_event_id := timer, timers := timer # timers s\<rparr>))"

definition create_register :: "int \<Rightarrow> event_loop \<Rightarrow> event_loop" where
  "create_register timer s =
     (case register_event_handlers timer s of
        (Inl _, s') \<Rightarrow> s'\<lparr>owner_at := Stop_begins\<rparr>
      | (Inr _, s') \<Rightarrow> s'\<lparr>owner_at := Registered\<rparr>)"

definition start_begin :: "event_loop \<Rightarrow> event_loop" where
  "start_begin s = s\<lparr>m_run_loop_state := Starting, owner_at := Launching\<rparr>"

text \<open>The thread is created, or the constructor of \<^verbatim>\<open>std::jthread\<close> throws.\<close>

definition start_thread :: "bool \<Rightarrow> event_loop \<Rightarrow> event_loop" where
  "start_thread created s =
     (if created then s\<lparr>loop_at := At_entry, owner_at := In_use\<rparr>
      else s\<lparr>m_run_loop_state := Stopped, owner_at := Stop_begins\<rparr>)"

text \<open>\<^verbatim>\<open>get\<close>: the instance that is alive, or a new one; a failure leaves the weak pointer as it was.\<close>

definition get_instance :: "'a option \<Rightarrow> 'a result \<Rightarrow> 'a result \<times> 'a option" where
  "get_instance weak_instance created =
     (case weak_instance of
        Some i \<Rightarrow> (Inr i, Some i)
      | None \<Rightarrow> (created, (case created of Inr i \<Rightarrow> Some i | Inl _ \<Rightarrow> None)))"

section \<open>The loop thread\<close>

definition run_loop_enter :: "event_loop \<Rightarrow> event_loop" where
  "run_loop_enter s =
     (if m_run_loop_state s \<noteq> Starting then s\<lparr>aborted := True\<rparr>
      else s\<lparr>m_run_loop_state := Running, loop_at := Notifies_start\<rparr>)"

definition run_loop_check :: "event_loop \<Rightarrow> event_loop" where
  "run_loop_check s = s\<lparr>loop_at := if m_run_loop_state s \<noteq> Running then At_leave else At_poll\<rparr>"

definition run_loop_poll :: "int \<Rightarrow> event_loop \<Rightarrow> event_loop" where
  "run_loop_poll rc s = s\<lparr>loop_at := if rc < 0 then At_leave else At_check\<rparr>"

definition run_loop_leave :: "event_loop \<Rightarrow> event_loop" where
  "run_loop_leave s = s\<lparr>m_run_loop_state := Stopped, loop_at := Notifies_stop\<rparr>"

section \<open>The destructor\<close>

definition stop_loop_begin :: "event_loop \<Rightarrow> event_loop" where
  "stop_loop_begin s =
     (if m_run_loop_state s = Stopped then s\<lparr>owner_at := Joins\<rparr>
      else s\<lparr>m_run_loop_state := Stopping, owner_at := Stop_waits\<rparr>)"

definition unregister_event_handlers :: "event_loop \<Rightarrow> event_loop" where
  "unregister_event_handlers s =
     (let id = m_stop_event_id s; s' = s\<lparr>m_stop_event_id := -1\<rparr>
      in if id \<ge> 0 then s'\<lparr>timers := remove1 id (timers s')\<rparr> else s')"

inductive loop_step :: "event_loop \<Rightarrow> event_loop \<Rightarrow> bool" where
  register: "owner_at s = Created \<Longrightarrow> loop_step s (create_register timer s)"
| start: "owner_at s = Registered \<Longrightarrow> loop_step s (start_begin s)"
| launch: "owner_at s = Launching \<Longrightarrow> loop_step s (start_thread created s)"
| destroy: "owner_at s = In_use \<Longrightarrow> loop_step s (s\<lparr>owner_at := Stop_begins\<rparr>)"
| stop_begin: "owner_at s = Stop_begins \<Longrightarrow> m_run_loop_state s \<noteq> Starting \<Longrightarrow> loop_step s (stop_loop_begin s)"
| stop_end: "owner_at s = Stop_waits \<Longrightarrow> m_run_loop_state s = Stopped \<Longrightarrow> loop_step s (s\<lparr>owner_at := Joins\<rparr>)"
| join: "owner_at s = Joins \<Longrightarrow> loop_at s = No_thread \<or> loop_at s = Ended \<Longrightarrow> loop_step s (s\<lparr>owner_at := Unregisters\<rparr>)"
| unregister: "owner_at s = Unregisters \<Longrightarrow> loop_step s ((unregister_event_handlers s)\<lparr>owner_at := Gone\<rparr>)"
| enter: "loop_at s = At_entry \<Longrightarrow> \<not> aborted s \<Longrightarrow> loop_step s (run_loop_enter s)"
| notify_start: "loop_at s = Notifies_start \<Longrightarrow> loop_step s (s\<lparr>loop_at := At_check\<rparr>)"
| check: "loop_at s = At_check \<Longrightarrow> loop_step s (run_loop_check s)"
| poll: "loop_at s = At_poll \<Longrightarrow> loop_step s (run_loop_poll rc s)"
| leave: "loop_at s = At_leave \<Longrightarrow> loop_step s (run_loop_leave s)"
| notify_stop: "loop_at s = Notifies_stop \<Longrightarrow> loop_step s (s\<lparr>loop_at := Ended\<rparr>)"

inductive_cases loop_stepE: "loop_step s t"

abbreviation loop_reachable :: "event_loop \<Rightarrow> bool" where
  "loop_reachable \<equiv> reachable (\<lambda>s. s = event_loop_new) loop_step"

section \<open>The invariant\<close>

text \<open>Which states of the loop go with which points of the two threads.\<close>

definition points_ok :: "event_loop \<Rightarrow> bool" where
  "points_ok s =
     (case loop_at s of
        No_thread \<Rightarrow>
          (if owner_at s = Launching then m_run_loop_state s = Starting
           else m_run_loop_state s = Stopped \<and> owner_at s \<noteq> In_use \<and> owner_at s \<noteq> Stop_waits)
      | At_entry \<Rightarrow> m_run_loop_state s = Starting \<and> (owner_at s = In_use \<or> owner_at s = Stop_begins)
      | Notifies_stop \<Rightarrow> m_run_loop_state s = Stopped \<and> owner_at s \<in> {In_use, Stop_begins, Stop_waits, Joins}
      | Ended \<Rightarrow> m_run_loop_state s = Stopped \<and> owner_at s \<in> {In_use, Stop_begins, Stop_waits, Joins, Unregisters, Gone}
      | _ \<Rightarrow> (m_run_loop_state s = Running \<and> (owner_at s = In_use \<or> owner_at s = Stop_begins)) \<or>
            (m_run_loop_state s = Stopping \<and> owner_at s = Stop_waits))"

definition timer_ok :: "event_loop \<Rightarrow> bool" where
  "timer_ok s \<longleftrightarrow>
     timers s = (if 0 \<le> m_stop_event_id s then [m_stop_event_id s] else []) \<and>
     (owner_at s = Created \<or> owner_at s = Gone \<longrightarrow> m_stop_event_id s < 0)"

definition loop_inv :: "event_loop \<Rightarrow> bool" where
  "loop_inv s \<longleftrightarrow> \<not> aborted s \<and> points_ok s \<and> timer_ok s"

lemmas loop_ops = create_register_def register_event_handlers_def start_begin_def start_thread_def run_loop_enter_def
  run_loop_check_def run_loop_poll_def run_loop_leave_def stop_loop_begin_def unregister_event_handlers_def Let_def

lemma timer_ok_step: "timer_ok s \<Longrightarrow> loop_step s t \<Longrightarrow> timer_ok t"
  by (erule loop_stepE) (auto simp: timer_ok_def loop_ops split: if_splits)

lemma points_ok_step: "points_ok s \<Longrightarrow> loop_step s t \<Longrightarrow> points_ok t"
  by (erule loop_stepE) (auto simp: points_ok_def loop_ops split: if_splits loop_point.splits)

lemma abort_step: "points_ok s \<Longrightarrow> \<not> aborted s \<Longrightarrow> loop_step s t \<Longrightarrow> \<not> aborted t"
  by (erule loop_stepE) (auto simp: points_ok_def loop_ops split: if_splits)

interpretation loop: step_invariant "\<lambda>s. s = event_loop_new" loop_step loop_inv
proof unfold_locales
  show "loop_inv s" if "s = event_loop_new" for s
    using that by (simp add: loop_inv_def points_ok_def timer_ok_def event_loop_new_def)
  show "loop_inv t" if "loop_inv s" "loop_step s t" for s t
    using that points_ok_step timer_ok_step abort_step by (auto simp: loop_inv_def)
qed

section \<open>Stopping\<close>

text \<open>How many steps are left of each thread once stopping has been requested.\<close>

definition loop_left :: "loop_point \<Rightarrow> nat" where
  "loop_left p = (case p of Notifies_start \<Rightarrow> 5 | At_poll \<Rightarrow> 4 | At_check \<Rightarrow> 3 | At_leave \<Rightarrow> 2 | Notifies_stop \<Rightarrow> 1 | _ \<Rightarrow> 0)"

definition owner_left :: "owner_point \<Rightarrow> nat" where
  "owner_left p = (case p of Stop_waits \<Rightarrow> 3 | Joins \<Rightarrow> 2 | Unregisters \<Rightarrow> 1 | _ \<Rightarrow> 0)"

definition stop_measure :: "event_loop \<Rightarrow> nat" where
  "stop_measure s = loop_left (loop_at s) + owner_left (owner_at s)"

definition stop_requested :: "event_loop \<Rightarrow> bool" where
  "stop_requested s \<longleftrightarrow> owner_at s \<in> {Stop_waits, Joins, Unregisters}"

lemma stop_progress: "loop_inv s \<Longrightarrow> stop_requested s \<Longrightarrow> \<exists>t. loop_step s t"
  by (cases "loop_at s")
    (auto simp: loop_inv_def points_ok_def stop_requested_def intro: loop_step.intros)

lemma stop_decreases:
  "loop_inv s \<Longrightarrow> stop_requested s \<Longrightarrow> loop_step s t \<Longrightarrow> stop_measure t < stop_measure s \<and> (stop_requested t \<or> owner_at t = Gone)"
  by (erule loop_stepE)
    (auto simp: loop_inv_def points_ok_def stop_requested_def stop_measure_def loop_left_def owner_left_def loop_ops split: if_splits)

lemma loop_gone: "loop_inv s \<Longrightarrow> owner_at s = Gone \<Longrightarrow> \<not> loop_step s t"
  by (auto simp: loop_inv_def points_ok_def elim!: loop_stepE)

interpretation stopping: winding_down loop_step "\<lambda>s. loop_inv s \<and> (stop_requested s \<or> owner_at s = Gone)" stop_measure
  "\<lambda>s. owner_at s = Gone"
proof unfold_locales
  show "(loop_inv t \<and> (stop_requested t \<or> owner_at t = Gone)) \<and> stop_measure t < stop_measure s"
    if "loop_inv s \<and> (stop_requested s \<or> owner_at s = Gone)" "loop_step s t" for s t
    using that stop_decreases [of s t] loop_gone [of s t] loop.inv_step [of s t] by blast
  show "\<exists>t. loop_step s t" if "loop_inv s \<and> (stop_requested s \<or> owner_at s = Gone)" "owner_at s \<noteq> Gone" for s
    using that stop_progress by blast
qed

section \<open>Properties\<close>

text \<open>
  C9. The event loop is safe in every interleaving of its thread with the code that creates and
  destroys it: the thread never finds a state that makes it abort, while it can still touch the
  object the object exists, and once the destructor has ended no timer is left registered.
\<close>

theorem event_loop_safe:
  assumes "loop_reachable s"
  shows "\<not> aborted s \<and> (loop_at s \<noteq> No_thread \<and> loop_at s \<noteq> Ended \<longrightarrow> owner_at s \<noteq> Gone) \<and>
    (owner_at s = Gone \<longrightarrow> timers s = [])"
  using loop.inv_reachable [OF assms]
  by (auto simp: loop_inv_def points_ok_def timer_ok_def split: loop_point.splits if_splits)

text \<open>A run: the loop is started, polls once, and is stopped.\<close>

definition stopping_loop :: event_loop where
  "stopping_loop = event_loop_new\<lparr>m_run_loop_state := Stopping, m_stop_event_id := 4, loop_at := At_poll, owner_at := Stop_waits, timers := [4]\<rparr>"

lemma stopping_loop_reachable: "loop_reachable stopping_loop"
proof -
  let ?s1 = "create_register 4 event_loop_new"
  let ?s2 = "start_begin ?s1" let ?s3 = "start_thread True ?s2" let ?s4 = "run_loop_enter ?s3"
  let ?s5 = "?s4\<lparr>loop_at := At_check\<rparr>" let ?s6 = "run_loop_check ?s5" let ?s7 = "?s6\<lparr>owner_at := Stop_begins\<rparr>"
  note defs = loop_ops event_loop_new_def
  have "loop_reachable event_loop_new"
    by (simp add: reachable.reach_init)
  moreover have "loop_step event_loop_new ?s1"
    by (rule loop_step.register) (simp add: defs)
  moreover have "loop_step ?s1 ?s2"
    by (rule loop_step.start) (simp add: defs)
  moreover have "loop_step ?s2 ?s3"
    by (rule loop_step.launch) (simp add: defs)
  moreover have "loop_step ?s3 ?s4"
    by (rule loop_step.enter) (simp_all add: defs)
  moreover have "loop_step ?s4 ?s5"
    by (rule loop_step.notify_start) (simp add: defs)
  moreover have "loop_step ?s5 ?s6"
    by (rule loop_step.check) (simp add: defs)
  moreover have "loop_step ?s6 ?s7"
    by (rule loop_step.destroy) (simp add: defs)
  moreover have "loop_step ?s7 (stop_loop_begin ?s7)"
    by (rule loop_step.stop_begin) (simp_all add: defs)
  moreover have "stop_loop_begin ?s7 = stopping_loop"
    by (simp add: defs stopping_loop_def)
  ultimately show ?thesis
    by (metis reachable.reach_step)
qed

theorem event_loop_safe_witness: "\<not> aborted stopping_loop \<and> owner_at stopping_loop \<noteq> Gone"
  using event_loop_safe [OF stopping_loop_reachable] by (simp add: stopping_loop_def)

text \<open>
  C18. Stopping the event loop ends: the wait for its start is over after the first step of the
  thread, and once the stop has been requested every run takes at most eight more steps, among
  them at most one poll, and can only end with the destructor finished.
\<close>

theorem event_loop_stops:
  assumes "loop_reachable s"
  shows "(owner_at s = Stop_begins \<and> m_run_loop_state s = Starting \<longrightarrow>
      loop_at s = At_entry \<and> loop_step s (run_loop_enter s) \<and> m_run_loop_state (run_loop_enter s) = Running) \<and>
    (stop_requested s \<and> (loop_step ^^ n) s t \<longrightarrow> n \<le> 8 \<and> ((\<nexists>u. loop_step t u) \<longrightarrow> owner_at t = Gone))"
proof -
  have inv: "loop_inv s"
    using assms by (rule loop.inv_reachable)
  then have "loop_at s = At_entry \<and> \<not> aborted s" if "owner_at s = Stop_begins" "m_run_loop_state s = Starting"
    using that by (auto simp: loop_inv_def points_ok_def split: loop_point.splits if_splits)
  then have "owner_at s = Stop_begins \<and> m_run_loop_state s = Starting \<longrightarrow>
      loop_at s = At_entry \<and> loop_step s (run_loop_enter s) \<and> m_run_loop_state (run_loop_enter s) = Running"
    using loop_step.enter [of s] by (auto simp: run_loop_enter_def)
  moreover have "stop_measure s \<le> 8"
    by (auto simp: stop_measure_def loop_left_def owner_left_def split: loop_point.split owner_point.split)
  ultimately show ?thesis
    using stopping.run_ends [of s n t] inv by auto
qed

theorem event_loop_stops_witness:
  "\<exists>t. (loop_step ^^ 2) stopping_loop t \<and> (2 :: nat) \<le> 8 \<and> ((\<nexists>u. loop_step t u) \<longrightarrow> owner_at t = Gone)"
proof -
  let ?s1 = "run_loop_poll 0 stopping_loop"
  have "loop_step stopping_loop ?s1"
    by (rule loop_step.poll) (simp add: stopping_loop_def)
  moreover have "loop_step ?s1 (run_loop_check ?s1)"
    by (rule loop_step.check) (simp add: run_loop_poll_def)
  ultimately have "(loop_step ^^ 2) stopping_loop (run_loop_check ?s1)"
    by (auto simp: numeral_2_eq_2)
  moreover have "stop_requested stopping_loop"
    by (simp add: stopping_loop_def stop_requested_def)
  ultimately show ?thesis
    using event_loop_stops [OF stopping_loop_reachable] by blast
qed

end
