(* ===== verification/Libvirt.thy ===== *)
theory Libvirt
  imports Config Base64 Effects
begin

text \<open>
  \<^verbatim>\<open>modules/virt/src/libvirt/libvirt.cpp\<close>: the connection to the hypervisor, the virtual machines,
  and the hypervisor that creates them and receives their events. libvirt itself is a parameter, the
  record \<open>libvirt\<close> of the functions the code calls, on the state of the outside; so is the JSON
  library. Handles are numbers; a handle kept in a \<^verbatim>\<open>std::unique_ptr\<close> is freed when its scope is
  left. The machine objects are kept under their domain names, which are new UUIDs.
\<close>

section \<open>JSON\<close>

datatype json = J_string string | J_int int | J_bool bool | J_array "json list" | J_object "(string \<times> json) list"

text \<open>
  \<^verbatim>\<open>boost::json::serialize\<close>, \<^verbatim>\<open>boost::json::parse\<close>, and the texts of the exceptions that its accessors
  and \<^verbatim>\<open>std::vector::at\<close> throw. \<open>Inl\<close> is the text of an exception.
\<close>

record json_library =
  json_serialize :: "json \<Rightarrow> string"
  json_parse :: "string \<Rightarrow> string + json"
  json_what :: string
  range_what :: string

definition as_object :: "json_library \<Rightarrow> json \<Rightarrow> string + (string \<times> json) list" where
  "as_object J j = (case j of J_object kvs \<Rightarrow> Inr kvs | _ \<Rightarrow> Inl (json_what J))"

definition as_int64 :: "json_library \<Rightarrow> json \<Rightarrow> string + int" where
  "as_int64 J j = (case j of J_int i \<Rightarrow> Inr i | _ \<Rightarrow> Inl (json_what J))"

definition as_bool :: "json_library \<Rightarrow> json \<Rightarrow> string + bool" where
  "as_bool J j = (case j of J_bool b \<Rightarrow> Inr b | _ \<Rightarrow> Inl (json_what J))"

definition as_string :: "json_library \<Rightarrow> json \<Rightarrow> string + string" where
  "as_string J j = (case j of J_string s \<Rightarrow> Inr s | _ \<Rightarrow> Inl (json_what J))"

definition json_at :: "json_library \<Rightarrow> (string \<times> json) list \<Rightarrow> string \<Rightarrow> string + json" where
  "json_at J kvs key = (case map_of kvs key of Some j \<Rightarrow> Inr j | None \<Rightarrow> Inl (json_what J))"

definition json_contains :: "(string \<times> json) list \<Rightarrow> string \<Rightarrow> bool" where
  "json_contains kvs key \<longleftrightarrow> map_of kvs key \<noteq> None"

text \<open>\<^verbatim>\<open>boost::json::parse(res).as_object().at("return")\<close>.\<close>

definition parse_return :: "json_library \<Rightarrow> string \<Rightarrow> string + json" where
  "parse_return J res = and_then (json_parse J res) (\<lambda>j. and_then (as_object J j) (\<lambda>kvs. json_at J kvs ''return''))"

section \<open>libvirt\<close>

text \<open>
  Functions that return a pointer return \<open>None\<close> for null. \<open>uuid\<close> and \<open>sleep_ms\<close> are
  \<^verbatim>\<open>utility::uuid\<close> and \<^verbatim>\<open>std::this_thread::sleep_for\<close>.
\<close>

record 'w libvirt =
  virConnectOpen :: "string \<Rightarrow> 'w \<Rightarrow> nat option \<times> 'w"
  virConnectClose :: "nat \<Rightarrow> 'w \<Rightarrow> 'w"
  virConnectRegisterCloseCallback :: "nat \<Rightarrow> 'w \<Rightarrow> int \<times> 'w"
  virConnectUnregisterCloseCallback :: "nat \<Rightarrow> 'w \<Rightarrow> 'w"
  virConnectGetVersion :: "nat \<Rightarrow> 'w \<Rightarrow> nat \<times> 'w"
  virConnectDomainEventRegisterAny :: "nat \<Rightarrow> nat \<Rightarrow> 'w \<Rightarrow> int \<times> 'w"
  virConnectDomainEventDeregisterAny :: "nat \<Rightarrow> int \<Rightarrow> 'w \<Rightarrow> 'w"
  virStoragePoolLookupByName :: "nat \<Rightarrow> string \<Rightarrow> 'w \<Rightarrow> nat option \<times> 'w"
  virStoragePoolRefresh :: "nat \<Rightarrow> 'w \<Rightarrow> 'w"
  virStoragePoolFree :: "nat \<Rightarrow> 'w \<Rightarrow> 'w"
  virStorageVolCreateXML :: "nat \<Rightarrow> string \<Rightarrow> 'w \<Rightarrow> nat option \<times> 'w"
  virStorageVolGetKey :: "nat \<Rightarrow> 'w \<Rightarrow> string option \<times> 'w"
  virStorageVolLookupByKey :: "nat \<Rightarrow> string \<Rightarrow> 'w \<Rightarrow> nat option \<times> 'w"
  virStorageVolDelete :: "nat \<Rightarrow> 'w \<Rightarrow> int \<times> 'w"
  virStorageVolFree :: "nat \<Rightarrow> 'w \<Rightarrow> 'w"
  virDomainCreateXML :: "nat \<Rightarrow> string \<Rightarrow> 32 word \<Rightarrow> 'w \<Rightarrow> nat option \<times> 'w"
  virDomainLookupByName :: "nat \<Rightarrow> string \<Rightarrow> 'w \<Rightarrow> nat option \<times> 'w"
  virDomainSetLifecycleAction :: "nat \<Rightarrow> nat \<Rightarrow> nat \<Rightarrow> 'w \<Rightarrow> int \<times> 'w"
  virDomainResume :: "nat \<Rightarrow> 'w \<Rightarrow> int \<times> 'w"
  virDomainDestroy :: "nat \<Rightarrow> 'w \<Rightarrow> int \<times> 'w"
  virDomainFree :: "nat \<Rightarrow> 'w \<Rightarrow> 'w"
  virDomainQemuAgentCommand :: "nat \<Rightarrow> string \<Rightarrow> int \<Rightarrow> 'w \<Rightarrow> string option \<times> 'w"
  virGetLastError :: "'w \<Rightarrow> (int \<times> string option) option"
  uuid :: "'w \<Rightarrow> string \<times> 'w"
  sleep_ms :: "int \<Rightarrow> 'w \<Rightarrow> 'w"

definition format_libvirt_error :: "(int \<times> string option) option \<Rightarrow> string" where
  "format_libvirt_error err =
     (case err of
        None \<Rightarrow> []
      | Some (code, text) \<Rightarrow>
          ''code = '' @ show_int code @ (case text of None \<Rightarrow> [] | Some m \<Rightarrow> ''; message: '' @ m))"

text \<open>\<^verbatim>\<open>string_replace\<close> always returns, since the pattern is not empty.\<close>

definition template_pattern :: "string \<Rightarrow> string" where
  "template_pattern key = ''${'' @ key @ ''}''"

definition expand_libvirt_xml_template :: "string \<Rightarrow> (string \<times> string) list \<Rightarrow> string" where
  "expand_libvirt_xml_template xml params =
     fold (\<lambda>(key, val) res. case string_replace res (template_pattern key) val of Some r \<Rightarrow> r | None \<Rightarrow> res) params xml"

section \<open>State\<close>

record lv_machine =
  m_volume_id :: string
  m_quit :: bool
  m_ready :: bool

text \<open>
  A hypervisor with its connection. \<open>machine_objects\<close> are the machine objects that exist, by domain
  name; \<open>tracked\<close> are the keys of \<^verbatim>\<open>m_machine_by_domain_name\<close>.
\<close>

record 'w hypervisor =
  m_uri :: string
  m_conn :: "nat option"
  m_event_handler_ids :: "int list"
  machine_objects :: "(string \<times> lv_machine) list"
  tracked :: "string list"
  outside :: 'w

definition call :: "('w \<Rightarrow> 'a \<times> 'w) \<Rightarrow> ('w hypervisor, 'a) io" where
  "call f s = (case f (outside s) of (a, w) \<Rightarrow> (Inr (Inr a), s\<lparr>outside := w\<rparr>))"

definition act :: "('w \<Rightarrow> 'w) \<Rightarrow> ('w hypervisor, unit) io" where
  "act f s = (Inr (Inr ()), s\<lparr>outside := f (outside s)\<rparr>)"

text \<open>\<^verbatim>\<open>if (!p) return std::unexpected{...}\<close> and \<^verbatim>\<open>if (rc < 0) return std::unexpected{...}\<close>.\<close>

definition non_null :: "string \<Rightarrow> 'a option \<Rightarrow> ('s, 'a) io" where
  "non_null what p = io_result (case p of None \<Rightarrow> Inl (Error what) | Some a \<Rightarrow> Inr a)"

definition check_rc :: "string \<Rightarrow> int \<Rightarrow> ('s, unit) io" where
  "check_rc what rc = io_result (if rc < 0 then Inl (Error what) else Inr ())"

section \<open>Connection\<close>

definition connection_connect :: "'w libvirt \<Rightarrow> ('w hypervisor, nat) io" where
  "connection_connect V s =
     io_bind (call (virConnectOpen V (m_uri s))) (non_null ''Failed to connect to hypervisor'') s"

definition connection_get :: "'w libvirt \<Rightarrow> ('w hypervisor, nat) io" where
  "connection_get V s =
     (case m_conn s of
        Some conn \<Rightarrow> (Inr (Inr conn), s)
      | None \<Rightarrow>
          io_bind (connection_connect V) (\<lambda>conn.
          io_bind (call (virConnectRegisterCloseCallback V conn)) (\<lambda>rc.
            if rc < 0
            then io_bind (act (virConnectClose V conn)) (\<lambda>_. io_result (Inl (Error ''Failed to register connection closed event handler'')))
            else (\<lambda>s'. (Inr (Inr conn), s'\<lparr>m_conn := Some conn\<rparr>)))) s)"

definition close_event_handler :: "'w libvirt \<Rightarrow> 'w hypervisor \<Rightarrow> 'w hypervisor" where
  "close_event_handler V s =
     (case m_conn s of None \<Rightarrow> s | Some conn \<Rightarrow> s\<lparr>m_conn := None, outside := virConnectClose V conn (outside s)\<rparr>)"

definition connection_destroy :: "'w libvirt \<Rightarrow> 'w hypervisor \<Rightarrow> 'w hypervisor" where
  "connection_destroy V s =
     (case m_conn s of
        None \<Rightarrow> s
      | Some conn \<Rightarrow> s\<lparr>m_conn := None, outside := virConnectClose V conn (virConnectUnregisterCloseCallback V conn (outside s))\<rparr>)"

section \<open>Machines\<close>

definition get_volume :: "'w libvirt \<Rightarrow> string \<Rightarrow> ('w hypervisor, nat) io" where
  "get_volume V volume_id =
     io_bind (connection_get V) (\<lambda>conn. io_bind (call (virStorageVolLookupByKey V conn volume_id))
       (non_null (''Unable to find volume by UUID: '' @ volume_id)))"

definition get_domain :: "'w libvirt \<Rightarrow> string \<Rightarrow> ('w hypervisor, nat) io" where
  "get_domain V name =
     io_bind (connection_get V) (\<lambda>conn. io_bind (call (virDomainLookupByName V conn name))
       (non_null (''Unable to find domain by name: '' @ name)))"

definition with_domain :: "'w libvirt \<Rightarrow> string \<Rightarrow> (nat \<Rightarrow> ('w hypervisor, 'a) io) \<Rightarrow> ('w hypervisor, 'a) io" where
  "with_domain V name body = io_bind (get_domain V name) (\<lambda>d. io_finally (body d) (act (virDomainFree V d)))"

text \<open>The destructor of \<^verbatim>\<open>MachineImpl\<close> deletes the volume if it can be found.\<close>

definition machine_impl_destroy :: "'w libvirt \<Rightarrow> string \<Rightarrow> ('w hypervisor, unit) io" where
  "machine_impl_destroy V volume_id =
     io_ignore (io_bind (get_volume V volume_id) (\<lambda>vol.
       io_bind (call (virStorageVolDelete V vol)) (\<lambda>_. act (virStorageVolFree V vol))))"

definition machine_resume :: "'w libvirt \<Rightarrow> string \<Rightarrow> ('w hypervisor, unit) io" where
  "machine_resume V name =
     with_domain V name (\<lambda>d. io_bind (call (virDomainResume V d)) (check_rc (''Failed to resume domain \"'' @ name @ ''\"'')))"

definition machine_kill :: "'w libvirt \<Rightarrow> string \<Rightarrow> ('w hypervisor, unit) io" where
  "machine_kill V name =
     with_domain V name (\<lambda>d. io_bind (call (virDomainDestroy V d)) (check_rc (''Failed to kill domain \"'' @ name @ ''\"'')))"

definition machine_is_ready :: "string \<Rightarrow> lv_machine \<Rightarrow> bool result" where
  "machine_is_ready name m =
     (if m_quit m then Inl (Error (''Domain \"'' @ name @ ''\" has decayed.'')) else Inr (m_ready m))"

text \<open>
  \<^verbatim>\<open>wait\<close> and \<^verbatim>\<open>wait_for_guest_agent\<close>: what they return when the machine is in this state, or \<open>None\<close>
  as long as they block.
\<close>

definition machine_wait :: "lv_machine \<Rightarrow> unit result option" where
  "machine_wait m = (if m_quit m then Some (Inr ()) else None)"

definition machine_wait_for_guest_agent :: "string \<Rightarrow> lv_machine \<Rightarrow> lv_machine \<Rightarrow> unit result option" where
  "machine_wait_for_guest_agent name before m =
     (if m_ready before then Some (Inr ())
      else if m_quit m \<or> m_ready m
      then Some (if m_quit m then Inl (Error (''Domain \"'' @ name @ ''\" decayed while waiting for guest agent'')) else Inr ())
      else None)"

definition notify_bad_state :: "lv_machine \<Rightarrow> lv_machine" where
  "notify_bad_state m = m\<lparr>m_quit := True\<rparr>"

definition notify_ready :: "lv_machine \<Rightarrow> lv_machine" where
  "notify_ready m = m\<lparr>m_ready := True\<rparr>"

section \<open>Files and commands through the guest agent\<close>

text \<open>The time-outs are \<^verbatim>\<open>VIR_DOMAIN_QEMU_AGENT_COMMAND_DEFAULT\<close> and \<^verbatim>\<open>VIR_DOMAIN_QEMU_AGENT_COMMAND_BLOCK\<close>.\<close>

definition agent_default :: int where "agent_default = -1"

definition agent_block :: int where "agent_block = -2"

definition agent_request :: "string \<Rightarrow> (string \<times> json) list \<Rightarrow> json" where
  "agent_request command arguments = J_object [(''execute'', J_string command), (''arguments'', J_object arguments)]"

definition agent :: "'w libvirt \<Rightarrow> json_library \<Rightarrow> nat \<Rightarrow> json \<Rightarrow> int \<Rightarrow> 'w hypervisor \<Rightarrow> string option \<times> 'w hypervisor" where
  "agent V J d req timeout s =
     (case virDomainQemuAgentCommand V d (json_serialize J req) timeout (outside s) of (res, w) \<Rightarrow> (res, s\<lparr>outside := w\<rparr>))"

definition file_open_request :: "string \<Rightarrow> json" where
  "file_open_request path = agent_request ''guest-file-open'' [(''path'', J_string path), (''mode'', J_string ''w'')]"

definition file_write_request :: "int \<Rightarrow> byte list \<Rightarrow> json" where
  "file_write_request handle content =
     agent_request ''guest-file-write'' [(''handle'', J_int handle), (''buf-b64'', J_string (bytes_string (base64_encode content)))]"

definition file_close_request :: "int \<Rightarrow> json" where
  "file_close_request handle = agent_request ''guest-file-close'' [(''handle'', J_int handle)]"

text \<open>The handle is read as a 64-bit number and kept in an \<^verbatim>\<open>int\<close>.\<close>

definition write_file_attempt ::
  "'w libvirt \<Rightarrow> json_library \<Rightarrow> nat \<Rightarrow> string \<Rightarrow> byte list \<Rightarrow> 'w hypervisor \<Rightarrow> (int option \<times> unit result) \<times> 'w hypervisor" where
  "write_file_attempt V J d path content s =
     (case agent V J d (file_open_request path) agent_default s of
        (None, s1) \<Rightarrow> ((None, Inl (Error ''Failed to open file on machine'')), s1)
      | (Some res, s1) \<Rightarrow>
          (case and_then (parse_return J res) (as_int64 J) of
             Inl what \<Rightarrow> ((None, Inl (Error (''Error while attempting to write file to machine: '' @ what))), s1)
           | Inr i \<Rightarrow>
               (let file_handle = static_cast int_t i
                in case agent V J d (file_write_request file_handle content) agent_default s1 of
                     (None, s2) \<Rightarrow> ((Some file_handle, Inl (Error ''Failed to write file to machine'')), s2)
                   | (Some _, s2) \<Rightarrow> ((Some file_handle, Inr ()), s2))))"

text \<open>
  The clean-up closes the file. It runs after the return value has been made, so what it assigns to
  \<^verbatim>\<open>error\<close> is lost.
\<close>

definition file_closer :: "'w libvirt \<Rightarrow> json_library \<Rightarrow> string \<Rightarrow> int option \<Rightarrow> 'w hypervisor \<Rightarrow> 'w hypervisor" where
  "file_closer V J name file_handle s =
     (case file_handle of
        None \<Rightarrow> s
      | Some h \<Rightarrow>
          (case get_domain V name s of
             (Inr (Inr d), s1) \<Rightarrow> snd (act (virDomainFree V d) (snd (agent V J d (file_close_request h) agent_default s1)))
           | (_, s1) \<Rightarrow> s1))"

definition machine_write_file :: "'w libvirt \<Rightarrow> json_library \<Rightarrow> string \<Rightarrow> string \<Rightarrow> byte list \<Rightarrow> ('w hypervisor, unit) io" where
  "machine_write_file V J name path content s =
     (case get_domain V name s of
        (Inl flt, s1) \<Rightarrow> (Inl flt, s1)
      | (Inr (Inl e), s1) \<Rightarrow> (Inr (Inl e), s1)
      | (Inr (Inr d), s1) \<Rightarrow>
          (case write_file_attempt V J d path content s1 of
             ((file_handle, r), s2) \<Rightarrow> (Inr r, file_closer V J name file_handle (snd (act (virDomainFree V d) s2)))))"

record lv_spawn_result =
  lv_exit_code :: int
  lv_output :: string

definition exec_request :: "string list \<Rightarrow> json" where
  "exec_request cmd =
     agent_request ''guest-exec''
       [(''path'', J_string (hd cmd)), (''arg'', J_array (map J_string (tl cmd))), (''capture-output'', J_string ''separated'')]"

definition exec_status_request :: "int \<Rightarrow> json" where
  "exec_status_request pid = agent_request ''guest-exec-status'' [(''pid'', J_int pid)]"

definition decoded :: "json_library \<Rightarrow> (string \<times> json) list \<Rightarrow> string \<Rightarrow> fault + string" where
  "decoded J status key =
     and_then (throwing (and_then (json_at J status key) (as_string J)))
       (\<lambda>text. transform (base64_decode (string_bytes text)) bytes_string)"

text \<open>
  The body of the polling loop after a reply: \<open>None\<close> while the process runs. Standard output comes
  first, then standard error with its mark.
\<close>

definition exec_outcome :: "json_library \<Rightarrow> string \<Rightarrow> fault + lv_spawn_result result option" where
  "exec_outcome J res =
     and_then (throwing (and_then (parse_return J res) (as_object J))) (\<lambda>status.
     and_then (throwing (and_then (json_at J status ''exited'') (as_bool J))) (\<lambda>exited.
       if \<not> exited then Inr None
       else if \<not> json_contains status ''exitcode'' then Inr (Some (Inl (Error ''Abnormal process termination'')))
       else
         and_then (throwing (and_then (json_at J status ''exitcode'') (as_int64 J))) (\<lambda>code.
         and_then (if json_contains status ''out-data'' then decoded J status ''out-data'' else Inr []) (\<lambda>out.
         and_then (if json_contains status ''err-data'' then decoded J status ''err-data'' else Inr []) (\<lambda>err.
           Inr (Some (Inr \<lparr>lv_exit_code = static_cast int_t code,
             lv_output = out @ (if json_contains status ''err-data''
                                then (if out \<noteq> [] then ''; '' else []) @ ''stderr: '' @ err else [])\<rparr>)))))))"

text \<open>The polling loop, with fuel: \<open>None\<close> means that it has not ended within \<open>fuel\<close> turns.\<close>

fun exec_loop ::
  "'w libvirt \<Rightarrow> json_library \<Rightarrow> nat \<Rightarrow> int \<Rightarrow> nat \<Rightarrow> 'w hypervisor \<Rightarrow> ((fault + lv_spawn_result result) \<times> 'w hypervisor) option" where
  "exec_loop V J d pid 0 s = None"
| "exec_loop V J d pid (Suc fuel) s =
     (case agent V J d (exec_status_request pid) agent_default s of
        (None, s1) \<Rightarrow>
          Some (Inr (Inl (Error (''Failed to get command execution status from machine: '' @
            format_libvirt_error (virGetLastError V (outside s1))))), s1)
      | (Some res, s1) \<Rightarrow>
          (case exec_outcome J res of
             Inl flt \<Rightarrow> Some (Inl flt, s1)
           | Inr None \<Rightarrow> exec_loop V J d pid fuel (snd (act (sleep_ms V 250) s1))
           | Inr (Some r) \<Rightarrow> Some (Inr r, s1)))"

definition exec_in_domain ::
  "'w libvirt \<Rightarrow> json_library \<Rightarrow> nat \<Rightarrow> string list \<Rightarrow> int option \<Rightarrow> nat \<Rightarrow> 'w hypervisor \<Rightarrow> ((fault + lv_spawn_result result) \<times> 'w hypervisor) option" where
  "exec_in_domain V J d cmd timeout fuel s =
     (if cmd = [] then Some (Inl (Throw (range_what J)), s)
      else case agent V J d (exec_request cmd) (case timeout of Some t \<Rightarrow> static_cast int_t t | None \<Rightarrow> agent_block) s of
             (None, s1) \<Rightarrow>
               Some (Inr (Inl (Error (''Failed to execute command in machine: '' @ format_libvirt_error (virGetLastError V (outside s1))))), s1)
           | (Some res, s1) \<Rightarrow>
               (case and_then (and_then (parse_return J res) (as_object J))
                       (\<lambda>kvs. and_then (json_at J kvs ''pid'') (as_int64 J)) of
                  Inl what \<Rightarrow> Some (Inl (Throw what), s1)
                | Inr pid \<Rightarrow> exec_loop V J d pid fuel s1))"

text \<open>The handler around the execution, and the end of the scope of the domain.\<close>

definition end_exec ::
  "'w libvirt \<Rightarrow> nat \<Rightarrow> (fault + lv_spawn_result result) \<times> 'w hypervisor \<Rightarrow> (fault + lv_spawn_result result) \<times> 'w hypervisor" where
  "end_exec V d x =
     io_finally (io_catch ''Error while attempting to execute command in machine: '' (\<lambda>_. x)) (act (virDomainFree V d)) (snd x)"

definition machine_shell_exec ::
  "'w libvirt \<Rightarrow> json_library \<Rightarrow> string \<Rightarrow> string list \<Rightarrow> int option \<Rightarrow> nat \<Rightarrow> 'w hypervisor \<Rightarrow> ((fault + lv_spawn_result result) \<times> 'w hypervisor) option" where
  "machine_shell_exec V J name cmd timeout fuel s =
     (if (case timeout of Some t \<Rightarrow> t < 1 | None \<Rightarrow> False) then Some (Inr (Inl (Error ''Timeout must be >= 1s'')), s)
      else case get_domain V name s of
             (Inl flt, s1) \<Rightarrow> Some (Inl flt, s1)
           | (Inr (Inl e), s1) \<Rightarrow> Some (Inr (Inl e), s1)
           | (Inr (Inr d), s1) \<Rightarrow>
               map_option (end_exec V d) (exec_in_domain V J d cmd timeout fuel s1))"

section \<open>Hypervisor\<close>

record spawn_options =
  so_volume :: string
  so_domain :: string
  so_storage_pool :: string

text \<open>90 is \<^verbatim>\<open>VIR_ERR_STORAGE_VOL_EXIST\<close>.\<close>

definition create_volume :: "'w libvirt \<Rightarrow> string \<Rightarrow> string \<Rightarrow> ('w hypervisor, nat) io" where
  "create_volume V volume_xml pool_name =
     io_bind (connection_get V) (\<lambda>conn.
     io_bind (io_bind (call (virStoragePoolLookupByName V conn pool_name))
                (non_null (''Failed to find storage pool by name \"'' @ pool_name @ ''\"''))) (\<lambda>pool.
       io_finally
         (io_bind (call (virStorageVolCreateXML V pool volume_xml)) (\<lambda>volume.
          io_bind (call (\<lambda>w. (virGetLastError V w, w))) (\<lambda>err.
          io_bind
            (if volume = None \<and> (case err of Some (code, _) \<Rightarrow> code = 90 | None \<Rightarrow> False)
             then io_bind (act (virStoragePoolRefresh V pool)) (\<lambda>_. call (virStorageVolCreateXML V pool volume_xml))
             else io_result (Inr volume))
            (non_null ''Failed to create volume''))))
         (act (virStoragePoolFree V pool))))"

text \<open>The actions for power-off, reboot and crash (0, 1, 2) are set to \<^verbatim>\<open>VIR_DOMAIN_LIFECYCLE_ACTION_DESTROY\<close> (0).\<close>

fun set_lifecycle_actions :: "'w libvirt \<Rightarrow> nat \<Rightarrow> string \<Rightarrow> nat list \<Rightarrow> ('w hypervisor, unit) io" where
  "set_lifecycle_actions V domain name [] = io_result (Inr ())"
| "set_lifecycle_actions V domain name (lifecycle # rest) =
     io_bind (io_bind (call (virDomainSetLifecycleAction V domain lifecycle 0))
       (check_rc (''Failed to set lifecycle '' @ show_nat lifecycle @ '' action 0 for domain \"'' @ name @ ''\"'')))
       (\<lambda>_. set_lifecycle_actions V domain name rest)"

text \<open>\<^verbatim>\<open>emplace\<close> keeps an entry that exists and destroys the new object.\<close>

definition emplace_machine :: "'w libvirt \<Rightarrow> string \<Rightarrow> string \<Rightarrow> ('w hypervisor, unit) io" where
  "emplace_machine V name volume_id s =
     (if name \<in> set (tracked s) then machine_impl_destroy V volume_id s
      else (Inr (Inr ()), s\<lparr>tracked := name # tracked s,
              machine_objects := (name, \<lparr>m_volume_id = volume_id, m_quit = False, m_ready = False\<rparr>) # machine_objects s\<rparr>))"

definition domain_flags :: "nat \<Rightarrow> 32 word" where
  "domain_flags libvirt_version = (if libvirt_version \<ge> 8001000 then or 1 (push_bit 5 1) else 1)"

definition hypervisor_spawn :: "'w libvirt \<Rightarrow> spawn_options \<Rightarrow> ('w hypervisor, string) io" where
  "hypervisor_spawn V options =
     io_bind (connection_get V) (\<lambda>conn.
     io_bind (call (uuid V)) (\<lambda>domain_name.
     io_bind (create_volume V (expand_libvirt_xml_template (so_volume options) [(''DOMAIN_NAME'', domain_name)]) (so_storage_pool options)) (\<lambda>vol.
       io_finally
         (io_bind (io_bind (call (virStorageVolGetKey V vol)) (non_null ''Unable to get storage volume key'')) (\<lambda>volume_id.
          io_bind (call (virConnectGetVersion V conn)) (\<lambda>libvirt_version.
          io_bind (io_bind (call (virDomainCreateXML V conn
                      (expand_libvirt_xml_template (so_domain options) [(''DOMAIN_NAME'', domain_name)]) (domain_flags libvirt_version)))
                    (non_null (''Failed to create domain \"'' @ domain_name @ ''\"''))) (\<lambda>domain.
            io_finally
              (io_bind (set_lifecycle_actions V domain domain_name [0, 1, 2]) (\<lambda>_.
               io_bind (emplace_machine V domain_name volume_id) (\<lambda>_.
               io_bind (machine_resume V domain_name) (\<lambda>_. io_result (Inr domain_name)))))
              (act (virDomainFree V domain))))))
         (act (virStorageVolFree V vol)))))"

section \<open>Events\<close>

datatype lifecycle_event = Event_defined | Event_undefined | Event_started | Event_suspended | Event_resumed
  | Event_stopped | Event_shutdown | Event_pmsuspended | Event_crashed

datatype agent_state = Agent_connected | Agent_disconnected

fun update_object :: "string \<Rightarrow> ('a \<Rightarrow> 'a) \<Rightarrow> (string \<times> 'a) list \<Rightarrow> (string \<times> 'a) list" where
  "update_object name f [] = []"
| "update_object name f ((n, a) # rest) = (if n = name then (n, f a) # rest else (n, a) # update_object name f rest)"

text \<open>The domain of an event may have no name.\<close>

definition lifecycle_event_handler :: "string option \<Rightarrow> lifecycle_event \<Rightarrow> 'w hypervisor \<Rightarrow> 'w hypervisor" where
  "lifecycle_event_handler domain event s =
     (case domain of
        None \<Rightarrow> s
      | Some name \<Rightarrow>
          if event = Event_started \<or> event = Event_resumed then s
          else if name \<in> set (tracked s)
          then s\<lparr>machine_objects := update_object name notify_bad_state (machine_objects s), tracked := remove1 name (tracked s)\<rparr>
          else s)"

definition agent_lifecycle_event_handler :: "string option \<Rightarrow> agent_state \<Rightarrow> 'w hypervisor \<Rightarrow> 'w hypervisor" where
  "agent_lifecycle_event_handler domain state s =
     (case domain of
        None \<Rightarrow> s
      | Some name \<Rightarrow>
          if state \<noteq> Agent_connected then s
          else if name \<in> set (tracked s) then s\<lparr>machine_objects := update_object name notify_ready (machine_objects s)\<rparr>
          else s)"

section \<open>Creation and destruction of a hypervisor\<close>

text \<open>0 and 18 are the identifiers of the life-cycle and the agent events.\<close>

definition register_handler :: "'w libvirt \<Rightarrow> nat \<Rightarrow> nat \<Rightarrow> string \<Rightarrow> ('w hypervisor, unit) io" where
  "register_handler V conn event what =
     io_bind (call (virConnectDomainEventRegisterAny V conn event)) (\<lambda>cb_id.
       if cb_id < 0 then io_result (Inl (Error what))
       else (\<lambda>s. (Inr (Inr ()), s\<lparr>m_event_handler_ids := m_event_handler_ids s @ [cb_id]\<rparr>)))"

definition register_hypervisor_handlers :: "'w libvirt \<Rightarrow> ('w hypervisor, unit) io" where
  "register_hypervisor_handlers V =
     io_bind (connection_get V) (\<lambda>conn.
     io_bind (register_handler V conn 0 ''Failed to register domain lifecycle event handler'') (\<lambda>_.
       register_handler V conn 18 ''Failed to register agent lifecycle event handler''))"

fun deregister_handlers :: "'w libvirt \<Rightarrow> int list \<Rightarrow> ('w hypervisor, unit) io" where
  "deregister_handlers V [] = io_result (Inr ())"
| "deregister_handlers V (i # ids) =
     io_bind (io_ignore (io_bind (connection_get V) (\<lambda>conn. act (virConnectDomainEventDeregisterAny V conn i))))
       (\<lambda>_. deregister_handlers V ids)"

text \<open>The machines still tracked are destroyed with the map, the connection after them.\<close>

fun destroy_volumes :: "'w libvirt \<Rightarrow> string list \<Rightarrow> ('w hypervisor, unit) io" where
  "destroy_volumes V [] = io_result (Inr ())"
| "destroy_volumes V (v # vs) = io_bind (machine_impl_destroy V v) (\<lambda>_. destroy_volumes V vs)"

definition tracked_volumes :: "'w hypervisor \<Rightarrow> string list" where
  "tracked_volumes s = map m_volume_id (List.map_filter (\<lambda>n. map_of (machine_objects s) n) (tracked s))"

definition hypervisor_destroy :: "'w libvirt \<Rightarrow> ('w hypervisor, unit) io" where
  "hypervisor_destroy V s =
     (case io_bind (deregister_handlers V (rev (m_event_handler_ids s))) (\<lambda>_. destroy_volumes V (tracked_volumes s)) s of
        (r, s') \<Rightarrow> (r, connection_destroy V (s'\<lparr>tracked := [], machine_objects := [], m_event_handler_ids := []\<rparr>)))"

text \<open>\<^verbatim>\<open>EventLoopImpl::get\<close> comes first; when registering fails, the new object is destroyed.\<close>

definition hypervisor_new :: "string \<Rightarrow> 'w \<Rightarrow> 'w hypervisor" where
  "hypervisor_new uri w = \<lparr>m_uri = uri, m_conn = None, m_event_handler_ids = [], machine_objects = [], tracked = [], outside = w\<rparr>"

definition hypervisor_create :: "'w libvirt \<Rightarrow> unit result \<Rightarrow> string \<Rightarrow> 'w \<Rightarrow> (fault + unit result) \<times> 'w hypervisor" where
  "hypervisor_create V loop_res uri w =
     (case loop_res of
        Inl e \<Rightarrow> (Inr (Inl e), hypervisor_new uri w)
      | Inr _ \<Rightarrow>
          (case register_hypervisor_handlers V (hypervisor_new uri w) of
             (Inr (Inr _), s) \<Rightarrow> (Inr (Inr ()), s)
           | (r, s) \<Rightarrow> (case hypervisor_destroy V s of (Inl flt, s') \<Rightarrow> (Inl flt, s') | (Inr _, s') \<Rightarrow> (r, s'))))"

end
