(* ===== verification/Hypervisor.thy ===== *)
theory Hypervisor
  imports Libvirt "HOL-Library.Multiset"
begin

text \<open>
  Properties of the libvirt back end: what every operation keeps, the invariant of a hypervisor under
  operations and events in any order, files and commands through the guest agent, and what a failed
  creation leaves behind.
\<close>

section \<open>What the calls keep\<close>

text \<open>\<open>P\<close> is kept by every function of libvirt but those that open and close a connection.\<close>

definition calls_keep :: "'w libvirt \<Rightarrow> ('w hypervisor \<Rightarrow> bool) \<Rightarrow> bool" where
  "calls_keep V P \<longleftrightarrow>
     (\<forall>c. keeps P (call (virConnectRegisterCloseCallback V c))) \<and> (\<forall>c. keeps P (act (virConnectUnregisterCloseCallback V c))) \<and>
     (\<forall>c. keeps P (call (virConnectGetVersion V c))) \<and> (\<forall>c e. keeps P (call (virConnectDomainEventRegisterAny V c e))) \<and>
     (\<forall>c i. keeps P (act (virConnectDomainEventDeregisterAny V c i))) \<and>
     (\<forall>c n. keeps P (call (virStoragePoolLookupByName V c n))) \<and> (\<forall>p. keeps P (act (virStoragePoolRefresh V p))) \<and>
     (\<forall>p. keeps P (act (virStoragePoolFree V p))) \<and> (\<forall>p x. keeps P (call (virStorageVolCreateXML V p x))) \<and>
     (\<forall>v. keeps P (call (virStorageVolGetKey V v))) \<and> (\<forall>c k. keeps P (call (virStorageVolLookupByKey V c k))) \<and>
     (\<forall>v. keeps P (call (virStorageVolDelete V v))) \<and> (\<forall>v. keeps P (act (virStorageVolFree V v))) \<and>
     (\<forall>c x f. keeps P (call (virDomainCreateXML V c x f))) \<and> (\<forall>c n. keeps P (call (virDomainLookupByName V c n))) \<and>
     (\<forall>d l a. keeps P (call (virDomainSetLifecycleAction V d l a))) \<and> (\<forall>d. keeps P (call (virDomainResume V d))) \<and>
     (\<forall>d. keeps P (call (virDomainDestroy V d))) \<and> (\<forall>d. keeps P (act (virDomainFree V d))) \<and>
     (\<forall>d r t. keeps P (call (virDomainQemuAgentCommand V d r t))) \<and> keeps P (call (uuid V)) \<and> (\<forall>t. keeps P (act (sleep_ms V t)))"

lemma keeps_calls:
  assumes "calls_keep V P"
  shows "keeps P (call (virConnectRegisterCloseCallback V c))" "keeps P (act (virConnectUnregisterCloseCallback V c))"
    "keeps P (call (virConnectGetVersion V c))" "keeps P (call (virConnectDomainEventRegisterAny V c e))"
    "keeps P (act (virConnectDomainEventDeregisterAny V c i))"
    "keeps P (call (virStoragePoolLookupByName V c n))" "keeps P (act (virStoragePoolRefresh V p))"
    "keeps P (act (virStoragePoolFree V p))" "keeps P (call (virStorageVolCreateXML V p x))"
    "keeps P (call (virStorageVolGetKey V v))" "keeps P (call (virStorageVolLookupByKey V c n))"
    "keeps P (call (virStorageVolDelete V v))" "keeps P (act (virStorageVolFree V v))"
    "keeps P (call (virDomainCreateXML V c x f))" "keeps P (call (virDomainLookupByName V c n))"
    "keeps P (call (virDomainSetLifecycleAction V d l a))" "keeps P (call (virDomainResume V d))"
    "keeps P (call (virDomainDestroy V d))" "keeps P (act (virDomainFree V d))"
    "keeps P (call (virDomainQemuAgentCommand V d r t))" "keeps P (call (uuid V))" "keeps P (act (sleep_ms V t))"
  using assms by (simp_all add: calls_keep_def)

lemma keeps_pure [simp]: "keeps P (non_null w p)" "keeps P (check_rc w rc)" "keeps P (call (\<lambda>w. (f w, w)))"
  by (simp_all add: non_null_def check_rc_def keeps_def io_result_def call_def)

text \<open>The operations that go through a connection.\<close>

definition ops_keep :: "'w libvirt \<Rightarrow> ('w hypervisor \<Rightarrow> bool) \<Rightarrow> bool" where
  "ops_keep V P \<longleftrightarrow> calls_keep V P \<and> keeps P (connection_get V)"

lemma ops_keepD: "ops_keep V P \<Longrightarrow> calls_keep V P" "ops_keep V P \<Longrightarrow> keeps P (connection_get V)"
  by (simp_all add: ops_keep_def)

lemma keeps_lookups: "ops_keep V P \<Longrightarrow> keeps P (get_domain V name)" "ops_keep V P \<Longrightarrow> keeps P (get_volume V vid)"
  unfolding get_domain_def get_volume_def by (intro keeps_bind ops_keepD keeps_calls keeps_pure; assumption)+

lemma keeps_with_domain: "ops_keep V P \<Longrightarrow> (\<And>d. keeps P (body d)) \<Longrightarrow> keeps P (with_domain V name body)"
  unfolding with_domain_def by (intro keeps_bind keeps_finally keeps_lookups keeps_calls ops_keepD)

lemma keeps_machine_ops:
  assumes "ops_keep V P"
  shows "keeps P (machine_resume V name)" "keeps P (machine_kill V name)" "keeps P (machine_impl_destroy V vid)"
  unfolding machine_resume_def machine_kill_def machine_impl_destroy_def
  by (intro keeps_with_domain keeps_bind keeps_ignore keeps_lookups keeps_calls keeps_pure ops_keepD assms)+

lemma agent_keeps: "ops_keep V P \<Longrightarrow> P s \<Longrightarrow> P (snd (agent V J d req t s))"
  using keepsD [OF keeps_calls(20) [OF ops_keepD(1)], of V P s d "json_serialize J req" t]
  by (simp add: agent_def call_def split: prod.splits)

lemma file_ops_keep:
  assumes "ops_keep V P" "P s"
  shows "P (snd (write_file_attempt V J d path content s))" "P (file_closer V J name h s)"
proof -
  note ag = agent_keeps [OF assms(1)]
  show "P (snd (write_file_attempt V J d path content s))"
    using assms(2) ag by (auto simp: write_file_attempt_def Let_def split: prod.split option.split sum.split) (metis ag snd_conv)+
  have free: "P (snd (act (virDomainFree V d) s'))" if "P s'" for s' d
    using that keepsD [OF keeps_calls(19) [OF ops_keepD(1) [OF assms(1)]]] by blast
  have "P s1" if "get_domain V name s = (x, s1)" for x s1
    using keepsD [OF keeps_lookups(1) [OF assms(1)] assms(2), of name] that by simp
  then show "P (file_closer V J name h s)"
    using assms(2) by (auto simp: file_closer_def intro!: free ag split: option.split prod.split sum.split)
qed

lemma keeps_write_file:
  assumes "ops_keep V P"
  shows "keeps P (machine_write_file V J name path content)"
proof (rule keepsI)
  fix s assume "P s"
  have dom: "P s1" if "get_domain V name s = (x, s1)" for x s1
    using keepsD [OF keeps_lookups(1) [OF assms] \<open>P s\<close>, of name] that by simp
  have wrote: "P s2" if "write_file_attempt V J d path content s1 = (y, s2)" "P s1" for d s1 y s2
    using file_ops_keep(1) [OF assms that(2), of J d path content] that(1) by simp
  have "P (snd (act (virDomainFree V d) s'))" if "P s'" for s' d
    using that keepsD [OF keeps_calls(19) [OF ops_keepD(1) [OF assms]]] by blast
  then show "P (snd (machine_write_file V J name path content s))"
    using dom wrote
    by (auto simp: machine_write_file_def intro!: file_ops_keep(2) [OF assms] split: prod.split sum.split)
qed

lemma exec_loop_keeps:
  assumes "ops_keep V P"
  shows "exec_loop V J d pid fuel s = Some (r, s') \<Longrightarrow> P s \<Longrightarrow> P s'"
proof (induction fuel arbitrary: s)
  case (Suc fuel)
  obtain res s1 where ag: "agent V J d (exec_status_request pid) agent_default s = (res, s1)"
    by fastforce
  then have "P s1"
    using agent_keeps [OF assms Suc.prems(2)] by (metis snd_conv)
  moreover have "P (snd (act (sleep_ms V 250) s1))" if "P s1"
    using that keepsD [OF keeps_calls(22) [OF ops_keepD(1) [OF assms]]] by blast
  ultimately show ?case
    using Suc ag by (auto split: option.splits sum.splits)
qed simp

lemma exec_in_domain_keeps:
  assumes "ops_keep V P" "exec_in_domain V J d cmd timeout fuel s = Some (r, s')" "P s"
  shows "P s'"
proof -
  have "P s1" if "agent V J d req t s = (res, s1)" for req t res s1
    using agent_keeps [OF assms(1,3)] that by (metis snd_conv)
  then show ?thesis
    using assms(2,3) exec_loop_keeps [OF assms(1)]
    by (auto simp: exec_in_domain_def split: if_splits prod.splits option.splits sum.splits)
qed

lemma shell_exec_keeps:
  assumes "ops_keep V P" "machine_shell_exec V J name cmd timeout fuel s = Some (r, s')" "P s"
  shows "P s'"
proof -
  have dom: "P s1" if "get_domain V name s = (x, s1)" for x s1
    using keepsD [OF keeps_lookups(1) [OF assms(1)] assms(3), of name] that by simp
  have "P s3" if "end_exec V d x = (y, s3)" "P (snd x)" for x y d s3
    using that keepsD [OF keeps_calls(19) [OF ops_keepD(1) [OF assms(1)]], of "snd x" d]
    by (auto simp: end_exec_def io_finally_def io_catch_def act_def split: prod.splits sum.splits fault.splits)
  moreover have "P (snd x)" if "exec_in_domain V J d cmd timeout fuel s1 = Some x" "P s1" for d s1 x
    using exec_in_domain_keeps [OF assms(1), of J d cmd timeout fuel s1 "fst x" "snd x"] that by simp
  ultimately show ?thesis
    using assms(2,3) dom by (auto simp: machine_shell_exec_def split: if_splits prod.splits sum.splits)
qed

lemma keeps_create_volume: "ops_keep V P \<Longrightarrow> keeps P (create_volume V xml pool)"
  unfolding create_volume_def
  by (intro keeps_bind keeps_finally keeps_pure ops_keepD(2) keeps_calls ops_keepD(1))
    (auto intro!: keeps_bind keeps_calls ops_keepD)

lemma keeps_set_lifecycle: "ops_keep V P \<Longrightarrow> keeps P (set_lifecycle_actions V d name ls)"
  by (induction ls) (auto intro!: keeps_bind keeps_calls ops_keepD)

lemma keeps_spawn:
  assumes "ops_keep V P" "\<And>name vid. keeps P (emplace_machine V name vid)"
  shows "keeps P (hypervisor_spawn V options)"
  unfolding hypervisor_spawn_def
  by (intro keeps_bind keeps_finally keeps_create_volume keeps_pure keeps_set_lifecycle keeps_machine_ops
      keeps_calls keeps_result ops_keepD assms)

section \<open>Steps and the invariant\<close>

text \<open>
  Operations and events in any order. The names are UUIDs, so the objects that exist have different
  names.
\<close>

inductive hv_step :: "'w libvirt \<Rightarrow> json_library \<Rightarrow> 'w hypervisor \<Rightarrow> 'w hypervisor \<Rightarrow> bool" for V J where
  get: "connection_get V s = (r, s') \<Longrightarrow> hv_step V J s s'"
| spawn: "hypervisor_spawn V options s = (r', s') \<Longrightarrow> distinct (map fst (machine_objects s')) \<Longrightarrow> hv_step V J s s'"
| kill: "machine_kill V name s = (u, s') \<Longrightarrow> hv_step V J s s'"
| write_file: "machine_write_file V J name path content s = (u, s') \<Longrightarrow> hv_step V J s s'"
| shell_exec: "machine_shell_exec V J name cmd timeout fuel s = Some (x, s') \<Longrightarrow> hv_step V J s s'"
| connection_closed: "hv_step V J s (close_event_handler V s)"
| lifecycle: "hv_step V J s (lifecycle_event_handler d event s)"
| agent_lifecycle: "hv_step V J s (agent_lifecycle_event_handler d state s)"

inductive_cases hv_stepE: "hv_step V J s s'"

text \<open>\<open>conns\<close> are the connections that are open: \<open>B\<close> others, and the one of this object if it has one.\<close>

definition conn_ok :: "('w \<Rightarrow> nat multiset) \<Rightarrow> nat multiset \<Rightarrow> 'w hypervisor \<Rightarrow> bool" where
  "conn_ok conns B s \<longleftrightarrow> conns (outside s) = (case m_conn s of None \<Rightarrow> B | Some c \<Rightarrow> add_mset c B)"

definition tracks_connections :: "('w \<Rightarrow> nat multiset) \<Rightarrow> 'w libvirt \<Rightarrow> bool" where
  "tracks_connections conns V \<longleftrightarrow>
     (\<forall>u w. conns (snd (virConnectOpen V u w)) =
        (case fst (virConnectOpen V u w) of Some c \<Rightarrow> add_mset c (conns w) | None \<Rightarrow> conns w)) \<and>
     (\<forall>c w. conns (virConnectClose V c w) = conns w - {#c#}) \<and>
     (\<forall>B. calls_keep V (\<lambda>s. conns (outside s) = B))"

definition tracked_ok :: "'w hypervisor \<Rightarrow> bool" where
  "tracked_ok s \<longleftrightarrow> distinct (tracked s) \<and>
     (\<forall>n \<in> set (tracked s). \<exists>m. map_of (machine_objects s) n = Some m \<and> \<not> m_quit m)"

lemma call_fields [simp]:
  "m_conn (snd (call f s)) = m_conn s" "tracked (snd (call f s)) = tracked s" "machine_objects (snd (call f s)) = machine_objects s"
  "m_conn (snd (act g s)) = m_conn s" "tracked (snd (act g s)) = tracked s" "machine_objects (snd (act g s)) = machine_objects s"
  by (simp_all add: call_def act_def split: prod.split)

text \<open>A property that does not look at the outside is kept by every call.\<close>

lemma calls_keep_fields:
  assumes "\<And>s w. P (s\<lparr>outside := w\<rparr>) = P s"
  shows "calls_keep V P"
proof -
  have "keeps P (call f)" "keeps P (act g)" for f :: "'a \<Rightarrow> 'c \<times> 'a" and g
    by (auto simp: keeps_def call_def act_def assms split: prod.split)
  then show ?thesis
    by (simp add: calls_keep_def keeps_def call_def act_def assms split: prod.split)
qed

lemma keeps_call_conn:
  assumes "\<And>B. keeps (\<lambda>s. conns (outside s) = B) m" "\<And>s. m_conn (snd (m s)) = m_conn s"
  shows "keeps (conn_ok conns B) m"
  using assms by (auto simp: keeps_def conn_ok_def)

lemma calls_keep_conn: "tracks_connections conns V \<Longrightarrow> calls_keep V (conn_ok conns B)"
  unfolding tracks_connections_def
  by (auto simp: calls_keep_def intro!: keeps_call_conn)

lemma connection_get_conn:
  assumes "tracks_connections conns V"
  shows "keeps (conn_ok conns B) (connection_get V)"
proof (rule keepsI)
  fix s assume ok: "conn_ok conns B s"
  show "conn_ok conns B (snd (connection_get V s))"
  proof (cases "m_conn s")
    case None
    obtain c w1 where c: "virConnectOpen V (m_uri s) (outside s) = (c, w1)"
      by fastforce
    have w1: "conns w1 = (case c of Some c \<Rightarrow> add_mset c B | None \<Rightarrow> B)"
      using assms c ok None unfolding tracks_connections_def conn_ok_def by (metis fst_conv option.simps(4) snd_conv)
    have reg: "conns (snd (virConnectRegisterCloseCallback V k w)) = conns w" for k w
      using keepsD [OF keeps_calls(1), of V "\<lambda>s. conns (outside s) = conns w" "s\<lparr>outside := w\<rparr>" k] assms
      by (simp add: tracks_connections_def call_def split: prod.splits)
    have close: "conns (virConnectClose V k w) = conns w - {#k#}" for k w
      using assms by (simp add: tracks_connections_def)
    show ?thesis
      using None c w1 reg close
      by (auto simp: connection_get_def connection_connect_def io_bind_def call_def act_def non_null_def io_result_def conn_ok_def
          split: option.splits prod.splits) (metis snd_conv add_mset_remove_trivial)+
  next
    case (Some k)
    with ok show ?thesis
      by (simp add: connection_get_def)
  qed
qed

lemma ops_keep_conn: "tracks_connections conns V \<Longrightarrow> ops_keep V (conn_ok conns B)"
  by (simp add: ops_keep_def calls_keep_conn connection_get_conn)

lemma ops_keep_fields:
  assumes "\<And>s w. P (s\<lparr>outside := w\<rparr>) = P s" "\<And>s c. P (s\<lparr>m_conn := c\<rparr>) = P s"
  shows "ops_keep V P"
  unfolding ops_keep_def
proof
  show calls: "calls_keep V P"
    using assms(1) by (rule calls_keep_fields)
  show "keeps P (connection_get V)"
    by (rule keepsI) (auto simp: connection_get_def connection_connect_def io_bind_def call_def act_def non_null_def io_result_def assms
        split: option.split prod.split)
qed

lemma keeps_emplace_conn: "tracks_connections conns V \<Longrightarrow> keeps (conn_ok conns B) (emplace_machine V name vid)"
  using keepsD [OF keeps_machine_ops(3) [OF ops_keep_conn]]
  by (auto simp: keeps_def emplace_machine_def conn_ok_def)

lemma ops_keep_tracked: "ops_keep V tracked_ok"
  by (rule ops_keep_fields) (simp_all add: tracked_ok_def)

lemma keeps_emplace_tracked: "keeps tracked_ok (emplace_machine V name vid)"
  using keepsD [OF keeps_machine_ops(3) [OF ops_keep_tracked]]
  by (auto simp: keeps_def emplace_machine_def tracked_ok_def)

lemma map_of_update_object: "map_of (update_object name f xs) n = (if n = name then map_option f (map_of xs n) else map_of xs n)"
  by (induction name f xs rule: update_object.induct) auto

lemma tracked_ok_events:
  assumes "tracked_ok s"
  shows "tracked_ok (lifecycle_event_handler d event s)" "tracked_ok (agent_lifecycle_event_handler d state s)" "tracked_ok (close_event_handler V s)"
  using assms
  by (auto simp: tracked_ok_def lifecycle_event_handler_def agent_lifecycle_event_handler_def close_event_handler_def
      map_of_update_object notify_ready_def split: option.split)

lemma conn_ok_events:
  assumes "tracks_connections conns V" "conn_ok conns B s"
  shows "conn_ok conns B (lifecycle_event_handler d event s)" "conn_ok conns B (agent_lifecycle_event_handler d state s)"
    "conn_ok conns B (close_event_handler V s)"
  using assms
  by (auto simp: tracks_connections_def conn_ok_def lifecycle_event_handler_def agent_lifecycle_event_handler_def close_event_handler_def
      split: option.splits)

definition hv_inv :: "('w \<Rightarrow> nat multiset) \<Rightarrow> nat multiset \<Rightarrow> 'w libvirt \<Rightarrow> 'w hypervisor \<Rightarrow> bool" where
  "hv_inv conns B V s \<longleftrightarrow> tracks_connections conns V \<and> conn_ok conns B s \<and> tracked_ok s"

lemma step_keeps:
  assumes "ops_keep V P" "\<And>name vid. keeps P (emplace_machine V name vid)"
    "\<And>s. P s \<Longrightarrow> P (close_event_handler V s)" "\<And>s d e. P s \<Longrightarrow> P (lifecycle_event_handler d e s)"
    "\<And>s d st. P s \<Longrightarrow> P (agent_lifecycle_event_handler d st s)"
    "hv_step V J s s'" "P s"
  shows "P s'"
  using assms(6)
proof cases
  case get
  show ?thesis
    using keeps_run [OF ops_keepD(2) [OF assms(1)] get assms(7)] .
next
  case spawn
  show ?thesis
    using keeps_run [OF keeps_spawn [OF assms(1,2)] spawn(1) assms(7)] .
next
  case kill
  show ?thesis
    using keeps_run [OF keeps_machine_ops(2) [OF assms(1)] kill assms(7)] .
next
  case write_file
  show ?thesis
    using keeps_run [OF keeps_write_file [OF assms(1)] write_file assms(7)] .
next
  case shell_exec
  show ?thesis
    using shell_exec_keeps [OF assms(1) shell_exec assms(7)] .
qed (simp_all add: assms(3-5,7))

lemma hv_inv_step:
  assumes inv: "hv_inv conns B V s" and step: "hv_step V J s t"
  shows "hv_inv conns B V t"
proof -
  have tr: "tracks_connections conns V"
    using inv by (simp add: hv_inv_def)
  have "conn_ok conns B t"
    using step_keeps [OF ops_keep_conn [OF tr] keeps_emplace_conn [OF tr] conn_ok_events(3) [OF tr] conn_ok_events(1) [OF tr]
        conn_ok_events(2) [OF tr] step] inv by (simp add: hv_inv_def)
  moreover have "tracked_ok t"
    using step_keeps [OF ops_keep_tracked keeps_emplace_tracked tracked_ok_events(3) tracked_ok_events(1) tracked_ok_events(2) step]
      inv by (simp add: hv_inv_def)
  ultimately show ?thesis
    using tr by (simp add: hv_inv_def)
qed

interpretation hv: step_invariant "\<lambda>s. tracks_connections conns V \<and> s = hypervisor_new uri w" "hv_step V J" "hv_inv conns (conns w) V"
  for conns V J uri w
proof unfold_locales
  show "hv_inv conns (conns w) V s" if "tracks_connections conns V \<and> s = hypervisor_new uri w" for s
    using that by (simp add: hv_inv_def conn_ok_def tracked_ok_def hypervisor_new_def)
qed (rule hv_inv_step)

section \<open>Destruction\<close>

lemma keeps_teardown:
  assumes "ops_keep V P"
  shows "keeps P (io_bind (deregister_handlers V ids) (\<lambda>_. destroy_volumes V vols))"
proof -
  have "keeps P (deregister_handlers V ids)"
    by (induction ids) (auto intro!: keeps_bind keeps_ignore ops_keepD assms keeps_calls)
  moreover have "keeps P (destroy_volumes V vols)"
    by (induction vols) (auto intro!: keeps_bind keeps_machine_ops assms)
  ultimately show ?thesis
    by (intro keeps_bind)
qed

lemma destroy_conns:
  assumes "tracks_connections conns V" "conn_ok conns B s"
  shows "conns (outside (snd (hypervisor_destroy V s))) = B"
proof -
  obtain r s' where run: "io_bind (deregister_handlers V (rev (m_event_handler_ids s))) (\<lambda>_. destroy_volumes V (tracked_volumes s)) s = (r, s')"
    by fastforce
  have ok: "conn_ok conns B s'"
    using keeps_run [OF keeps_teardown [OF ops_keep_conn [OF assms(1)]] run assms(2)] .
  have "conns (virConnectUnregisterCloseCallback V k w) = conns w" for k w
    using keepsD [OF keeps_calls(2), of V "\<lambda>s. conns (outside s) = conns w" "s\<lparr>outside := w\<rparr>" k] assms(1)
    by (simp add: tracks_connections_def act_def)
  moreover have "conns (virConnectClose V k w) = conns w - {#k#}" for k w
    using assms(1) by (simp add: tracks_connections_def)
  ultimately show ?thesis
    using ok run by (simp add: hypervisor_destroy_def connection_destroy_def conn_ok_def split: option.splits)
qed

section \<open>Decayed machines\<close>

definition decayed :: "string \<Rightarrow> 'w hypervisor \<Rightarrow> bool" where
  "decayed name s \<longleftrightarrow> (\<exists>m. map_of (machine_objects s) name = Some m \<and> m_quit m)"

lemma spawn_grows:
  assumes "hypervisor_spawn V options s = (r, s')"
  shows "\<exists>ns. machine_objects s' = ns @ machine_objects s"
proof -
  let ?P = "\<lambda>t. \<exists>ns. machine_objects t = ns @ machine_objects s"
  have ops: "ops_keep V ?P"
    by (rule ops_keep_fields) simp_all
  have "keeps ?P (emplace_machine V name vid)" for name vid
    using keepsD [OF keeps_machine_ops(3) [OF ops]] by (auto simp: keeps_def emplace_machine_def intro: exI [of _ "[]"])
  then have "keeps ?P (hypervisor_spawn V options)"
    using ops by (intro keeps_spawn)
  then show ?thesis
    using assms by (rule keeps_run) (auto intro: exI [of _ "[]"])
qed

lemma map_of_distinct_append:
  "distinct (map fst (ns @ xs)) \<Longrightarrow> map_of xs k = Some v \<Longrightarrow> map_of (ns @ xs) k = Some v"
proof (induction ns)
  case (Cons n ns)
  have "k \<in> fst ` set xs"
    using Cons.prems(2) by (force dest: map_of_SomeD)
  then have "k \<noteq> fst n"
    using Cons.prems(1) by (metis append_Cons distinct.simps(2) image_set in_set_conv_decomp list.simps(9) map_append set_append UnCI)
  with Cons show ?case
    by (simp del: map_of_eq_Some_iff map_of_append)
qed simp

lemma decayed_step:
  assumes "decayed name s" "hv_step V J s s'"
  shows "decayed name s'"
proof -
  have fields: "ops_keep V (decayed name)"
    by (rule ops_keep_fields) (simp_all add: decayed_def)
  show ?thesis
    using assms(2)
  proof cases
    case get
    show ?thesis
      using keeps_run [OF ops_keepD(2) [OF fields] get assms(1)] .
  next
    case spawn
    obtain ns where "machine_objects s' = ns @ machine_objects s"
      using spawn_grows [OF spawn(1)] by blast
    with spawn(2) assms(1) show ?thesis
      unfolding decayed_def by (metis map_of_distinct_append)
  next
    case kill
    show ?thesis
      using keeps_run [OF keeps_machine_ops(2) [OF fields] kill assms(1)] .
  next
    case write_file
    show ?thesis
      using keeps_run [OF keeps_write_file [OF fields] write_file assms(1)] .
  next
    case shell_exec
    show ?thesis
      using shell_exec_keeps [OF fields shell_exec assms(1)] .
  qed (use assms(1) in \<open>auto simp: decayed_def close_event_handler_def lifecycle_event_handler_def agent_lifecycle_event_handler_def
        map_of_update_object notify_bad_state_def notify_ready_def split: option.split\<close>)
qed

lemma decayed_steps: "(hv_step V J)\<^sup>*\<^sup>* s s' \<Longrightarrow> decayed name s \<Longrightarrow> decayed name s'"
  by (induction rule: rtranclp_induct) (auto intro: decayed_step)

section \<open>Files\<close>





lemma static_cast_int: "in_type int_t h \<Longrightarrow> static_cast int_t h = h"
  by (simp add: static_cast_def in_type_def int_t_def type_min_def type_max_def signed_take_bit_int_eq_self)



section \<open>Commands\<close>

definition encoded_field :: "byte list option \<Rightarrow> json option" where
  "encoded_field x = map_option (\<lambda>bs. J_string (bytes_string (base64_encode bs))) x"

lemma decoded_field: "map_of status key = Some (J_string (bytes_string (base64_encode bs))) \<Longrightarrow> decoded J status key = Inr (bytes_string bs)"
  by (simp add: decoded_def json_at_def as_string_def throwing_def b64.dec_enc del: map_of_eq_Some_iff)

text \<open>
  The status of a command is polled without a limit: if the process never exits, the loop does not end,
  whatever time-out the command was given.
\<close>

lemma exec_polls_forever:
  assumes "\<And>s. \<exists>res. fst (agent V J d (exec_status_request pid) agent_default s) = Some res \<and> exec_outcome J res = Inr None"
  shows "exec_loop V J d pid fuel s = None"
proof (induction fuel arbitrary: s)
  case (Suc fuel)
  obtain res s1 where "agent V J d (exec_status_request pid) agent_default s = (Some res, s1)" "exec_outcome J res = Inr None"
    using assms [of s] by (metis prod.collapse)
  with Suc show ?case
    by simp
qed simp

section \<open>Examples\<close>

definition plain_libvirt :: "'w libvirt" where
  "plain_libvirt =
     \<lparr>virConnectOpen = (\<lambda>_ w. (Some 1, w)), virConnectClose = (\<lambda>_ w. w), virConnectRegisterCloseCallback = (\<lambda>_ w. (0, w)),
      virConnectUnregisterCloseCallback = (\<lambda>_ w. w), virConnectGetVersion = (\<lambda>_ w. (0, w)),
      virConnectDomainEventRegisterAny = (\<lambda>_ _ w. (3, w)), virConnectDomainEventDeregisterAny = (\<lambda>_ _ w. w),
      virStoragePoolLookupByName = (\<lambda>_ _ w. (Some 2, w)), virStoragePoolRefresh = (\<lambda>_ w. w), virStoragePoolFree = (\<lambda>_ w. w),
      virStorageVolCreateXML = (\<lambda>_ _ w. (Some 5, w)), virStorageVolGetKey = (\<lambda>_ w. (Some ''k'', w)),
      virStorageVolLookupByKey = (\<lambda>_ _ w. (Some 5, w)), virStorageVolDelete = (\<lambda>_ w. (0, w)), virStorageVolFree = (\<lambda>_ w. w),
      virDomainCreateXML = (\<lambda>_ _ _ w. (Some 6, w)), virDomainLookupByName = (\<lambda>_ _ w. (Some 6, w)),
      virDomainSetLifecycleAction = (\<lambda>_ _ _ w. (0, w)), virDomainResume = (\<lambda>_ w. (0, w)), virDomainDestroy = (\<lambda>_ w. (0, w)),
      virDomainFree = (\<lambda>_ w. w), virDomainQemuAgentCommand = (\<lambda>_ _ _ w. (None, w)), virGetLastError = (\<lambda>_. None),
      uuid = (\<lambda>w. (''u'', w)), sleep_ms = (\<lambda>_ w. w)\<rparr>"

text \<open>A world that is the multiset of open connections.\<close>

definition counting_libvirt :: "nat multiset libvirt" where
  "counting_libvirt = plain_libvirt\<lparr>virConnectOpen := (\<lambda>_ w. (Some 1, add_mset 1 w)), virConnectClose := (\<lambda>c w. w - {#c#})\<rparr>"

lemma counting_tracks: "tracks_connections (\<lambda>w. w) counting_libvirt"
  by (simp add: tracks_connections_def calls_keep_def keeps_def call_def act_def counting_libvirt_def plain_libvirt_def)

text \<open>A world of volumes, on a hypervisor that cannot start a domain.\<close>

definition domainless_libvirt :: "nat multiset libvirt" where
  "domainless_libvirt = plain_libvirt\<lparr>virStorageVolCreateXML := (\<lambda>_ _ w. (Some 5, add_mset 5 w)),
     virStorageVolDelete := (\<lambda>v w. (0, w - {#v#})), virDomainCreateXML := (\<lambda>_ _ _ w. (None, w))\<rparr>"

text \<open>When the domain cannot be created, the volume created for it stays and no object knows it.\<close>

lemma spawn_failure_leaks_volume:
  "\<exists>e s'. hypervisor_spawn domainless_libvirt \<lparr>so_volume = [], so_domain = [], so_storage_pool = []\<rparr> (hypervisor_new [] {#}) = (Inr (Inl e), s') \<and>
     outside s' = {#5#} \<and> machine_objects s' = []"
  by (simp add: hypervisor_spawn_def io_bind_def connection_get_def connection_connect_def hypervisor_new_def call_def act_def
      non_null_def io_result_def create_volume_def io_finally_def domainless_libvirt_def plain_libvirt_def)

text \<open>A guest with files: requests are abbreviated to their first letter and their text.\<close>

fun short_request :: "json \<Rightarrow> string" where
  "short_request (J_object [(_, J_string command), (_, J_object ((_, J_string path) # _))]) = CHR ''o'' # path"
| "short_request (J_object [(_, J_string command), (_, J_object [(_, J_int h), (_, J_string b64)])]) = CHR ''w'' # b64"
| "short_request _ = ''c''"

definition short_json :: json_library where
  "short_json = \<lparr>json_serialize = short_request, json_parse = (\<lambda>_. Inr (J_object [(''return'', J_int 0)])), json_what = [], range_what = []\<rparr>"




section \<open>Properties\<close>

text \<open>
  C3. Whatever operations, events and reconnections happen, a hypervisor has at most one connection open,
  the one it holds, and closes it when it is destroyed; the machines it tracks are distinct, exist,
  and none of them has decayed.
\<close>

theorem hypervisor_invariant:
  assumes "tracks_connections conns V" "reachable (\<lambda>s. tracks_connections conns V \<and> s = hypervisor_new uri w) (hv_step V J) s"
  shows "conns (outside s) = (case m_conn s of None \<Rightarrow> conns w | Some c \<Rightarrow> add_mset c (conns w)) \<and>
    conns (outside (snd (hypervisor_destroy V s))) = conns w \<and> distinct (tracked s) \<and>
    (\<forall>n \<in> set (tracked s). \<exists>m. map_of (machine_objects s) n = Some m \<and> machine_is_ready n m = Inr (m_ready m))"
  using hv.inv_reachable [OF assms(2)] destroy_conns [OF assms(1)]
  by (auto simp: hv_inv_def conn_ok_def tracked_ok_def machine_is_ready_def)

theorem hypervisor_invariant_witness:
  "m_conn (snd (connection_get counting_libvirt (hypervisor_new [] {#}))) = Some 1 \<and>
   outside (snd (connection_get counting_libvirt (hypervisor_new [] {#}))) = {#1#}"
proof -
  let ?s = "snd (connection_get counting_libvirt (hypervisor_new [] {#}))"
  have "hv_step counting_libvirt short_json (hypervisor_new [] {#}) ?s"
    by (rule hv_step.get [of _ _ "fst (connection_get counting_libvirt (hypervisor_new [] {#}))"]) simp
  then have "reachable (\<lambda>s. tracks_connections (\<lambda>w. w) counting_libvirt \<and> s = hypervisor_new [] {#}) (hv_step counting_libvirt short_json) ?s"
    by (rule reachable.reach_step [rotated]) (rule reachable.reach_init, simp add: counting_tracks)
  moreover have "m_conn ?s = Some 1"
    by (simp add: connection_get_def connection_connect_def io_bind_def call_def act_def non_null_def io_result_def hypervisor_new_def
        counting_libvirt_def plain_libvirt_def)
  ultimately show ?thesis
    using hypervisor_invariant [OF counting_tracks] by fastforce
qed

text \<open>
  C34. A machine that has decayed stays decayed: after an event that says its domain is no longer running,
  no later operation or event makes it ready, and asking for its state is an error.
\<close>

theorem decay_is_final:
  assumes "name \<in> set (tracked s)" "map_of (machine_objects s) name = Some m"
    "event \<noteq> Event_started" "event \<noteq> Event_resumed"
    "(hv_step V J)\<^sup>*\<^sup>* (lifecycle_event_handler (Some name) event s) s'"
  shows "\<exists>m'. map_of (machine_objects s') name = Some m' \<and>
    machine_is_ready name m' = Inl (Error (''Domain \"'' @ name @ ''\" has decayed.''))"
proof -
  have "decayed name (lifecycle_event_handler (Some name) event s)"
    using assms(1-4) by (auto simp: decayed_def lifecycle_event_handler_def map_of_update_object notify_bad_state_def)
  then have "decayed name s'"
    using decayed_steps [OF assms(5)] by blast
  then show ?thesis
    by (auto simp: decayed_def machine_is_ready_def)
qed

definition tracking :: "nat multiset hypervisor" where
  "tracking = (hypervisor_new [] {#})\<lparr>tracked := [''u''], machine_objects := [(''u'', \<lparr>m_volume_id = ''k'', m_quit = False, m_ready = False\<rparr>)]\<rparr>"

theorem decay_is_final_witness:
  "\<exists>m'. map_of (machine_objects (agent_lifecycle_event_handler (Some ''u'') Agent_connected
      (lifecycle_event_handler (Some ''u'') Event_stopped tracking))) ''u'' = Some m' \<and>
    machine_is_ready ''u'' m' = Inl (Error (''Domain \"'' @ ''u'' @ ''\" has decayed.''))"
proof -
  let ?s = "lifecycle_event_handler (Some ''u'') Event_stopped tracking"
  have "(hv_step counting_libvirt short_json)\<^sup>*\<^sup>* ?s (agent_lifecycle_event_handler (Some ''u'') Agent_connected ?s)"
    by (rule r_into_rtranclp) (rule hv_step.agent_lifecycle)
  then show ?thesis
    by (rule decay_is_final [rotated 4, where m = "\<lparr>m_volume_id = ''k'', m_quit = False, m_ready = False\<rparr>"]) (simp_all add: tracking_def)
qed



text \<open>
  The outcome of a command comes through unchanged: from the status of a process that has exited, the
  exit code and the bytes of standard output and standard error are recovered, in this order, with
  the error output marked.
\<close>

theorem command_output:
  assumes "json_parse J res = Inr (J_object kvs)" "map_of kvs ''return'' = Some (J_object status)"
    "map_of status ''exited'' = Some (J_bool True)" "map_of status ''exitcode'' = Some (J_int code)" "in_type int_t code"
    "map_of status ''out-data'' = encoded_field out" "map_of status ''err-data'' = encoded_field err"
  shows "exec_outcome J res = Inr (Some (Inr \<lparr>lv_exit_code = code,
    lv_output = (case out of Some bs \<Rightarrow> bytes_string bs | None \<Rightarrow> []) @
      (case err of Some es \<Rightarrow> (case out of Some (b # bs) \<Rightarrow> ''; '' | _ \<Rightarrow> []) @ ''stderr: '' @ bytes_string es | None \<Rightarrow> [])\<rparr>))"
proof -
  have status: "and_then (parse_return J res) (as_object J) = Inr status" "and_then (json_at J status ''exited'') (as_bool J) = Inr True"
    "and_then (json_at J status ''exitcode'') (as_int64 J) = Inr code" "json_contains status ''exitcode''"
    using assms(1-4) by (simp_all add: parse_return_def as_object_def json_at_def as_bool_def as_int64_def json_contains_def del: map_of_eq_Some_iff)
  have out: "json_contains status ''out-data'' \<longleftrightarrow> out \<noteq> None" "out = Some bs \<Longrightarrow> decoded J status ''out-data'' = Inr (bytes_string bs)" for bs
    using assms(6) decoded_field [of status "''out-data''" bs] by (auto simp: json_contains_def encoded_field_def simp del: map_of_eq_Some_iff)
  have err: "json_contains status ''err-data'' \<longleftrightarrow> err \<noteq> None" "err = Some bs \<Longrightarrow> decoded J status ''err-data'' = Inr (bytes_string bs)" for bs
    using assms(7) decoded_field [of status "''err-data''" bs] by (auto simp: json_contains_def encoded_field_def simp del: map_of_eq_Some_iff)
  have empty: "bytes_string bs = [] \<longleftrightarrow> bs = []" for bs
    by (simp add: bytes_string_def)
  note facts = exec_outcome_def status throwing_def static_cast_int [OF assms(5)] out err empty
  show ?thesis
    by (cases out; cases err) (simp_all add: facts split: list.split)
qed

theorem command_output_witness:
  "exec_outcome (short_json\<lparr>json_parse := (\<lambda>_. Inr (J_object [(''return'', J_object [(''exited'', J_bool True), (''exitcode'', J_int 3),
      (''out-data'', J_string (bytes_string (base64_encode [104, 105])))])]))\<rparr>) [] =
    Inr (Some (Inr \<lparr>lv_exit_code = 3, lv_output = bytes_string [104, 105]\<rparr>))"
proof -
  let ?status = "[(''exited'', J_bool True), (''exitcode'', J_int 3), (''out-data'', J_string (bytes_string (base64_encode [104, 105])))]"
  let ?J = "short_json\<lparr>json_parse := (\<lambda>_. Inr (J_object [(''return'', J_object ?status)]))\<rparr>"
  have "in_type int_t 3" "json_parse ?J [] = Inr (J_object [(''return'', J_object ?status)])"
    by (simp_all add: in_type_def int_t_def type_min_def type_max_def)
  moreover have "map_of ?status ''out-data'' = encoded_field (Some [104, 105])" "map_of ?status ''err-data'' = encoded_field None"
    by (simp_all add: encoded_field_def del: base64_encode.simps)
  ultimately show ?thesis
    using command_output [of ?J "[]" "[(''return'', J_object ?status)]" ?status 3 "Some [104, 105]" None]
    by (simp del: base64_encode.simps)
qed

text \<open>
  \<^verbatim>\<open>get\<close> hands out the handle it keeps, without a reference of its own: a close event that arrives before
  the caller has used it closes the connection under the caller.
\<close>

lemma connection_closed_under_user:
  assumes "tracks_connections conns V" "reachable (\<lambda>s. tracks_connections conns V \<and> s = hypervisor_new uri w) (hv_step V J) s"
    "connection_get V s = (Inr (Inr c), s1)" "c \<notin># conns w"
  shows "c \<in># conns (outside s1) \<and> c \<notin># conns (outside (close_event_handler V s1))"
proof -
  have "conn_ok conns (conns w) s"
    using hv.inv_reachable [OF assms(2)] by (simp add: hv_inv_def)
  then have "conn_ok conns (conns w) s1"
    using keepsD [OF connection_get_conn [OF assms(1)]] assms(3) by fastforce
  moreover have "m_conn s1 = Some c"
    using assms(3) by (auto simp: connection_get_def io_bind_def act_def io_result_def split: option.splits if_splits prod.splits sum.splits)
  ultimately show ?thesis
    using assms(1,4) by (simp add: conn_ok_def close_event_handler_def tracks_connections_def)
qed

end
