(* ===== verification/Backend.thy ===== *)
theory Backend
  imports Hypervisor Core
begin

text \<open>
  \<^verbatim>\<open>modules/virt/src/libvirt/backend.cpp\<close>: the machine and the back end that the application uses, on
  top of the hypervisor of \<open>Libvirt\<close>. yaml-cpp and the files are the parameters of \<open>Config\<close>.
  The lemmas show that waiting for the guest agent ends, what the back end does with its details, and
  that destroying a machine removes what was created for it.
\<close>

section \<open>Commands\<close>

text \<open>Its result is not used by \<^verbatim>\<open>shell_exec\<close>.\<close>

definition add_command_output_redirection :: "string \<Rightarrow> string list \<Rightarrow> string list result" where
  "add_command_output_redirection target_os args =
     (if string_compare_ci target_os ''linux'' = 0 \<or> string_compare_ci target_os ''macos'' = 0
      then Inr ([''sh'', ''-c'', ''exec \"$@\" >2&1''] @ args)
      else if string_compare_ci target_os ''windows'' = 0
      then Inr ([''powershell'', ''-NoProfile'', ''-NonInteractive'', ''-Command'', ''& @args 2>&1''] @ args)
      else Inl (Error (''Output redirection command not implemented for target OS '' @ target_os)))"

section \<open>Details\<close>

record template_details =
  domain_template_path :: string
  volume_template_path :: string
  storage_pool_name :: string

definition resolve_path :: "string \<Rightarrow> string \<Rightarrow> string" where
  "resolve_path config_dir p = (if is_relative p then path_append config_dir p else p)"

text \<open>\<^verbatim>\<open>catch (const std::exception& ex)\<close> around the loading of details.\<close>

definition catch_load :: "string \<Rightarrow> fault + 'a \<Rightarrow> fault + 'a result" where
  "catch_load what_failed r =
     (case r of Inr a \<Rightarrow> Inr (Inr a) | Inl (Throw what) \<Rightarrow> Inr (Inl (Error (what_failed @ what))) | Inl flt \<Rightarrow> Inl flt)"

definition load_template_details :: "'n yaml \<Rightarrow> string \<Rightarrow> string \<Rightarrow> fault + template_details result" where
  "load_template_details y details config_dir =
     catch_load ''Unable to parse Libvirt machine template details: ''
       (and_then (throwing (load_stream y details)) (\<lambda>n.
        and_then (child_string y n ''domain_template_path'') (\<lambda>domain_path.
        and_then (child_string y n ''volume_template_path'') (\<lambda>volume_path.
        and_then (child_string y n ''storage_pool_name'') (\<lambda>pool_name.
          Inr \<lparr>domain_template_path = resolve_path config_dir domain_path,
               volume_template_path = resolve_path config_dir volume_path, storage_pool_name = pool_name\<rparr>)))))"

definition load_pool_details :: "'n yaml \<Rightarrow> string \<Rightarrow> fault + string result" where
  "load_pool_details y details =
     catch_load ''Unable to parse Libvirt machine pool details: ''
       (and_then (throwing (load_stream y details)) (\<lambda>n. child_string y n ''hypervisor_uri''))"

section \<open>The machine\<close>

text \<open>A machine has a hypervisor of its own; its state is that of the hypervisor.\<close>

record libvirt_machine =
  lm_id :: string
  lm_info :: machine_info

definition lm_terminate :: "'w libvirt \<Rightarrow> libvirt_machine \<Rightarrow> ('w hypervisor, unit) io" where
  "lm_terminate V m = machine_kill V (lm_id m)"

definition lm_shell_exec ::
  "'w libvirt \<Rightarrow> json_library \<Rightarrow> libvirt_machine \<Rightarrow> string list \<Rightarrow> int option \<Rightarrow> nat \<Rightarrow> 'w hypervisor \<Rightarrow> ((fault + spawn_result result) \<times> 'w hypervisor) option" where
  "lm_shell_exec V J m cmd timeout fuel s =
     map_option
       (\<lambda>(r, s'). (transform r (\<lambda>x. transform x (\<lambda>res. \<lparr>exit_code = lv_exit_code res, spawn_output = lv_output res\<rparr>)), s'))
       (machine_shell_exec V J (lm_id m) cmd timeout fuel s)"

definition lm_write_file :: "'w libvirt \<Rightarrow> json_library \<Rightarrow> libvirt_machine \<Rightarrow> string \<Rightarrow> byte list \<Rightarrow> ('w hypervisor, unit) io" where
  "lm_write_file V J m remote_path content = machine_write_file V J (lm_id m) remote_path content"

text \<open>
  The shutdown signal, the steady clock in milliseconds, and sleeping, during which the event loop may
  deliver events.
\<close>

record 'w waiting =
  stop_signal :: "'w hypervisor \<Rightarrow> bool \<times> 'w hypervisor"
  clock :: "'w hypervisor \<Rightarrow> int \<times> 'w hypervisor"
  pause :: "int \<Rightarrow> 'w hypervisor \<Rightarrow> 'w hypervisor"

definition lm_is_ready :: "libvirt_machine \<Rightarrow> 'w hypervisor \<Rightarrow> fault + bool result" where
  "lm_is_ready m s =
     (case map_of (machine_objects s) (lm_id m) of None \<Rightarrow> Inl Undefined | Some obj \<Rightarrow> Inr (machine_is_ready (lm_id m) obj))"

fun guest_agent_loop ::
  "'w waiting \<Rightarrow> libvirt_machine \<Rightarrow> int \<Rightarrow> int \<Rightarrow> nat \<Rightarrow> 'w hypervisor \<Rightarrow> ((fault + unit result) \<times> 'w hypervisor) option" where
  "guest_agent_loop E m timeout start_time 0 s = None"
| "guest_agent_loop E m timeout start_time (Suc fuel) s =
     (case stop_signal E s of (sig, s1) \<Rightarrow>
        if sig then Some (Inr (Inl (Error ''Shutting down'')), s1)
        else (case lm_is_ready m s1 of
                Inl flt \<Rightarrow> Some (Inl flt, s1)
              | Inr (Inl e) \<Rightarrow> Some (Inr (Inl e), s1)
              | Inr (Inr True) \<Rightarrow> Some (Inr (Inr ()), s1)
              | Inr (Inr False) \<Rightarrow>
                  (case clock E s1 of (t, s2) \<Rightarrow>
                     if t - start_time \<ge> timeout
                     then Some (Inr (Inl (Error (''Timed out while waiting for machine '' @ lm_id m @ '' guest agent.''))), s2)
                     else guest_agent_loop E m timeout start_time fuel (pause E 200 s2))))"

text \<open>The public function takes seconds.\<close>

definition lm_wait_for_guest_agent ::
  "'w waiting \<Rightarrow> libvirt_machine \<Rightarrow> int \<Rightarrow> nat \<Rightarrow> 'w hypervisor \<Rightarrow> ((fault + unit result) \<times> 'w hypervisor) option" where
  "lm_wait_for_guest_agent E m timeout fuel s =
     (case clock E s of (start_time, s1) \<Rightarrow> guest_agent_loop E m (1000 * timeout) start_time fuel s1)"

text \<open>
  The destructor kills the domain, then gives up the machine object and the hypervisor. The object
  dies at once unless the hypervisor still tracks it, and with the hypervisor otherwise.
\<close>

definition release_object :: "'w libvirt \<Rightarrow> libvirt_machine \<Rightarrow> ('w hypervisor, unit) io" where
  "release_object V m s =
     (case map_of (machine_objects s) (lm_id m) of
        Some obj \<Rightarrow> if lm_id m \<in> set (tracked s) then io_result (Inr ()) else machine_impl_destroy V (m_volume_id obj)
      | None \<Rightarrow> io_result (Inr ())) s"

definition lm_destroy :: "'w libvirt \<Rightarrow> libvirt_machine \<Rightarrow> ('w hypervisor, unit) io" where
  "lm_destroy V m =
     io_bind (io_ignore (lm_terminate V m)) (\<lambda>_. io_bind (release_object V m) (\<lambda>_. hypervisor_destroy V))"

section \<open>The back end\<close>

text \<open>
  \<^verbatim>\<open>spawn\<close> connects a new hypervisor. An exception of \<^verbatim>\<open>fs::read_file\<close> is not caught: it leaves
  \<^verbatim>\<open>spawn\<close>, after the hypervisor has been destroyed. When the creation of the machine fails, the
  hypervisor is destroyed too.
\<close>

definition backend_attempt ::
  "'w libvirt \<Rightarrow> host \<Rightarrow> template_details \<Rightarrow> machine_info \<Rightarrow> ('w hypervisor, libvirt_machine) io" where
  "backend_attempt V h td mi s =
     (case and_then (read_file h (volume_template_path td)) (\<lambda>volume.
           and_then (read_file h (domain_template_path td)) (\<lambda>domain. Inr (volume, domain))) of
        Inl flt \<Rightarrow> (Inl flt, s)
      | Inr (volume, domain) \<Rightarrow>
          io_bind (hypervisor_spawn V \<lparr>so_volume = volume, so_domain = domain, so_storage_pool = storage_pool_name td\<rparr>)
            (\<lambda>name. io_result (Inr \<lparr>lm_id = name, lm_info = mi\<rparr>)) s)"

definition libvirt_backend_spawn ::
  "'w libvirt \<Rightarrow> 'n yaml \<Rightarrow> host \<Rightarrow> unit result \<Rightarrow> machine_info \<Rightarrow> string \<Rightarrow> string \<Rightarrow> string \<Rightarrow> 'w \<Rightarrow>
     (fault + libvirt_machine result) \<times> 'w hypervisor" where
  "libvirt_backend_spawn V y h loop_res mi pool_text template_text config_dir w =
     (case load_pool_details y pool_text of
        Inl flt \<Rightarrow> (Inl flt, hypervisor_new [] w)
      | Inr (Inl e) \<Rightarrow> (Inr (Inl e), hypervisor_new [] w)
      | Inr (Inr uri) \<Rightarrow>
          (case load_template_details y template_text config_dir of
             Inl flt \<Rightarrow> (Inl flt, hypervisor_new [] w)
           | Inr (Inl e) \<Rightarrow> (Inr (Inl e), hypervisor_new [] w)
           | Inr (Inr td) \<Rightarrow>
               (case hypervisor_create V loop_res uri w of
                  (Inl flt, s) \<Rightarrow> (Inl flt, s)
                | (Inr (Inl e), s) \<Rightarrow> (Inr (Inl e), s)
                | (Inr (Inr _), s) \<Rightarrow>
                    (case backend_attempt V h td mi s of
                       (Inr (Inr m), s') \<Rightarrow> (Inr (Inr m), s')
                     | (r, s') \<Rightarrow> (case hypervisor_destroy V s' of (Inl flt, s'') \<Rightarrow> (Inl flt, s'') | (Inr _, s'') \<Rightarrow> (r, s''))))))"

section \<open>Waiting\<close>

definition time_of :: "'w waiting \<Rightarrow> 'w hypervisor \<Rightarrow> int" where
  "time_of E s = fst (clock E s)"

text \<open>The clock does not go back, and sleeping for 200 ms takes at least that long.\<close>

definition time_passes :: "'w waiting \<Rightarrow> bool" where
  "time_passes E \<longleftrightarrow> (\<forall>s. time_of E s \<le> time_of E (snd (stop_signal E s))) \<and> (\<forall>s. time_of E s \<le> time_of E (snd (clock E s))) \<and>
     (\<forall>s. time_of E s + 200 \<le> time_of E (pause E 200 s))"

lemma guest_agent_loop_ends:
  assumes "time_passes E"
  shows "start_time + timeout \<le> time_of E s + 200 * int k \<Longrightarrow> guest_agent_loop E m timeout start_time (Suc k) s \<noteq> None"
proof (induction k arbitrary: s)
  case (Suc k)
  obtain sig s1 where sig: "stop_signal E s = (sig, s1)"
    by fastforce
  obtain t s2 where t: "clock E s1 = (t, s2)"
    by fastforce
  have "time_of E s \<le> time_of E s1" "time_of E s1 \<le> time_of E s2" "time_of E s2 + 200 \<le> time_of E (pause E 200 s2)"
    using assms sig t unfolding time_passes_def by (metis snd_conv)+
  then have "start_time + timeout \<le> time_of E (pause E 200 s2) + 200 * int k"
    using Suc.prems by simp
  then have "guest_agent_loop E m timeout start_time (Suc k) (pause E 200 s2) \<noteq> None"
    by (rule Suc.IH)
  with sig t show ?case
    by (auto split: sum.split bool.split simp del: guest_agent_loop.simps(2) simp: guest_agent_loop.simps(2) [of _ _ _ _ "Suc k"])
next
  case 0
  obtain sig s1 where sig: "stop_signal E s = (sig, s1)"
    by fastforce
  obtain t s2 where t: "clock E s1 = (t, s2)"
    by fastforce
  have "time_of E s \<le> t"
    using assms sig t unfolding time_passes_def time_of_def by (metis fst_conv snd_conv)
  with 0 sig t show ?case
    by (auto split: sum.split bool.split)
qed

section \<open>Connections\<close>

lemma keeps_register_handlers: "ops_keep V P \<Longrightarrow> (\<And>s ids. P (s\<lparr>m_event_handler_ids := ids\<rparr>) = P s) \<Longrightarrow> keeps P (register_hypervisor_handlers V)"
  unfolding register_hypervisor_handlers_def register_handler_def
  by (intro keeps_bind ops_keepD keeps_calls) (auto simp: keeps_def io_result_def)

lemma conn_ok_new: "conn_ok conns (conns w) (hypervisor_new uri w)"
  by (simp add: conn_ok_def hypervisor_new_def)

lemma create_conns:
  assumes "tracks_connections conns V" "hypervisor_create V loop_res uri w = (r, s)"
  shows "case r of Inr (Inr _) \<Rightarrow> conn_ok conns (conns w) s | _ \<Rightarrow> conns (outside s) = conns w"
proof (cases loop_res)
  case (Inl e)
  with assms(2) show ?thesis
    by (auto simp: hypervisor_create_def hypervisor_new_def)
next
  case (Inr u)
  obtain r0 s0 where reg: "register_hypervisor_handlers V (hypervisor_new uri w) = (r0, s0)"
    by fastforce
  have "keeps (conn_ok conns (conns w)) (register_hypervisor_handlers V)"
    using ops_keep_conn [OF assms(1)] by (rule keeps_register_handlers) (simp add: conn_ok_def)
  then have s0: "conn_ok conns (conns w) s0"
    using reg conn_ok_new by (rule keeps_run)
  obtain r1 s1 where destroy: "hypervisor_destroy V s0 = (r1, s1)"
    by fastforce
  then have s1: "conns (outside s1) = conns w"
    using destroy_conns [OF assms(1) s0] by simp
  show ?thesis
    using assms(2) Inr reg destroy s0 s1 by (auto simp: hypervisor_create_def split: sum.splits)
qed

lemma keeps_backend_attempt:
  assumes "ops_keep V P" "\<And>name vid. keeps P (emplace_machine V name vid)"
  shows "keeps P (backend_attempt V h td mi)"
proof -
  have "keeps P (io_bind (hypervisor_spawn V opt) (\<lambda>name. io_result (Inr \<lparr>lm_id = name, lm_info = mi\<rparr>)))" for opt
    using assms by (intro keeps_bind keeps_spawn keeps_result)
  then show ?thesis
    by (auto simp: keeps_def backend_attempt_def split: sum.split)
qed

lemma faultless_calls [simp]: "faultless (call f)" "faultless (act g)" "faultless (non_null w p)" "faultless (check_rc w rc)"
  by (simp_all add: faultless_def call_def act_def non_null_def check_rc_def io_result_def split: prod.split)

lemma faultless_get: "faultless (connection_get V)"
  by (auto simp: faultless_def connection_get_def connection_connect_def io_bind_def call_def act_def non_null_def io_result_def
      split: option.split prod.split)

lemma faultless_machine: "faultless (lm_terminate V m)"
  unfolding lm_terminate_def machine_kill_def with_domain_def get_domain_def
  by (intro faultless_bind faultless_finally faultless_get faultless_calls)

lemma faultless_volume: "faultless (io_bind (get_volume V v) (\<lambda>vol. io_bind (call (virStorageVolDelete V vol)) (\<lambda>_. act (virStorageVolFree V vol))))"
  unfolding get_volume_def by (intro faultless_bind faultless_get faultless_calls)

lemma release_object_value: "fst (release_object V m s) = Inr (Inr ())"
  by (simp add: release_object_def machine_impl_destroy_def ignore_value [OF faultless_volume] io_result_def split: option.split)

lemma keeps_release_object: "ops_keep V P \<Longrightarrow> keeps P (release_object V m)"
  using keepsD [OF keeps_machine_ops(3)] by (auto simp: keeps_def release_object_def io_result_def split: option.split)

lemma lm_destroy_states: "snd (lm_destroy V m s) = snd (hypervisor_destroy V (snd (release_object V m (snd (lm_terminate V m s)))))"
proof -
  have "fst (io_ignore (lm_terminate V m) s) = Inr (Inr ())"
    by (rule ignore_value [OF faultless_machine])
  then have "lm_destroy V m s = io_bind (release_object V m) (\<lambda>_. hypervisor_destroy V) (snd (lm_terminate V m s))"
    by (simp add: lm_destroy_def io_bind_def split_beta)
  then show ?thesis
    using release_object_value [of V m "snd (lm_terminate V m s)"] by (simp add: io_bind_def split_beta)
qed

lemma destroy_machine_conns:
  assumes "tracks_connections conns V" "conn_ok conns B s"
  shows "conns (outside (snd (lm_destroy V m s))) = B"
proof -
  note ops = ops_keep_conn [OF assms(1), of B]
  have "conn_ok conns B (snd (lm_terminate V m s))"
    using keepsD [OF keeps_machine_ops(2) [OF ops] assms(2)] by (simp add: lm_terminate_def)
  then have "conn_ok conns B (snd (release_object V m (snd (lm_terminate V m s))))"
    by (rule keepsD [OF keeps_release_object [OF ops]])
  then show ?thesis
    unfolding lm_destroy_states by (rule destroy_conns [OF assms(1)])
qed

section \<open>Properties\<close>

text \<open>
  C35. Waiting for the guest agent ends: if time passes, the loop returns within one turn more than the
  number of pauses of 200 ms that fit into the time-out, whatever the machine and the events do.
\<close>

theorem guest_agent_wait_ends:
  assumes "time_passes E" "nat (5 * timeout) < fuel"
  shows "lm_wait_for_guest_agent E m timeout fuel s \<noteq> None"
proof -
  obtain t s1 where t: "clock E s = (t, s1)"
    by fastforce
  obtain k where k: "fuel = Suc k" "5 * timeout \<le> int k"
    using assms(2) by (cases fuel) auto
  have "t \<le> time_of E s1"
    using assms(1) t unfolding time_passes_def time_of_def by (metis fst_conv snd_conv)
  then have "t + 1000 * timeout \<le> time_of E s1 + 200 * int k"
    using k(2) by simp
  then show ?thesis
    using guest_agent_loop_ends [OF assms(1)] t k(1) by (auto simp: lm_wait_for_guest_agent_def simp del: guest_agent_loop.simps)
qed

definition ticking :: "int waiting" where
  "ticking = \<lparr>stop_signal = (\<lambda>s. (False, s)), clock = (\<lambda>s. (outside s, s)), pause = (\<lambda>d s. s\<lparr>outside := outside s + d\<rparr>)\<rparr>"

theorem guest_agent_wait_ends_witness:
  "lm_wait_for_guest_agent ticking \<lparr>lm_id = ''u'', lm_info = \<lparr>mi_os = [], mi_arch = Amd64, mi_temp_dir = []\<rparr>\<rparr> 120 601 (hypervisor_new [] 0) \<noteq> None"
  by (rule guest_agent_wait_ends) (simp_all add: time_passes_def time_of_def ticking_def)

text \<open>
  C10. The back end leaks no connection: when \<^verbatim>\<open>spawn\<close> does not return a machine, by an error or by an
  exception, every connection it opened is closed again, and the connection behind a machine it
  returned is closed when the machine is destroyed.
\<close>

theorem backend_closes_connections:
  assumes "tracks_connections conns V"
  shows "case libvirt_backend_spawn V y h loop_res mi pool_text template_text config_dir w of
      (Inr (Inr m), s) \<Rightarrow> conns (outside (snd (lm_destroy V m s))) = conns w
    | (_, s) \<Rightarrow> conns (outside s) = conns w"
proof -
  have early: "conns (outside (hypervisor_new u w)) = conns w" for u
    by (simp add: hypervisor_new_def)
  have created: "case r of Inr (Inr _) \<Rightarrow> conn_ok conns (conns w) s | _ \<Rightarrow> conns (outside s) = conns w"
    if "hypervisor_create V loop_res uri w = (r, s)" for uri r s
    using create_conns [OF assms that] .
  have attempted: "conn_ok conns (conns w) s'" if "backend_attempt V h td mi s = (x, s')" "conn_ok conns (conns w) s" for td s x s'
    using keeps_run [OF keeps_backend_attempt [OF ops_keep_conn [OF assms] keeps_emplace_conn [OF assms]] that] .
  have destroyed: "conns (outside s') = conns w" if "hypervisor_destroy V s = (x, s')" "conn_ok conns (conns w) s" for s x s'
    using destroy_conns [OF assms that(2)] that(1) by simp
  have ended: "conns (outside (snd (lm_destroy V m s))) = conns w" if "conn_ok conns (conns w) s" for m s
    using destroy_machine_conns [OF assms that] .
  show ?thesis
    unfolding libvirt_backend_spawn_def
    by (auto simp: early ended split: sum.split prod.split dest!: created attempted destroyed)
qed

theorem backend_closes_connections_witness: "tracks_connections (\<lambda>w. w) counting_libvirt \<and>
  (case libvirt_backend_spawn counting_libvirt (doc_yaml (Table [])) demo_host (Inr ()) \<lparr>mi_os = [], mi_arch = Amd64, mi_temp_dir = []\<rparr> [] [] [] {#} of
      (Inr (Inr m), s) \<Rightarrow> outside (snd (lm_destroy counting_libvirt m s)) = {#}
    | (_, s) \<Rightarrow> outside s = {#})"
  using backend_closes_connections [OF counting_tracks, of "{#}" "doc_yaml (Table [])" demo_host "Inr ()"
      "\<lparr>mi_os = [], mi_arch = Amd64, mi_temp_dir = []\<rparr>" "[]" "[]" "[]"] counting_tracks by simp

end
