(* ===== verification/Streams.thy ===== *)
theory Streams
  imports Algorithm
begin

text \<open>
  \<^verbatim>\<open>modules/utility/include/utility/io/{stream,memstream,memstreambuf}.hpp\<close>: input streams over
  memory, files and standard streams, output streams, and the two readers built on them. A standard
  stream is its buffer with the read position and its state bits; what \<^verbatim>\<open>read\<close>, \<^verbatim>\<open>tellg\<close> and
  \<^verbatim>\<open>seekg\<close> do with the bits follows the C++ standard (each first makes a \<^verbatim>\<open>sentry\<close>). Positions are
  within 64 bits. The class \<^verbatim>\<open>InputStream\<close> is the locale \<open>byte_source\<close>: the lemmas show that its
  implementations are sequences of bytes with a position, and what the readers do on any of them.
\<close>

section \<open>Standard input streams\<close>

text \<open>
  \<^verbatim>\<open>MemoryStreambuf\<close>, \<^verbatim>\<open>StringStreambuf\<close> (which does not override the seeking of
  \<^verbatim>\<open>std::streambuf\<close>, that always fails) and \<^verbatim>\<open>std::filebuf\<close>.
\<close>

datatype streambuf = Memory_buf | String_buf | File_buf

datatype seekdir = Dir_beg | Dir_cur | Dir_end

record istream =
  buf_kind :: streambuf
  buf_open :: bool
  buf_data :: "byte list"
  buf_pos :: nat
  eofbit :: bool
  failbit :: bool
  gcount :: nat

definition istream_on :: "streambuf \<Rightarrow> byte list \<Rightarrow> istream" where
  "istream_on kind data =
     \<lparr>buf_kind = kind, buf_open = True, buf_data = data, buf_pos = 0, eofbit = False, failbit = False, gcount = 0\<rparr>"

definition stream_good :: "istream \<Rightarrow> bool" where
  "stream_good s \<longleftrightarrow> \<not> eofbit s \<and> \<not> failbit s"

text \<open>\<^verbatim>\<open>MemoryStreambuf::seekpos\<close> and \<^verbatim>\<open>seekoff\<close>; \<open>mode_in\<close> is whether \<^verbatim>\<open>mode\<close> has \<^verbatim>\<open>std::ios_base::in\<close>.\<close>

definition seekpos :: "int \<Rightarrow> bool \<Rightarrow> istream \<Rightarrow> int \<times> istream" where
  "seekpos pos mode_in s =
     (if \<not> mode_in then (-1, s)
      else if pos < 0 \<or> pos \<ge> int (length (buf_data s)) then (-1, s)
      else (pos, s\<lparr>buf_pos := nat pos\<rparr>))"

definition seekoff :: "int \<Rightarrow> seekdir \<Rightarrow> bool \<Rightarrow> istream \<Rightarrow> int \<times> istream" where
  "seekoff offset dir mode_in s =
     (if \<not> mode_in then (-1, s)
      else case dir of
             Dir_beg \<Rightarrow> seekpos offset mode_in s
           | Dir_end \<Rightarrow> seekpos (int (length (buf_data s)) + offset) mode_in s
           | Dir_cur \<Rightarrow> seekpos (int (buf_pos s) + offset) mode_in s)"

text \<open>\<^verbatim>\<open>std::filebuf::seekoff\<close>: any position from the start of the file on, also behind its end.\<close>

definition file_seekoff :: "int \<Rightarrow> seekdir \<Rightarrow> istream \<Rightarrow> int \<times> istream" where
  "file_seekoff offset dir s =
     (let base = (case dir of Dir_beg \<Rightarrow> 0 | Dir_cur \<Rightarrow> int (buf_pos s) | Dir_end \<Rightarrow> int (length (buf_data s)))
      in if \<not> buf_open s \<or> base + offset < 0 then (-1, s) else (base + offset, s\<lparr>buf_pos := nat (base + offset)\<rparr>))"

definition pubseekoff :: "int \<Rightarrow> seekdir \<Rightarrow> istream \<Rightarrow> int \<times> istream" where
  "pubseekoff offset dir s =
     (case buf_kind s of
        Memory_buf \<Rightarrow> seekoff offset dir True s
      | String_buf \<Rightarrow> (-1, s)
      | File_buf \<Rightarrow> file_seekoff offset dir s)"

definition sentry :: "istream \<Rightarrow> istream" where
  "sentry s = (if stream_good s then s else s\<lparr>failbit := True\<rparr>)"

definition tellg :: "istream \<Rightarrow> int \<times> istream" where
  "tellg s = (let s1 = sentry s in if failbit s1 then (-1, s1) else pubseekoff 0 Dir_cur s1)"

definition seekg :: "int \<Rightarrow> seekdir \<Rightarrow> istream \<Rightarrow> istream" where
  "seekg offset dir s =
     (let s1 = sentry (s\<lparr>eofbit := False\<rparr>)
      in if failbit s1 then s1
         else case pubseekoff offset dir s1 of (p, s2) \<Rightarrow> if p = -1 then s2\<lparr>failbit := True\<rparr> else s2)"

definition available :: "istream \<Rightarrow> byte list" where
  "available s = (if buf_open s then drop (buf_pos s) (buf_data s) else [])"

definition istream_read :: "nat \<Rightarrow> istream \<Rightarrow> byte list \<times> istream" where
  "istream_read n s =
     (if \<not> stream_good s then ([], (sentry s)\<lparr>gcount := 0\<rparr>)
      else let bs = take n (available s)
           in (bs, s\<lparr>buf_pos := buf_pos s + length bs, gcount := length bs,
                     eofbit := length bs < n, failbit := length bs < n\<rparr>))"

text \<open>\<^verbatim>\<open>safe_cast_int<std::streamsize>(count)\<close> before the read.\<close>

definition checked_read :: "nat \<Rightarrow> istream \<Rightarrow> (fault + byte list) \<times> istream" where
  "checked_read n s =
     (case safe_cast_int int64_t size_t (int n) of
        Inl flt \<Rightarrow> (Inl flt, s)
      | Inr _ \<Rightarrow> (case istream_read n s of (bs, s') \<Rightarrow> (Inr bs, s')))"

section \<open>StringInputStream and FileInputStream\<close>

text \<open>\<^verbatim>\<open>m_value\<close> is the data of the buffer.\<close>

definition string_input_stream :: "byte list \<Rightarrow> istream" where
  "string_input_stream content = istream_on Memory_buf content"

definition string_read :: "nat \<Rightarrow> istream \<Rightarrow> (fault + byte list) \<times> istream" where
  "string_read n s = checked_read n s"

definition string_seek :: "int \<Rightarrow> istream \<Rightarrow> int \<times> istream" where
  "string_seek off s = tellg (seekg off Dir_cur s)"

definition string_get_size :: "istream \<Rightarrow> nat" where
  "string_get_size s = length (buf_data s)"

record file_input =
  fi_stream :: istream
  fi_size :: nat

text \<open>
  The constructor opens the file, which leaves a failed stream when it cannot be opened, and then
  asks for its size, which throws when there is no such file.
\<close>

definition file_input_stream :: "byte list option \<Rightarrow> fault + nat \<Rightarrow> fault + file_input" where
  "file_input_stream content file_size =
     transform file_size (\<lambda>n.
       \<lparr>fi_stream = (case content of
                       Some data \<Rightarrow> istream_on File_buf data
                     | None \<Rightarrow> (istream_on File_buf [])\<lparr>buf_open := False, failbit := True\<rparr>),
        fi_size = n\<rparr>)"

definition file_read :: "nat \<Rightarrow> file_input \<Rightarrow> (fault + byte list) \<times> file_input" where
  "file_read n f = (case checked_read n (fi_stream f) of (r, s) \<Rightarrow> (r, f\<lparr>fi_stream := s\<rparr>))"

definition file_seek :: "int \<Rightarrow> file_input \<Rightarrow> int \<times> file_input" where
  "file_seek off f = (case tellg (seekg off Dir_cur (fi_stream f)) of (p, s) \<Rightarrow> (p, f\<lparr>fi_stream := s\<rparr>))"

definition file_close :: "file_input \<Rightarrow> file_input" where
  "file_close f =
     f\<lparr>fi_stream := (if buf_open (fi_stream f) then (fi_stream f)\<lparr>buf_open := False\<rparr> else (fi_stream f)\<lparr>failbit := True\<rparr>)\<rparr>"

section \<open>StdInputStream\<close>

record std_input =
  si_stream :: istream
  si_slow :: bool
  si_size :: "nat option"
  si_initial :: int

text \<open>The casts of a positive difference and of one that is not negative never throw.\<close>

definition try_get_stream_size :: "istream \<Rightarrow> nat option \<times> istream" where
  "try_get_stream_size s =
     (case tellg s of (begin_pos, s1) \<Rightarrow>
      case tellg (seekg 0 Dir_end s1) of (end_pos, s2) \<Rightarrow>
        let diff = end_pos - begin_pos;
            s3 = (if diff \<noteq> 0 then seekg begin_pos Dir_beg s2 else s2)
        in (if diff > 0 then Some (nat diff) else None, s3))"

definition std_input_stream :: "istream \<Rightarrow> nat option \<Rightarrow> bool \<Rightarrow> std_input" where
  "std_input_stream stream given slow =
     (case (case given of Some n \<Rightarrow> (Some n, stream) | None \<Rightarrow> try_get_stream_size stream) of (m_size, s1) \<Rightarrow>
      case tellg s1 of (initial, s2) \<Rightarrow>
        \<lparr>si_stream = s2, si_slow = slow, si_size = m_size, si_initial = initial\<rparr>)"

definition std_fill :: "nat \<Rightarrow> nat \<Rightarrow> std_input \<Rightarrow> (fault + byte list) \<times> std_input" where
  "std_fill amount_available count s =
     (case checked_read (min count amount_available) (si_stream s) of
        (Inl flt, st) \<Rightarrow> (Inl flt, s\<lparr>si_stream := st\<rparr>)
      | (Inr bs, st) \<Rightarrow>
          (Inr bs, s\<lparr>si_stream := (if length bs \<ge> amount_available then st\<lparr>eofbit := True\<rparr> else st)\<rparr>))"

definition std_read :: "nat \<Rightarrow> std_input \<Rightarrow> (fault + byte list) \<times> std_input" where
  "std_read count s =
     (case si_size s of
        None \<Rightarrow> std_fill count count s
      | Some limit \<Rightarrow>
          (case tellg (si_stream s) of (pos, st) \<Rightarrow>
             let pos_diff = pos - si_initial s
             in if pos_diff < 0 then (Inr [], s\<lparr>si_stream := st\<lparr>failbit := True\<rparr>\<rparr>)
                else if nat pos_diff \<ge> limit then (Inr [], s\<lparr>si_stream := st\<lparr>eofbit := True\<rparr>\<rparr>)
                else std_fill (limit - nat pos_diff) count (s\<lparr>si_stream := st\<rparr>)))"

definition std_seek :: "int \<Rightarrow> std_input \<Rightarrow> int \<times> std_input" where
  "std_seek off s = (case tellg (seekg off Dir_cur (si_stream s)) of (p, st) \<Rightarrow> (p, s\<lparr>si_stream := st\<rparr>))"

text \<open>\<^verbatim>\<open>make_istream\<close> gives a stream over a \<^verbatim>\<open>StringStreambuf\<close>.\<close>

definition make_istream :: "byte list \<Rightarrow> istream" where
  "make_istream data = istream_on String_buf data"

section \<open>Output streams\<close>

record ostream =
  o_data :: "byte list"
  o_open :: bool
  o_failbit :: bool

definition output_stream :: "bool \<Rightarrow> ostream" where
  "output_stream opened = \<lparr>o_data = [], o_open = opened, o_failbit = \<not> opened\<rparr>"

definition output_write :: "byte list \<Rightarrow> ostream \<Rightarrow> (fault + unit) \<times> ostream" where
  "output_write bs s =
     (case safe_cast_int int64_t size_t (int (length bs)) of
        Inl flt \<Rightarrow> (Inl flt, s)
      | Inr _ \<Rightarrow> (Inr (), if o_failbit s \<or> \<not> o_open s then s\<lparr>o_failbit := True\<rparr> else s\<lparr>o_data := o_data s @ bs\<rparr>))"

definition file_output_close :: "ostream \<Rightarrow> ostream" where
  "file_output_close s = (if o_open s then s\<lparr>o_open := False\<rparr> else s\<lparr>o_failbit := True\<rparr>)"

fun output_writes :: "byte list list \<Rightarrow> ostream \<Rightarrow> (fault + unit) \<times> ostream" where
  "output_writes [] s = (Inr (), s)"
| "output_writes (bs # rest) s =
     (case output_write bs s of (Inl flt, s') \<Rightarrow> (Inl flt, s') | (Inr _, s') \<Rightarrow> output_writes rest s')"

section \<open>Readers\<close>

text \<open>
  The readers work on any \<^verbatim>\<open>InputStream\<close>: \<open>rd\<close> is its \<^verbatim>\<open>read\<close>. \<^verbatim>\<open>read_stream_as_string\<close> is
  \<^verbatim>\<open>noexcept\<close>, so an exception ends the program.
\<close>

definition read_stream_as_string ::
  "(nat \<Rightarrow> 's \<Rightarrow> (fault + byte list) \<times> 's) \<Rightarrow> nat option \<Rightarrow> nat \<Rightarrow> 's \<Rightarrow> (fault + byte list option) \<times> 's" where
  "read_stream_as_string rd known_size max_length s =
     (case known_size of
        None \<Rightarrow> (Inr None, s)
      | Some content_length \<Rightarrow>
          if content_length < 1 then (Inr None, s)
          else if content_length > max_length then (Inr None, s)
          else case rd content_length s of (Inl _, s') \<Rightarrow> (Inl Abort, s') | (Inr data, s') \<Rightarrow> (Inr (Some data), s'))"

datatype line_state = Want_cr | Want_lf | Line_done

text \<open>The loop of \<^verbatim>\<open>read_line\<close>, with fuel: \<open>None\<close> means that it has not ended within \<open>fuel\<close> turns.\<close>

fun read_line_loop ::
  "(nat \<Rightarrow> 's \<Rightarrow> (fault + byte list) \<times> 's) \<Rightarrow> nat \<Rightarrow> line_state \<Rightarrow> byte list \<Rightarrow> 's \<Rightarrow> ((fault + byte list option) \<times> 's) option" where
  "read_line_loop rd 0 state line s = None"
| "read_line_loop rd (Suc fuel) state line s =
     (if state = Line_done then Some (Inr (Some line), s)
      else case rd 1 s of
             (Inl flt, s') \<Rightarrow> Some (Inl flt, s')
           | (Inr [], s') \<Rightarrow> Some (Inr (Some line), s')
           | (Inr (c # _), s') \<Rightarrow>
               (case state of
                  Want_cr \<Rightarrow> if c = 13 then read_line_loop rd fuel Want_lf line s'
                             else read_line_loop rd fuel Want_cr (line @ [c]) s'
                | Want_lf \<Rightarrow> if c = 10 then read_line_loop rd fuel Line_done line s' else Some (Inr None, s')
                | Line_done \<Rightarrow> read_line_loop rd fuel Line_done line s'))"

definition read_line ::
  "(nat \<Rightarrow> 's \<Rightarrow> (fault + byte list) \<times> 's) \<Rightarrow> nat \<Rightarrow> 's \<Rightarrow> ((fault + byte list option) \<times> 's) option" where
  "read_line rd fuel s = read_line_loop rd fuel Want_cr [] s"

text \<open>A client that reads blocks, and one that reads lines.\<close>

fun read_blocks :: "(nat \<Rightarrow> 's \<Rightarrow> (fault + byte list) \<times> 's) \<Rightarrow> nat list \<Rightarrow> 's \<Rightarrow> (fault + byte list list) \<times> 's" where
  "read_blocks rd [] s = (Inr [], s)"
| "read_blocks rd (n # ns) s =
     (case rd n s of
        (Inl flt, s') \<Rightarrow> (Inl flt, s')
      | (Inr bs, s') \<Rightarrow> (case read_blocks rd ns s' of (r, s'') \<Rightarrow> (transform r (\<lambda>bss. bs # bss), s'')))"

fun read_lines :: "(nat \<Rightarrow> 's \<Rightarrow> (fault + byte list) \<times> 's) \<Rightarrow> nat \<Rightarrow> nat \<Rightarrow> 's \<Rightarrow> (byte list list \<times> 's) option" where
  "read_lines rd fuel 0 s = Some ([], s)"
| "read_lines rd fuel (Suc k) s =
     (case read_line rd fuel s of
        Some (Inr (Some line), s') \<Rightarrow> map_option (\<lambda>(ls, s''). (line # ls, s'')) (read_lines rd fuel k s')
      | _ \<Rightarrow> None)"

section \<open>The contract of an input stream\<close>

text \<open>Reference definition of a line: up to a carriage return, which a line feed has to follow.\<close>

definition end_of_line :: "byte list \<Rightarrow> byte list \<Rightarrow> byte list option \<times> byte list" where
  "end_of_line line bs = (case bs of [] \<Rightarrow> (Some line, []) | c # left_over \<Rightarrow> (if c = 10 then Some line else None, left_over))"

fun split_line :: "byte list \<Rightarrow> byte list \<Rightarrow> byte list option \<times> byte list" where
  "split_line line [] = (Some line, [])"
| "split_line line (c # bs) = (if c = 13 then end_of_line line bs else split_line (line @ [c]) bs)"

lemma split_line_append: "13 \<notin> set l \<Longrightarrow> split_line line (l @ bs) = split_line (line @ l) bs"
  by (induction l arbitrary: line) auto

definition streamsize_limit :: nat where
  "streamsize_limit = 2 ^ 63"

lemma one_below_limit [simp]: "Suc 0 < streamsize_limit"
  by (simp add: streamsize_limit_def)

lemma checked_size: "n < streamsize_limit \<Longrightarrow> safe_cast_int int64_t size_t (int n) = Inr (int n)"
  by (subst safe_cast_int_Inr_iff) (auto simp: in_type_def int64_t_def size_t_def type_min_def type_max_def streamsize_limit_def)

text \<open>
  \<open>rest\<close> are the bytes still to come. A read of less than \<open>2 ^ 63\<close> bytes (the limit of \<^verbatim>\<open>std::streamsize\<close>) returns the next bytes,
  fewer only when no more are left.
\<close>

locale byte_source =
  fixes rd :: "nat \<Rightarrow> 's \<Rightarrow> (fault + byte list) \<times> 's"
    and rest :: "'s \<Rightarrow> byte list"
    and ok :: "'s \<Rightarrow> bool"
  assumes reads: "ok s \<Longrightarrow> n < streamsize_limit \<Longrightarrow> \<exists>s'. rd n s = (Inr (take n (rest s)), s') \<and> rest s' = drop n (rest s) \<and> ok s'"
begin

lemma read_block:
  assumes "ok s" "n < streamsize_limit"
  obtains s' where "rd n s = (Inr (take n (rest s)), s')" "rest s' = drop n (rest s)" "ok s'"
  using reads [OF assms] by blast

lemma blocks:
  assumes "ok s" "\<forall>n \<in> set ns. n < streamsize_limit"
  shows "\<exists>bss s'. read_blocks rd ns s = (Inr bss, s') \<and> concat bss = take (sum_list ns) (rest s) \<and>
    rest s' = drop (sum_list ns) (rest s) \<and> ok s'"
  using assms
proof (induction ns arbitrary: s)
  case (Cons n ns)
  have "n < streamsize_limit" "\<forall>n \<in> set ns. n < streamsize_limit"
    using Cons.prems(2) by simp_all
  obtain s1 where s1: "rd n s = (Inr (take n (rest s)), s1)" "rest s1 = drop n (rest s)" "ok s1"
    using read_block [OF Cons.prems(1) \<open>n < streamsize_limit\<close>] by blast
  obtain bss s' where s': "read_blocks rd ns s1 = (Inr bss, s')" "concat bss = take (sum_list ns) (rest s1)"
    "rest s' = drop (sum_list ns) (rest s1)" "ok s'"
    using Cons.IH [OF s1(3) \<open>\<forall>n \<in> set ns. n < streamsize_limit\<close>] by blast
  then show ?case
    using s1 by (simp add: take_add add.commute [of "sum_list ns"])
qed simp

lemma whole:
  assumes "ok s" "0 < n" "n \<le> max_length" "n < streamsize_limit"
  shows "\<exists>s'. read_stream_as_string rd (Some n) max_length s = (Inr (Some (take n (rest s))), s') \<and>
    rest s' = drop n (rest s) \<and> ok s'"
proof -
  obtain s' where "rd n s = (Inr (take n (rest s)), s')" "rest s' = drop n (rest s)" "ok s'"
    using read_block [OF assms(1,4)] by blast
  then show ?thesis
    using assms(2,3) by (simp add: read_stream_as_string_def)
qed

lemma loop_turn:
  assumes "ok s"
  obtains (nothing) s' where "rest s = []" "rd (Suc 0) s = (Inr [], s')" "rest s' = []" "ok s'"
  | (char) c bs s' where "rest s = c # bs" "rd (Suc 0) s = (Inr [c], s')" "rest s' = bs" "ok s'"
proof -
  obtain s' where s': "rd (Suc 0) s = (Inr (take (Suc 0) (rest s)), s')" "rest s' = drop (Suc 0) (rest s)" "ok s'"
    using read_block [OF assms one_below_limit] by (metis One_nat_def)
  show ?thesis
  proof (cases "rest s")
    case Nil
    with s' show ?thesis
      by (intro that(1)) simp_all
  next
    case (Cons c bs)
    with s' show ?thesis
      by (intro that(2)) simp_all
  qed
qed

lemma line_end:
  assumes "ok s" "1 < fuel"
  shows "\<exists>s'. read_line_loop rd fuel Want_lf line s = Some (Inr (fst (end_of_line line (rest s))), s') \<and>
    rest s' = snd (end_of_line line (rest s)) \<and> ok s'"
proof -
  have fuel: "fuel = Suc (Suc (fuel - 2))"
    using assms(2) by simp
  show ?thesis
    by (subst fuel, rule loop_turn [OF assms(1)]) (simp_all add: end_of_line_def)
qed

lemma line:
  assumes "ok s" "length (rest s) + 1 < fuel"
  shows "\<exists>s'. read_line_loop rd fuel Want_cr line s = Some (Inr (fst (split_line line (rest s))), s') \<and>
    rest s' = snd (split_line line (rest s)) \<and> ok s'"
  using assms
proof (induction fuel arbitrary: s line)
  case (Suc fuel)
  show ?case
  proof (rule loop_turn [OF Suc.prems(1)])
    fix s' assume "rest s = []" "rd (Suc 0) s = (Inr [], s')" "rest s' = []" "ok s'"
    then show ?thesis
      by simp
  next
    fix c bs s' assume turn: "rest s = c # bs" "rd (Suc 0) s = (Inr [c], s')" "rest s' = bs" "ok s'"
    show ?thesis
    proof (cases "c = 13")
      case True
      then show ?thesis
        using turn Suc.prems(2) line_end [OF turn(4), of fuel line] by simp
    next
      case False
      then show ?thesis
        using turn Suc.prems(2) Suc.IH [OF turn(4), of "line @ [c]"] by simp
    qed
  qed
qed simp

lemma lines:
  assumes "ok s" "rest s = concat (map (\<lambda>l. l @ [13, 10]) ls) @ left_over" "\<forall>l \<in> set ls. 13 \<notin> set l" "length (rest s) + 1 < fuel"
  shows "\<exists>s'. read_lines rd fuel (length ls) s = Some (ls, s') \<and> rest s' = left_over \<and> ok s'"
  using assms
proof (induction ls arbitrary: s)
  case (Cons l ls)
  obtain s1 where s1: "read_line rd fuel s = Some (Inr (Some l), s1)" "rest s1 = concat (map (\<lambda>l. l @ [13, 10]) ls) @ left_over" "ok s1"
    using line [OF Cons.prems(1,4), of "[]"] Cons.prems(2,3) by (auto simp: read_line_def split_line_append end_of_line_def)
  have "length (rest s1) + 1 < fuel"
    using Cons.prems(2,4) s1(2) by simp
  then show ?case
    using Cons.IH [OF s1(3,2)] Cons.prems(3) s1(1) by auto
qed simp

end

section \<open>The implementations\<close>

definition istream_rest :: "istream \<Rightarrow> byte list" where
  "istream_rest s = (if stream_good s then available s else [])"

lemma checked_read_bytes:
  assumes "n < streamsize_limit"
  shows "\<exists>s'. checked_read n s = (Inr (take n (istream_rest s)), s') \<and> istream_rest s' = drop n (istream_rest s)"
proof (cases "stream_good s")
  case True
  then show ?thesis
    using checked_size [OF assms]
    by (auto simp: checked_read_def istream_read_def istream_rest_def available_def stream_good_def Let_def min_def add.commute)
next
  case False
  then show ?thesis
    using checked_size [OF assms] by (auto simp: checked_read_def istream_read_def istream_rest_def stream_good_def sentry_def)
qed

interpretation string_source: byte_source string_read istream_rest "\<lambda>_. True"
  by unfold_locales (use checked_read_bytes in \<open>auto simp: string_read_def\<close>)

interpretation file_source: byte_source file_read "\<lambda>f. istream_rest (fi_stream f)" "\<lambda>_. True"
proof unfold_locales
  fix f :: file_input and n
  assume "n < streamsize_limit"
  then obtain s' where "checked_read n (fi_stream f) = (Inr (take n (istream_rest (fi_stream f))), s')"
    "istream_rest s' = drop n (istream_rest (fi_stream f))"
    using checked_read_bytes by blast
  then show "\<exists>f'. file_read n f = (Inr (take n (istream_rest (fi_stream f))), f') \<and>
      istream_rest (fi_stream f') = drop n (istream_rest (fi_stream f)) \<and> True"
    by (simp add: file_read_def)
qed

text \<open>A standard stream of known size over a file shows the window of that size from its initial position on.\<close>

definition window :: "std_input \<Rightarrow> nat" where
  "window s = the (si_size s) - (buf_pos (si_stream s) - nat (si_initial s))"

definition std_rest :: "std_input \<Rightarrow> byte list" where
  "std_rest s = take (window s) (istream_rest (si_stream s))"

definition std_ok :: "std_input \<Rightarrow> bool" where
  "std_ok s \<longleftrightarrow> buf_kind (si_stream s) = File_buf \<and> buf_open (si_stream s) \<and> si_size s \<noteq> None \<and>
     0 \<le> si_initial s \<and> si_initial s \<le> int (buf_pos (si_stream s))"

lemma tellg_file:
  assumes "buf_kind s = File_buf" "buf_open s"
  shows "tellg s = (if stream_good s then (int (buf_pos s), s) else (-1, s\<lparr>failbit := True\<rparr>))"
  using assms by (auto simp: tellg_def sentry_def stream_good_def pubseekoff_def file_seekoff_def Let_def)

text \<open>The stream after \<open>std_fill\<close> has taken \<open>k\<close> of the \<open>w\<close> bytes the window allows.\<close>

definition filled :: "nat \<Rightarrow> nat \<Rightarrow> std_input \<Rightarrow> std_input" where
  "filled w k s =
     (let st = si_stream s; m = length (take k (available st))
      in s\<lparr>si_stream := st\<lparr>buf_pos := buf_pos st + m, gcount := m, eofbit := m < k \<or> w \<le> m, failbit := m < k\<rparr>\<rparr>)"

lemma std_fill_filled:
  assumes "n < streamsize_limit" "stream_good (si_stream s)"
  shows "std_fill w n s = (Inr (take (min n w) (available (si_stream s))), filled w (min n w) s)"
proof -
  have cast: "safe_cast_int int64_t size_t (int (min n w)) = Inr (int (min n w))"
    using assms(1) by (intro checked_size) simp
  then show ?thesis
    using assms(2) by (cases "w \<le> length (take (min n w) (available (si_stream s)))")
      (simp_all add: std_fill_def checked_read_def istream_read_def filled_def Let_def del: length_take)
qed

lemma filled_ok: "std_ok s \<Longrightarrow> std_ok (filled w k s)"
  by (simp add: std_ok_def filled_def Let_def)

lemma filled_rest_full:
  assumes "length (available (si_stream s)) < k \<or> w \<le> min k (length (available (si_stream s)))"
  shows "std_rest (filled w k s) = []"
  using assms by (auto simp: std_rest_def filled_def istream_rest_def stream_good_def Let_def min_def)

lemma filled_rest_part:
  assumes "std_ok s" "k \<le> length (available (si_stream s))" "k < window s"
  shows "std_rest (filled (window s) k s) = take (window s - k) (drop k (available (si_stream s)))"
proof -
  have "window (filled (window s) k s) = window s - k" "available (si_stream (filled (window s) k s)) = drop k (available (si_stream s))"
    "stream_good (si_stream (filled (window s) k s))"
    using assms by (auto simp: window_def filled_def available_def std_ok_def stream_good_def Let_def min_def add.commute)
  then show ?thesis
    by (simp add: std_rest_def istream_rest_def)
qed

lemma std_fill_bytes:
  assumes "std_ok s" "n < streamsize_limit" "stream_good (si_stream s)"
  shows "\<exists>s'. std_fill (window s) n s = (Inr (take n (std_rest s)), s') \<and> std_rest s' = drop n (std_rest s) \<and> std_ok s'"
proof -
  let ?a = "available (si_stream s)" and ?w = "window s"
  have here: "std_rest s = take ?w ?a"
    using assms(3) by (simp add: std_rest_def istream_rest_def)
  have "std_rest (filled ?w (min n ?w) s) = drop n (take ?w ?a)"
  proof (cases "length ?a < min n ?w \<or> ?w \<le> min (min n ?w) (length ?a)")
    case True
    then show ?thesis
      using filled_rest_full [OF True] by auto
  next
    case False
    then have "min n ?w \<le> length ?a" "min n ?w < ?w" "min n ?w = n"
      by auto
    then show ?thesis
      using filled_rest_part [OF assms(1), of n] by (simp add: drop_take)
  qed
  then show ?thesis
    using std_fill_filled [OF assms(2,3)] filled_ok [OF assms(1)] by (simp add: here)
qed

lemma std_read_bytes:
  assumes "std_ok s" "n < streamsize_limit"
  shows "\<exists>s'. std_read n s = (Inr (take n (std_rest s)), s') \<and> std_rest s' = drop n (std_rest s) \<and> std_ok s'"
proof -
  let ?st = "si_stream s"
  obtain lim where lim: "si_size s = Some lim"
    using assms(1) by (auto simp: std_ok_def)
  have tell: "tellg ?st = (if stream_good ?st then (int (buf_pos ?st), ?st) else (-1, ?st\<lparr>failbit := True\<rparr>))"
    using assms(1) by (intro tellg_file) (simp_all add: std_ok_def)
  consider (bad) "\<not> stream_good ?st" | (over) "stream_good ?st" "window s = 0" | (go) "stream_good ?st" "0 < window s"
    by blast
  then show ?thesis
  proof cases
    case bad
    then show ?thesis
      using assms(1) lim tell by (auto simp: std_read_def std_ok_def std_rest_def istream_rest_def stream_good_def)
  next
    case over
    then have "lim \<le> nat (int (buf_pos ?st) - si_initial s)" "si_initial s \<le> int (buf_pos ?st)"
      using assms(1) lim by (auto simp: window_def std_ok_def nat_diff_distrib)
    then show ?thesis
      using over assms(1) lim tell by (auto simp: std_read_def Let_def std_ok_def std_rest_def istream_rest_def stream_good_def)
  next
    case go
    then have "nat (int (buf_pos ?st) - si_initial s) < lim" "si_initial s \<le> int (buf_pos ?st)"
      "lim - nat (int (buf_pos ?st) - si_initial s) = window s"
      using assms(1) lim by (auto simp: window_def std_ok_def nat_diff_distrib)
    then have "std_read n s = std_fill (window s) n s"
      using go lim tell by (simp add: std_read_def Let_def)
    then show ?thesis
      using std_fill_bytes [OF assms go(1)] by simp
  qed
qed

interpretation std_source: byte_source std_read std_rest std_ok
  by unfold_locales (rule std_read_bytes)

lemma std_input_stream_file:
  assumes "data \<noteq> []"
  shows "std_ok (std_input_stream (istream_on File_buf data) None slow)"
    and "std_rest (std_input_stream (istream_on File_buf data) None slow) = data"
  using assms
  by (simp_all add: std_input_stream_def try_get_stream_size_def istream_on_def tellg_def seekg_def sentry_def stream_good_def
      pubseekoff_def file_seekoff_def Let_def std_ok_def std_rest_def istream_rest_def available_def window_def)

section \<open>Memory streams\<close>

inductive string_step :: "istream \<Rightarrow> istream \<Rightarrow> bool" where
  read: "string_step s (snd (string_read n s))"
| seek: "string_step s (snd (string_seek off s))"
| tell: "string_step s (snd (tellg s))"

definition memory_ok :: "byte list \<Rightarrow> istream \<Rightarrow> bool" where
  "memory_ok content s \<longleftrightarrow> buf_kind s = Memory_buf \<and> buf_open s \<and> buf_data s = content \<and> buf_pos s \<le> length content"

lemma memory_ok_bits [simp]:
  "memory_ok content (s\<lparr>eofbit := b\<rparr>) = memory_ok content s" "memory_ok content (s\<lparr>failbit := b\<rparr>) = memory_ok content s"
  "memory_ok content (s\<lparr>gcount := n\<rparr>) = memory_ok content s" "memory_ok content (sentry s) = memory_ok content s"
  by (simp_all add: memory_ok_def sentry_def)

lemma memory_ok_pubseekoff: "memory_ok content s \<Longrightarrow> memory_ok content (snd (pubseekoff off dir s))"
  by (auto simp: memory_ok_def pubseekoff_def seekoff_def seekpos_def split: seekdir.split)

lemma memory_ok_tellg: "memory_ok content s \<Longrightarrow> memory_ok content (snd (tellg s))"
  by (simp add: tellg_def Let_def memory_ok_pubseekoff)

lemma memory_ok_seekg: "memory_ok content s \<Longrightarrow> memory_ok content (seekg off dir s)"
  using memory_ok_pubseekoff [of content "sentry (s\<lparr>eofbit := False\<rparr>)" off dir]
  by (auto simp: seekg_def Let_def split: prod.split)

lemma memory_ok_read: "memory_ok content s \<Longrightarrow> memory_ok content (snd (string_read n s))"
proof -
  assume ok: "memory_ok content s"
  have "memory_ok content (snd (istream_read n s))"
    using ok by (auto simp: istream_read_def Let_def) (auto simp: memory_ok_def available_def)
  then show ?thesis
    using ok by (auto simp: string_read_def checked_read_def split: sum.split prod.split)
qed

lemma memory_ok_step: "memory_ok content s \<Longrightarrow> string_step s s' \<Longrightarrow> memory_ok content s'"
  by (erule string_step.cases) (simp_all add: memory_ok_read memory_ok_tellg memory_ok_seekg string_seek_def)

interpretation memory: step_invariant "\<lambda>s. s = string_input_stream content" string_step "memory_ok content" for content
proof unfold_locales
  show "memory_ok content s" if "s = string_input_stream content" for s
    using that by (simp add: memory_ok_def string_input_stream_def istream_on_def)
qed (rule memory_ok_step)

lemma memory_tell:
  assumes "memory_ok content s"
  shows "fst (tellg s) = (if stream_good s \<and> buf_pos s < length content then int (buf_pos s) else -1)"
  using assms by (auto simp: tellg_def Let_def sentry_def stream_good_def pubseekoff_def seekoff_def seekpos_def memory_ok_def)

section \<open>Streams that end early\<close>

text \<open>
  A standard stream whose size is not known takes a read that returned all that was asked for as the
  end of the stream: after one such read it gives nothing more.
\<close>

lemma unknown_size_single_read:
  assumes "si_size s = None" "stream_good (si_stream s)" "n < streamsize_limit" "n \<le> length (available (si_stream s))"
  obtains s' where "std_read n s = (Inr (take n (available (si_stream s))), s')" "fst (std_read m s') = Inr [] \<or> \<not> m < streamsize_limit"
proof
  let ?s = "filled n n s"
  show "std_read n s = (Inr (take n (available (si_stream s))), ?s)"
    using assms by (simp add: std_read_def std_fill_filled)
  have "\<not> stream_good (si_stream ?s)" "si_size ?s = None"
    using assms(1,4) by (simp_all add: filled_def stream_good_def Let_def)
  then show "fst (std_read m ?s) = Inr [] \<or> \<not> m < streamsize_limit"
    using checked_size [of m] by (auto simp: std_read_def std_fill_def checked_read_def istream_read_def split: sum.split)
qed

text \<open>
  \<^verbatim>\<open>make_istream\<close> gives a stream that cannot seek; looking for its size leaves it failed, and nothing
  can be read.
\<close>

lemma std_over_string_istream_fails: "fst (std_read n (std_input_stream (make_istream data) None slow)) = Inr [] \<or> \<not> n < streamsize_limit"
  using checked_size [of n]
  by (auto simp: std_input_stream_def try_get_stream_size_def make_istream_def istream_on_def tellg_def seekg_def sentry_def stream_good_def
      pubseekoff_def Let_def std_read_def std_fill_def checked_read_def istream_read_def)

section \<open>Output\<close>

lemma output_writes_data:
  assumes "o_open s" "\<not> o_failbit s" "\<forall>b \<in> set bss. length b < streamsize_limit"
  shows "output_writes bss s = (Inr (), s\<lparr>o_data := o_data s @ concat bss\<rparr>)"
  using assms
proof (induction bss arbitrary: s)
  case (Cons b bss)
  then show ?case
    using checked_size [of "length b"] by (simp add: output_write_def)
qed simp

section \<open>Properties\<close>

text \<open>
  C11. String streams, file streams and standard streams over files are the byte sequence with a
  position: whatever the sizes of the reads, what they return is, put together, the beginning of the
  content, short only at its end, and no read throws.
\<close>

theorem streams_are_bytes:
  assumes "\<forall>n \<in> set ns. n < streamsize_limit" "content \<noteq> []"
  shows "\<exists>a b c s f t.
    read_blocks string_read ns (string_input_stream content) = (Inr a, s) \<and> concat a = take (sum_list ns) content \<and>
    read_blocks file_read ns \<lparr>fi_stream = istream_on File_buf content, fi_size = length content\<rparr> = (Inr b, f) \<and> concat b = concat a \<and>
    read_blocks std_read ns (std_input_stream (istream_on File_buf content) None slow) = (Inr c, t) \<and> concat c = concat a"
proof -
  let ?f = "\<lparr>fi_stream = istream_on File_buf content, fi_size = length content\<rparr>"
  have start: "istream_rest (string_input_stream content) = content" "istream_rest (istream_on File_buf content) = content"
    by (simp_all add: istream_rest_def string_input_stream_def istream_on_def stream_good_def available_def)
  show ?thesis
    using string_source.blocks [OF TrueI assms(1), of "string_input_stream content"] file_source.blocks [OF TrueI assms(1), of ?f]
      std_source.blocks [OF std_input_stream_file(1) [OF assms(2)] assms(1), of slow]
    by (auto simp: start std_input_stream_file(2) [OF assms(2)])
qed

theorem streams_are_bytes_witness:
  "\<exists>a s. read_blocks string_read [1, 5] (string_input_stream [7, 8, 9]) = (Inr a, s) \<and> concat a = [7, 8, 9]"
proof -
  have "\<forall>n \<in> set [1, 5 :: nat]. n < streamsize_limit" "[7, 8, 9 :: byte] \<noteq> []" "take (sum_list [1, 5 :: nat]) [7, 8, 9 :: byte] = [7, 8, 9]"
    by (simp_all add: streamsize_limit_def)
  then show ?thesis
    using streams_are_bytes [of "[1, 5]" "[7, 8, 9]" False] by metis
qed

text \<open>
  C36. \<^verbatim>\<open>read_line\<close> on a string stream in any state ends, returns what the reference definition of a
  line takes from the rest of the stream, and leaves what it leaves.
\<close>

theorem read_line_splits:
  assumes "length (istream_rest s) + 1 < fuel"
  shows "\<exists>s'. read_line string_read fuel s = Some (Inr (fst (split_line [] (istream_rest s))), s') \<and>
    istream_rest s' = snd (split_line [] (istream_rest s))"
  using string_source.line [OF TrueI assms, of "[]"] by (simp add: read_line_def)

theorem read_line_splits_witness:
  "\<exists>s'. read_line string_read 9 (string_input_stream [65, 13, 66, 67]) = Some (Inr None, s') \<and> istream_rest s' = [67]"
  using read_line_splits [of "string_input_stream [65, 13, 66, 67]" 9]
  by (simp add: string_input_stream_def istream_on_def istream_rest_def stream_good_def available_def end_of_line_def)

text \<open>
  Lines without carriage returns, written to a file with CR LF after each, are read back one by
  one with \<^verbatim>\<open>read_line\<close>.
\<close>

theorem lines_round_trip:
  assumes "\<forall>l \<in> set ls. 13 \<notin> set l \<and> length l + 2 < streamsize_limit"
    "length (concat (map (\<lambda>l. l @ [13, 10]) ls)) + 1 < fuel"
  shows "case output_writes (map (\<lambda>l. l @ [13, 10]) ls) (output_stream True) of (r, file) \<Rightarrow>
    r = Inr () \<and> (\<exists>f. file_input_stream (Some (o_data file)) (Inr (length (o_data file))) = Inr f \<and>
      (\<exists>f'. read_lines file_read fuel (length ls) f = Some (ls, f') \<and> istream_rest (fi_stream f') = []))"
proof -
  let ?text = "concat (map (\<lambda>l. l @ [13, 10]) ls)"
  let ?f = "\<lparr>fi_stream = istream_on File_buf ?text, fi_size = length ?text\<rparr>"
  have "\<forall>b \<in> set (map (\<lambda>l. l @ [13, 10]) ls). length b < streamsize_limit"
    using assms(1) by auto
  then have written: "output_writes (map (\<lambda>l. l @ [13, 10]) ls) (output_stream True) =
      (Inr (), (output_stream True)\<lparr>o_data := ?text\<rparr>)"
    using output_writes_data [of "output_stream True" "map (\<lambda>l. l @ [13, 10]) ls"] by (simp add: output_stream_def)
  have start: "istream_rest (fi_stream ?f) = ?text"
    by (simp add: istream_rest_def istream_on_def stream_good_def available_def)
  have "\<exists>f'. read_lines file_read fuel (length ls) ?f = Some (ls, f') \<and> istream_rest (fi_stream f') = []"
    using file_source.lines [OF TrueI, of ?f ls "[]" fuel] assms start by simp
  then show ?thesis
    using written by (simp add: file_input_stream_def)
qed

theorem lines_round_trip_witness:
  "case output_writes (map (\<lambda>l. l @ [13, 10]) [[72, 105], []]) (output_stream True) of (r, file) \<Rightarrow>
    r = Inr () \<and> (\<exists>f. file_input_stream (Some (o_data file)) (Inr (length (o_data file))) = Inr f \<and>
      (\<exists>f'. read_lines file_read 9 (length [[72, 105 :: byte], []]) f = Some ([[72, 105], []], f') \<and> istream_rest (fi_stream f') = []))"
  by (rule lines_round_trip) (simp_all add: streamsize_limit_def)

text \<open>
  C37. A string stream is well-formed after any sequence of reads, seeks and tells: it keeps its
  content, its position stays within it, reading returns no more than was asked for, and \<^verbatim>\<open>tell\<close>
  returns the position; but only inside the content, at its end it reports failure although nothing
  has failed.
\<close>

theorem string_stream_well_formed:
  assumes "reachable (\<lambda>s. s = string_input_stream content) string_step s"
  shows "buf_data s = content \<and> buf_pos s \<le> length content \<and> string_get_size s = length content \<and>
    fst (tellg s) = (if stream_good s \<and> buf_pos s < length content then int (buf_pos s) else -1) \<and>
    length (fst (istream_read n s)) \<le> n \<and> buf_pos (snd (istream_read n s)) = buf_pos s + length (fst (istream_read n s))"
proof -
  note inv = memory.inv_reachable [OF assms]
  then have "buf_data s = content \<and> buf_pos s \<le> length content \<and> string_get_size s = length content"
    by (simp add: memory_ok_def string_get_size_def)
  moreover have "length (fst (istream_read n s)) \<le> n \<and> buf_pos (snd (istream_read n s)) = buf_pos s + length (fst (istream_read n s))"
    by (simp add: istream_read_def Let_def sentry_def)
  ultimately show ?thesis
    using memory_tell [OF inv] by blast
qed

theorem string_stream_well_formed_witness:
  "let s = snd (string_read 2 (string_input_stream [7, 8])) in stream_good s \<and> fst (tellg s) = -1"
proof -
  let ?s = "snd (string_read 2 (string_input_stream [7, 8]))"
  have "reachable (\<lambda>s. s = string_input_stream [7, 8]) string_step ?s"
    by (rule reachable.reach_step [OF reachable.reach_init]) (rule refl, rule string_step.read)
  moreover have "buf_pos ?s = 2" "stream_good ?s"
    using checked_size [of 2]
    by (simp_all add: string_read_def checked_read_def string_input_stream_def istream_on_def istream_read_def stream_good_def
        available_def streamsize_limit_def Let_def)
  ultimately show ?thesis
    using string_stream_well_formed [of "[7, 8]" ?s 0] by (simp add: Let_def)
qed

end
