(* ===== verification/Dates.thy ===== *)
theory Dates
  imports Prelude
begin

text \<open>
  \<^verbatim>\<open>modules/utility/src/datetime.cpp\<close>: dates as text. The clock and the conversion to local time are
  the host's; \<^verbatim>\<open>std::strftime\<close> and \<^verbatim>\<open>std::sscanf\<close> are modelled for the formats the code uses, on
  fields of the ranges of \<^verbatim>\<open>std::tm\<close>. The lemmas show that a date that was formatted is parsed back,
  and what the parser accepts besides.
\<close>

section \<open>Fields and formats\<close>

record tm =
  tm_year :: int
  tm_mon :: int
  tm_mday :: int
  tm_hour :: int
  tm_min :: int
  tm_sec :: int

definition utc_date_time_format :: string where
  "utc_date_time_format = ''yyyy-mm-ddThh:mm:ssZ''"

definition local_date_time_format :: string where
  "local_date_time_format = ''yyyy-mm-dd hh:mm:ss''"

definition digit :: "nat \<Rightarrow> char" where
  "digit n = char_of (48 + n mod 10)"

text \<open>The conversions \<^verbatim>\<open>%m\<close>, \<^verbatim>\<open>%d\<close>, \<^verbatim>\<open>%H\<close>, \<^verbatim>\<open>%M\<close> and \<^verbatim>\<open>%S\<close>; \<^verbatim>\<open>%F\<close> and \<^verbatim>\<open>%T\<close> are \<^verbatim>\<open>%Y-%m-%d\<close> and \<^verbatim>\<open>%H:%M:%S\<close>.\<close>

definition two_digits :: "int \<Rightarrow> string" where
  "two_digits n = [digit (nat n div 10), digit (nat n)]"

definition strftime_F :: "tm \<Rightarrow> string" where
  "strftime_F t = show_int (1900 + tm_year t) @ ''-'' @ two_digits (tm_mon t + 1) @ ''-'' @ two_digits (tm_mday t)"

definition strftime_T :: "tm \<Rightarrow> string" where
  "strftime_T t = two_digits (tm_hour t) @ '':'' @ two_digits (tm_min t) @ '':'' @ two_digits (tm_sec t)"

text \<open>
  \<^verbatim>\<open>strftime\<close> writes into a string of \<open>capacity\<close> characters and its terminator, and returns 0 when the text
  does not fit; a shorter text leaves null characters behind it.
\<close>

definition strftime_into :: "nat \<Rightarrow> string \<Rightarrow> fault + string" where
  "strftime_into capacity text =
     (if length text > capacity \<or> text = [] then Inl (Throw ''Failed to format date'')
      else Inr (text @ replicate (capacity - length text) (CHR 0x00)))"

definition utc_date_string :: "tm \<Rightarrow> fault + string" where
  "utc_date_string t = strftime_into (length utc_date_time_format) (strftime_F t @ ''T'' @ strftime_T t @ ''Z'')"

definition format_date_for_display :: "tm \<Rightarrow> fault + string" where
  "format_date_for_display t = strftime_into (length local_date_time_format) (strftime_F t @ '' '' @ strftime_T t)"

section \<open>Parsing\<close>

definition is_digit :: "char \<Rightarrow> bool" where
  "is_digit c \<longleftrightarrow> 48 \<le> (of_char c :: nat) \<and> (of_char c :: nat) \<le> 57"

definition is_space :: "char \<Rightarrow> bool" where
  "is_space c \<longleftrightarrow> c = CHR '' '' \<or> (9 \<le> (of_char c :: nat) \<and> (of_char c :: nat) \<le> 13)"

fun digits_value :: "int \<Rightarrow> string \<Rightarrow> int" where
  "digits_value v [] = v"
| "digits_value v (c # cs) = digits_value (10 * v + int (of_char c - 48)) cs"

definition scan_digits :: "nat \<Rightarrow> string \<Rightarrow> (int \<times> string) option" where
  "scan_digits width cs =
     (let ds = takeWhile is_digit (take width cs)
      in if ds = [] then None else Some (digits_value 0 ds, drop (length ds) cs))"

text \<open>\<^verbatim>\<open>%4d\<close> and \<^verbatim>\<open>%2d\<close>: white space is skipped, a sign is accepted and counts as a character of the width.\<close>

definition scan_int :: "nat \<Rightarrow> string \<Rightarrow> (int \<times> string) option" where
  "scan_int width cs =
     (case dropWhile is_space cs of
        [] \<Rightarrow> None
      | c # rest \<Rightarrow>
          if c = CHR ''-'' then map_option (\<lambda>(v, r). (- v, r)) (scan_digits (width - 1) rest)
          else if c = CHR ''+'' then scan_digits (width - 1) rest
          else scan_digits width (c # rest))"

text \<open>A list of conversions, each with the character expected before it; the number of values tells how many were converted.\<close>

fun scan_fields :: "(string \<times> nat) list \<Rightarrow> string \<Rightarrow> int list" where
  "scan_fields [] cs = []"
| "scan_fields ((lit, width) # convs) cs =
     (if take (length lit) cs \<noteq> lit then []
      else case scan_int width (drop (length lit) cs) of
             None \<Rightarrow> []
           | Some (v, rest) \<Rightarrow> v # scan_fields convs rest)"

definition utc_fields :: "(string \<times> nat) list" where
  "utc_fields = [([], 4), (''-'', 2), (''-'', 2), (''T'', 2), ('':'', 2), ('':'', 2)]"

definition parse_utc_date_string :: "string \<Rightarrow> tm result" where
  "parse_utc_date_string text =
     (case scan_fields utc_fields (takeWhile (\<lambda>c. c \<noteq> CHR 0x00) text) of
        [y, mo, d, h, mi, s] \<Rightarrow>
          Inr \<lparr>tm_year = y - 1900, tm_mon = mo - 1, tm_mday = d, tm_hour = h, tm_min = mi, tm_sec = s\<rparr>
      | _ \<Rightarrow> Inl (Error ''Failed to parse date time string''))"

section \<open>Digits\<close>

lemma of_char_digit: "(of_char (digit n) :: nat) = 48 + n mod 10"
  by (simp add: digit_def)

lemma is_digit_digit [simp]: "is_digit (digit n)"
  by (simp add: is_digit_def of_char_digit)

lemma digit_above: "(of_char c :: nat) < 48 \<Longrightarrow> digit n \<noteq> c"
  using of_char_digit [of n] by auto

lemma digit_not_special [simp]: "\<not> is_space (digit n)" "digit n \<noteq> CHR ''-''" "digit n \<noteq> CHR ''+''" "digit n \<noteq> CHR 0x00"
proof -
  have "digit n \<noteq> CHR '' ''"
    by (rule digit_above) simp
  then show "\<not> is_space (digit n)"
    by (simp add: is_space_def of_char_digit)
qed (rule digit_above, simp)+

text \<open>A number of \<open>width\<close> digits is read whole, whatever follows.\<close>

lemma scan_int_digits:
  assumes "n # ns \<noteq> []" "width = length (n # ns)"
  shows "scan_int width (map digit (n # ns) @ cs) = Some (digits_value 0 (map digit (n # ns)), cs)"
proof -
  have all: "takeWhile is_digit (map digit ns) = map digit ns"
    by (simp add: takeWhile_eq_all_conv)
  then show ?thesis
    using assms by (simp add: scan_int_def scan_digits_def Let_def all)
qed

lemma digits_value_digit: "digits_value v (digit n # cs) = digits_value (10 * v + int (n mod 10)) cs"
  by (simp add: of_char_digit)

lemma scan_two:
  assumes "0 \<le> v" "v < 100"
  shows "scan_int 2 (two_digits v @ cs) = Some (v, cs)"
proof -
  have "nat v div 10 mod 10 * 10 + nat v mod 10 = nat v"
    using assms div_mult_mod_eq [of "nat v" 10] by (simp only: mod_less less_mult_imp_div_less)
  then have "10 * int (nat v div 10 mod 10) + int (nat v mod 10) = int (nat v)"
    by (metis mult.commute of_nat_add of_nat_mult of_nat_numeral)
  then have "digits_value 0 (two_digits v) = v"
    using assms by (simp only: two_digits_def digits_value.simps of_char_digit add_diff_cancel_left' mult_zero_right add_0 int_nat_eq if_True)
  then show ?thesis
    using scan_int_digits [of "nat v div 10" "[nat v]" 2 cs] by (simp add: two_digits_def del: digits_value.simps)
qed

lemma show_nat_digits:
  assumes "1000 \<le> n" "n < 10000"
  shows "show_nat n = map digit [n div 1000, n div 100, n div 10, n]"
proof -
  have "n div 10 div 10 div 10 < 10" "\<not> n div 10 div 10 < 10" "\<not> n div 10 < 10" "\<not> n < 10"
    using assms by auto
  then have "show_nat n = [char_of (48 + n div 10 div 10 div 10), char_of (48 + n div 10 div 10 mod 10),
      char_of (48 + n div 10 mod 10), char_of (48 + n mod 10)]"
    by (simp add: show_nat.simps [of n] show_nat.simps [of "n div 10"] show_nat.simps [of "n div 10 div 10"]
        show_nat.simps [of "n div 10 div 10 div 10"] del: div_mult2_eq)
  moreover have "n div 10 div 10 div 10 = n div 1000 mod 10"
    using assms by (simp add: div_mult2_eq [symmetric])
  ultimately show ?thesis
    by (simp add: digit_def div_mult2_eq [symmetric])
qed

lemma four_digits:
  fixes n :: nat
  assumes "n < 10000"
  shows "((n div 1000 mod 10 * 10 + n div 100 mod 10) * 10 + n div 10 mod 10) * 10 + n mod 10 = n"
proof -
  have "n div 1000 mod 10 = n div 100 div 10"
    using assms by (simp add: div_mult2_eq [symmetric])
  then have "n div 1000 mod 10 * 10 + n div 100 mod 10 = n div 100"
    by (simp only: div_mult_mod_eq)
  moreover have "n div 100 * 10 + n div 10 mod 10 = n div 10"
    using div_mult_mod_eq [of "n div 10" 10] by (simp add: div_mult2_eq [symmetric])
  ultimately show ?thesis
    by (simp only: div_mult_mod_eq)
qed

lemma scan_year:
  assumes "1000 \<le> y" "y < 10000"
  shows "scan_int 4 (show_int y @ cs) = Some (y, cs)"
proof -
  have shown: "show_int y = map digit [nat y div 1000, nat y div 100, nat y div 10, nat y]"
    using assms show_nat_digits [of "nat y"] by (simp add: show_int_def)
  have "int (((nat y div 1000 mod 10 * 10 + nat y div 100 mod 10) * 10 + nat y div 10 mod 10) * 10 + nat y mod 10) = y"
    using assms by (subst four_digits) simp_all
  then have "digits_value 0 (show_int y) = y"
    unfolding shown by (simp add: of_char_digit algebra_simps)
  then show ?thesis
    using scan_int_digits [of "nat y div 1000" "[nat y div 100, nat y div 10, nat y]" 4 cs] by (simp add: shown)
qed

section \<open>Properties\<close>

text \<open>The ranges of \<^verbatim>\<open>std::tm\<close>, with a year of four digits.\<close>

definition tm_ok :: "tm \<Rightarrow> bool" where
  "tm_ok t \<longleftrightarrow> 1000 \<le> 1900 + tm_year t \<and> 1900 + tm_year t < 10000 \<and> 0 \<le> tm_mon t \<and> tm_mon t < 12 \<and>
     1 \<le> tm_mday t \<and> tm_mday t < 32 \<and> 0 \<le> tm_hour t \<and> tm_hour t < 24 \<and> 0 \<le> tm_min t \<and> tm_min t < 60 \<and>
     0 \<le> tm_sec t \<and> tm_sec t < 61"

lemma two_digits_length [simp]: "length (two_digits v) = 2"
  by (simp add: two_digits_def)

lemma year_digits:
  assumes "tm_ok t"
  obtains a b c d where "show_int (1900 + tm_year t) = [digit a, digit b, digit c, digit d]"
proof -
  have "1000 \<le> nat (1900 + tm_year t)" "nat (1900 + tm_year t) < 10000" "\<not> 1900 + tm_year t < 0"
    using assms by (auto simp: tm_ok_def)
  from show_nat_digits [OF this(1,2)] this(3) show ?thesis
    using that by (simp add: show_int_def)
qed

lemma year_length: "tm_ok t \<Longrightarrow> length (show_int (1900 + tm_year t)) = 4"
  by (erule year_digits) simp

lemma date_string:
  assumes "tm_ok t"
  shows "utc_date_string t = Inr (strftime_F t @ ''T'' @ strftime_T t @ ''Z'')"
  using year_length [OF assms] by (simp add: utc_date_string_def strftime_into_def strftime_F_def strftime_T_def utc_date_time_format_def)

lemma no_null:
  assumes "tm_ok t" "CHR 0x00 \<notin> set trail"
  shows "CHR 0x00 \<notin> set (strftime_F t @ ''T'' @ strftime_T t @ trail)"
proof -
  obtain a b c d where "show_int (1900 + tm_year t) = [digit a, digit b, digit c, digit d]"
    using year_digits [OF assms(1)] by blast
  then show ?thesis
    using assms(2) digit_not_special(4) digit_not_special(4) [symmetric] by (auto simp: strftime_F_def strftime_T_def two_digits_def)
qed

lemma scan_date:
  assumes "tm_ok t"
  shows "scan_fields utc_fields (strftime_F t @ ''T'' @ strftime_T t @ trail) =
    [1900 + tm_year t, tm_mon t + 1, tm_mday t, tm_hour t, tm_min t, tm_sec t]"
  using assms by (simp add: utc_fields_def strftime_F_def strftime_T_def scan_year scan_two tm_ok_def)

lemma date_read_back:
  assumes "tm_ok t"
  shows "parse_utc_date_string (strftime_F t @ ''T'' @ strftime_T t @ trail) = Inr t"
proof -
  let ?d = "strftime_F t @ ''T'' @ strftime_T t"
  have "takeWhile (\<lambda>c. c \<noteq> CHR 0x00) (?d @ trail) = ?d @ takeWhile (\<lambda>c. c \<noteq> CHR 0x00) trail"
    using no_null [OF assms, of "[]"] by (subst takeWhile_append2) auto
  then show ?thesis
    using scan_date [OF assms, of "takeWhile (\<lambda>c. c \<noteq> CHR 0x00) trail"] by (simp add: parse_utc_date_string_def)
qed

text \<open>Dates and their texts are an encoding.\<close>

interpretation dates: codec tm_ok "\<lambda>t. strftime_F t @ ''T'' @ strftime_T t @ ''Z''" parse_utc_date_string
  by unfold_locales (rule date_read_back)

text \<open>
  A date of a year of four digits that was formatted is parsed back exactly, so different dates have
  different texts; and the parser
  does not look at what follows the seconds, so it accepts a date without its \<^verbatim>\<open>Z\<close> or with anything
  in its place.
\<close>

theorem date_round_trip:
  assumes "tm_ok t"
  shows "\<exists>text. utc_date_string t = Inr text \<and> length text = 20 \<and> parse_utc_date_string text = Inr t \<and>
    parse_utc_date_string (butlast text @ junk) = Inr t \<and> (\<forall>u. tm_ok u \<and> utc_date_string u = Inr text \<longrightarrow> u = t)"
proof -
  let ?d = "strftime_F t @ ''T'' @ strftime_T t"
  have "length (?d @ ''Z'') = 20"
    using year_length [OF assms] by (simp add: strftime_F_def strftime_T_def)
  moreover have "u = t" if "tm_ok u" "utc_date_string u = Inr (?d @ ''Z'')" for u
    using dates.enc_injective [OF that(1) assms] that date_string [of u] by simp
  ultimately show ?thesis
    using date_string [OF assms] dates.dec_enc [OF assms] date_read_back [OF assms, of junk]
    by (intro exI [of _ "?d @ ''Z''"]) (auto simp: butlast_append)
qed

theorem date_round_trip_witness:
  "\<exists>text. utc_date_string \<lparr>tm_year = 126, tm_mon = 1, tm_mday = 28, tm_hour = 23, tm_min = 59, tm_sec = 5\<rparr> = Inr text \<and> length text = 20"
  using date_round_trip [of "\<lparr>tm_year = 126, tm_mon = 1, tm_mday = 28, tm_hour = 23, tm_min = 59, tm_sec = 5\<rparr>" "[]"]
  by (auto simp: tm_ok_def)

end
