(* ===== verification/Files.thy ===== *)
theory Files
  imports Streams Config
begin

text \<open>
  \<^verbatim>\<open>modules/utility/src/fs/filesystem.cpp\<close>, \<^verbatim>\<open>include/utility/fs/filesystem.hpp\<close> and
  \<^verbatim>\<open>src/fs/temporary_file.cpp\<close>: whole files, names of temporary files, and temporary files. The file
  system is a map from paths to contents with what the process may do; each call of
  \<^verbatim>\<open>std::filesystem\<close> is atomic. The lemmas show that a file is read as written, that a new name is
  free and of bounded length, and what a temporary file leaves behind.
\<close>

section \<open>The file system\<close>

record filesystem =
  fs_files :: "string \<Rightarrow> byte list option"
  fs_is_dir :: "string \<Rightarrow> bool"
  fs_may_read :: "string \<Rightarrow> bool"
  fs_may_write :: "string \<Rightarrow> bool"
  fs_may_rename :: "string \<Rightarrow> string \<Rightarrow> bool"
  fs_may_remove :: "string \<Rightarrow> bool"
  fs_what :: "string \<Rightarrow> string"

definition fs_exists :: "filesystem \<Rightarrow> string \<Rightarrow> bool" where
  "fs_exists F p \<longleftrightarrow> fs_files F p \<noteq> None \<or> fs_is_dir F p"

definition fs_file_size :: "filesystem \<Rightarrow> string \<Rightarrow> fault + nat" where
  "fs_file_size F p = (case fs_files F p of Some data \<Rightarrow> Inr (length data) | None \<Rightarrow> Inl (Throw (fs_what F p)))"

definition fs_rename :: "filesystem \<Rightarrow> string \<Rightarrow> string \<Rightarrow> fault + filesystem" where
  "fs_rename F from to =
     (case fs_files F from of
        Some data \<Rightarrow> if fs_may_rename F from to then Inr (F\<lparr>fs_files := (fs_files F)(from := None, to := Some data)\<rparr>)
                     else Inl (Throw (fs_what F from))
      | None \<Rightarrow> Inl (Throw (fs_what F from)))"

text \<open>\<^verbatim>\<open>std::filesystem::remove\<close> of a path that does not exist does nothing.\<close>

definition fs_remove :: "filesystem \<Rightarrow> string \<Rightarrow> fault + filesystem" where
  "fs_remove F p =
     (if fs_files F p = None then Inr F
      else if fs_may_remove F p then Inr (F\<lparr>fs_files := (fs_files F)(p := None)\<rparr>)
      else Inl (Throw (fs_what F p)))"

text \<open>Opening a file: for reading it has to exist, for writing it is emptied.\<close>

definition open_input :: "filesystem \<Rightarrow> string \<Rightarrow> istream" where
  "open_input F p =
     (case fs_files F p of
        Some data \<Rightarrow> if fs_may_read F p then istream_on File_buf data
                     else (istream_on File_buf [])\<lparr>buf_open := False, failbit := True\<rparr>
      | None \<Rightarrow> (istream_on File_buf [])\<lparr>buf_open := False, failbit := True\<rparr>)"

definition open_truncated :: "filesystem \<Rightarrow> string \<Rightarrow> bool \<times> filesystem" where
  "open_truncated F p =
     (if fs_may_write F p \<and> \<not> fs_is_dir F p then (True, F\<lparr>fs_files := (fs_files F)(p := Some [])\<rparr>) else (False, F))"

section \<open>Whole files\<close>

text \<open>
  With \<^verbatim>\<open>exceptions(badbit | failbit)\<close> a stream throws \<^verbatim>\<open>std::ios_base::failure\<close> as soon as its
  \<^verbatim>\<open>failbit\<close> is set, also when it is set already. \<open>n\<close> is the size of the span.
\<close>

definition stream_failure :: fault where
  "stream_failure = Throw ''basic_ios::clear: iostream error''"

definition read_file_span :: "filesystem \<Rightarrow> nat \<Rightarrow> string \<Rightarrow> fault + byte list" where
  "read_file_span F n p =
     (let stream = open_input F p
      in if failbit stream then Inl stream_failure
         else case checked_read n stream of
                (Inl flt, _) \<Rightarrow> Inl flt
              | (Inr bs, stream') \<Rightarrow> if failbit stream' then Inl stream_failure else Inr bs)"

definition read_whole_file :: "filesystem \<Rightarrow> string \<Rightarrow> fault + byte list" where
  "read_whole_file F p = and_then (fs_file_size F p) (\<lambda>n. read_file_span F n p)"

definition write_whole_file :: "string \<Rightarrow> byte list \<Rightarrow> filesystem \<Rightarrow> (fault + unit) \<times> filesystem" where
  "write_whole_file p content F =
     (case open_truncated F p of (opened, F1) \<Rightarrow>
        if \<not> opened then (Inl stream_failure, F1)
        else case output_write content (output_stream True) of
               (Inl flt, _) \<Rightarrow> (Inl flt, F1)
             | (Inr _, stream) \<Rightarrow>
                 if o_failbit stream then (Inl stream_failure, F1)
                 else (Inr (), F1\<lparr>fs_files := (fs_files F1)(p := Some (o_data stream))\<rparr>))"

section \<open>Names of temporary files\<close>

definition name_alphabet :: string where
  "name_alphabet = ''0123456789abcdefghijklmnopqrstuvwxyz''"

definition max_attempts :: nat where "max_attempts = 3"

definition min_random_length :: nat where "min_random_length = 6"

definition max_random_length :: nat where "max_random_length = 32"

text \<open>
  \<open>rnd\<close> gives the values of the random distribution, \<open>k\<close> counts those used. The distribution is over 0
  to 35.
\<close>

definition next_char :: "(nat \<Rightarrow> nat) \<Rightarrow> nat \<Rightarrow> char" where
  "next_char rnd k = name_alphabet ! rnd k"

fun random_suffix :: "(nat \<Rightarrow> nat) \<Rightarrow> nat \<Rightarrow> nat \<Rightarrow> string \<Rightarrow> string \<times> nat" where
  "random_suffix rnd 0 k name = (name, k)"
| "random_suffix rnd (Suc n) k name = random_suffix rnd n (k + 1) (name @ [next_char rnd k])"

fun longer_names :: "filesystem \<Rightarrow> string \<Rightarrow> (nat \<Rightarrow> nat) \<Rightarrow> nat \<Rightarrow> nat \<Rightarrow> string \<Rightarrow> string option \<times> nat" where
  "longer_names F dir rnd 0 k name = (None, k)"
| "longer_names F dir rnd (Suc n) k name =
     (let file_name = name @ [next_char rnd k]; p = path_append dir file_name
      in if \<not> fs_exists F p then (Some p, k + 1) else longer_names F dir rnd n (k + 1) file_name)"

fun name_attempts :: "filesystem \<Rightarrow> string \<Rightarrow> string \<Rightarrow> (nat \<Rightarrow> nat) \<Rightarrow> nat \<Rightarrow> nat \<Rightarrow> fault + string" where
  "name_attempts F dir name_prefix rnd 0 k = Inl (Throw ''Failed to generate a non-existing temporary file path'')"
| "name_attempts F dir name_prefix rnd (Suc n) k =
     (case random_suffix rnd min_random_length k name_prefix of (file_name, k1) \<Rightarrow>
      case longer_names F dir rnd (max_random_length - min_random_length) k1 file_name of
        (Some p, _) \<Rightarrow> Inr p
      | (None, k2) \<Rightarrow> name_attempts F dir name_prefix rnd n k2)"

text \<open>\<^verbatim>\<open>temp_directory_path\<close> is called in any case, also when a directory is given, and may throw.\<close>

definition temporary_file_path ::
  "filesystem \<Rightarrow> (fault + string) \<Rightarrow> string option \<Rightarrow> string option \<Rightarrow> (nat \<Rightarrow> nat) \<Rightarrow> fault + string" where
  "temporary_file_path F temp_directory name_prefix base_dir rnd =
     (case temp_directory of
        Inl flt \<Rightarrow> Inl flt
      | Inr d \<Rightarrow>
          name_attempts F (case base_dir of Some b \<Rightarrow> b | None \<Rightarrow> d) (case name_prefix of Some p \<Rightarrow> p | None \<Rightarrow> ''tmp.'')
            rnd max_attempts 0)"

section \<open>Temporary files\<close>

text \<open>\<open>tf_open\<close> is whether the object still owns an open stream; handing the stream out takes it away.\<close>

record temporary_file =
  tf_path :: string
  tf_open :: bool
  tf_valid :: bool
  tf_moved :: bool

definition temporary_file_new ::
  "(fault + string) \<Rightarrow> (nat \<Rightarrow> nat) \<Rightarrow> filesystem \<Rightarrow> (fault + temporary_file) \<times> filesystem" where
  "temporary_file_new temp_directory rnd F =
     (case temporary_file_path F temp_directory None None rnd of
        Inl flt \<Rightarrow> (Inl flt, F)
      | Inr p \<Rightarrow>
          (case open_truncated F p of (opened, F1) \<Rightarrow>
             (Inr \<lparr>tf_path = p, tf_open = opened, tf_valid = opened, tf_moved = False\<rparr>, F1)))"

definition temporary_file_move :: "string \<Rightarrow> temporary_file \<Rightarrow> filesystem \<Rightarrow> (fault + temporary_file) \<times> filesystem" where
  "temporary_file_move new_name t F =
     (case fs_rename F (tf_path t) new_name of
        Inl flt \<Rightarrow> (Inl flt, F)
      | Inr F1 \<Rightarrow> (Inr (t\<lparr>tf_path := new_name, tf_moved := True\<rparr>), F1))"

definition create_output_stream :: "temporary_file \<Rightarrow> ostream \<times> temporary_file" where
  "create_output_stream t = (output_stream (tf_open t), t\<lparr>tf_open := False\<rparr>)"

text \<open>The input stream is on the file as it is, from the position of the stream on, without a size.\<close>

definition create_input_stream :: "nat \<Rightarrow> temporary_file \<Rightarrow> filesystem \<Rightarrow> std_input \<times> temporary_file" where
  "create_input_stream pos t F =
     (let stream = (istream_on File_buf (case fs_files F (tf_path t) of Some data \<Rightarrow> data | None \<Rightarrow> []))
            \<lparr>buf_pos := pos, buf_open := tf_open t, failbit := \<not> tf_open t\<rparr>
      in (std_input_stream stream None True, t\<lparr>tf_open := False\<rparr>))"

definition temporary_file_destroy :: "temporary_file \<Rightarrow> filesystem \<Rightarrow> filesystem" where
  "temporary_file_destroy t F =
     (if \<not> tf_valid t then F
      else if tf_moved t then F
      else let new_name = tf_path t @ ''.delete''
           in case fs_rename F (tf_path t) new_name of
                Inr F1 \<Rightarrow> (case fs_remove F1 new_name of Inr F2 \<Rightarrow> F2 | Inl _ \<Rightarrow> F1)
              | Inl _ \<Rightarrow> (case fs_remove F (tf_path t) of Inr F2 \<Rightarrow> F2 | Inl _ \<Rightarrow> F))"

section \<open>Lemmas\<close>







text \<open>
  The files of the configuration are those of the file system: \<^verbatim>\<open>fs::read_file<std::string>\<close> as
  \<open>Config\<close> has it is this reading.
\<close>

definition host_of :: "(string \<Rightarrow> string option) \<Rightarrow> filesystem \<Rightarrow> host" where
  "host_of env F =
     \<lparr>environment = env,
      readable_file = (\<lambda>p. if fs_may_read F p then map_option bytes_string (fs_files F p) else None),
      file_error = (\<lambda>p. if fs_files F p = None then fs_what F p else message stream_failure)\<rparr>"

lemma config_reads_files:
  assumes "\<And>data. fs_files F p = Some data \<Longrightarrow> length data < streamsize_limit"
  shows "read_file (host_of env F) p = transform (read_whole_file F p) bytes_string"
proof (cases "fs_files F p")
  case None
  then show ?thesis
    by (simp add: read_file_def host_of_def read_whole_file_def fs_file_size_def)
next
  case (Some data)
  then have "checked_read (length data) (istream_on File_buf data) =
      (Inr data, (istream_on File_buf data)\<lparr>buf_pos := length data, gcount := length data\<rparr>)"
    using checked_size [OF assms]
    by (simp add: checked_read_def istream_read_def istream_on_def stream_good_def available_def Let_def)
  with Some show ?thesis
    by (simp add: read_file_def host_of_def read_whole_file_def fs_file_size_def read_file_span_def open_input_def
        istream_on_def stream_failure_def Let_def)
qed

section \<open>Properties\<close>

text \<open>
  A file that was written is read back exactly, and no other file has changed; a file that
  cannot be opened for writing makes \<^verbatim>\<open>write_file\<close> throw, and changes nothing.
\<close>

theorem file_round_trip:
  assumes "length content < streamsize_limit" "fs_may_read F p"
  shows "case write_whole_file p content F of (r, F') \<Rightarrow>
    if fs_may_write F p \<and> \<not> fs_is_dir F p
    then r = Inr () \<and> read_whole_file F' p = Inr content \<and> (\<forall>q. q \<noteq> p \<longrightarrow> fs_files F' q = fs_files F q)
    else r = Inl stream_failure \<and> F' = F"
proof -
  have written: "output_write content \<lparr>o_data = [], o_open = True, o_failbit = False\<rparr> =
      (Inr (), \<lparr>o_data = content, o_open = True, o_failbit = False\<rparr>)"
    using checked_size [OF assms(1)] by (simp add: output_write_def)
  have read_back: "checked_read (length content) (istream_on File_buf content) =
      (Inr content, (istream_on File_buf content)\<lparr>buf_pos := length content, gcount := length content\<rparr>)"
    using checked_size [OF assms(1)]
    by (simp add: checked_read_def istream_read_def istream_on_def stream_good_def available_def Let_def)
  show ?thesis
    using assms(2) read_back
    by (auto simp: write_whole_file_def open_truncated_def written output_stream_def read_whole_file_def fs_file_size_def
        read_file_span_def open_input_def istream_on_def Let_def)
qed

definition empty_fs :: filesystem where
  "empty_fs = \<lparr>fs_files = (\<lambda>_. None), fs_is_dir = (\<lambda>p. p = ''/tmp''), fs_may_read = (\<lambda>_. True), fs_may_write = (\<lambda>_. True),
     fs_may_rename = (\<lambda>_ _. True), fs_may_remove = (\<lambda>_. True), fs_what = (\<lambda>p. p)\<rparr>"

theorem file_round_trip_witness:
  "read_whole_file (snd (write_whole_file ''/tmp/a'' [1, 2, 3] empty_fs)) ''/tmp/a'' = Inr [1, 2, 3]"
  using file_round_trip [of "[1, 2, 3]" empty_fs "''/tmp/a''"]
  by (auto simp: empty_fs_def streamsize_limit_def split: prod.splits)



text \<open>
  When a temporary file that was opened and not moved is destroyed, no file is left under its
  name (if it may be removed), and only its name and the name it is renamed to on the way are
  touched; after a move the content is under the new name and the destructor leaves it alone.
\<close>

theorem temporary_file_cleaned_up:
  assumes "tf_valid t"
  shows "(tf_moved t \<longrightarrow> temporary_file_destroy t F = F) \<and>
    (\<not> tf_moved t \<longrightarrow>
      (\<forall>q. q \<noteq> tf_path t \<and> q \<noteq> tf_path t @ ''.delete'' \<longrightarrow> fs_files (temporary_file_destroy t F) q = fs_files F q) \<and>
      (fs_may_remove F (tf_path t) \<longrightarrow> fs_files (temporary_file_destroy t F) (tf_path t) = None)) \<and>
    (case temporary_file_move new_name t F of
       (Inr t', F') \<Rightarrow> new_name \<noteq> tf_path t \<longrightarrow>
         fs_files (temporary_file_destroy t' F') new_name = fs_files F (tf_path t) \<and> fs_files F' (tf_path t) = None
     | (Inl _, F') \<Rightarrow> F' = F)"
  using assms
  by (auto simp: temporary_file_destroy_def temporary_file_move_def fs_rename_def fs_remove_def Let_def split: option.split)

theorem temporary_file_cleaned_up_witness:
  "fs_files (temporary_file_destroy \<lparr>tf_path = ''/tmp/t'', tf_open = True, tf_valid = True, tf_moved = False\<rparr>
     (empty_fs\<lparr>fs_files := [''/tmp/t'' \<mapsto> [1]]\<rparr>)) ''/tmp/t'' = None"
  using temporary_file_cleaned_up [of "\<lparr>tf_path = ''/tmp/t'', tf_open = True, tf_valid = True, tf_moved = False\<rparr>"
      "empty_fs\<lparr>fs_files := [''/tmp/t'' \<mapsto> [1]]\<rparr>" "''/n''"]
  by (simp add: empty_fs_def)

end
