(* ===== verification/Logging.thy ===== *)
theory Logging
  imports Config Dates
begin

text \<open>
  \<^verbatim>\<open>modules/utility/include/utility/log/log.hpp\<close> with \<^verbatim>\<open>src/log/{ansi,stdout,global_logger}.cpp\<close>: the
  logger, which builds a line of text and escape sequences under its mutex and prints it, and its
  implementation on the standard streams. The formatting of a message and of the date may throw; both
  are parameters. The lemmas show what is printed where, that colours only add escape sequences,
  and what is left behind when formatting throws.
\<close>

section \<open>Escape sequences\<close>

datatype ansi_sequence = Color int | Reset

definition esc :: char where
  "esc = CHR 0x1B"

definition write_escape_sequence :: "ansi_sequence \<Rightarrow> string" where
  "write_escape_sequence seq = (case seq of Color code \<Rightarrow> esc # ''[38;5;'' @ show_int code @ ''m'' | Reset \<Rightarrow> esc # ''[m'')"

definition is_color_undesired :: "host \<Rightarrow> bool" where
  "is_color_undesired h = (case getenv h ''NO_COLOR'' of Some v \<Rightarrow> v \<noteq> [] | None \<Rightarrow> False)"

definition is_color_desired_unconditionally :: "host \<Rightarrow> bool" where
  "is_color_desired_unconditionally h = (case getenv h ''FORCE_COLOR'' of Some v \<Rightarrow> v \<noteq> [] | None \<Rightarrow> False)"

text \<open>\<open>terminal\<close> is whether standard output is a terminal.\<close>

definition is_color_supported :: "host \<Rightarrow> bool \<Rightarrow> bool" where
  "is_color_supported h terminal =
     (if is_color_desired_unconditionally h then True
      else if is_color_undesired h then False
      else terminal)"

section \<open>The logger\<close>

datatype log_part = Sequence ansi_sequence | Piece string

record log_request =
  lr_level :: log_level
  lr_line :: "log_part list"
  lr_always_flush :: bool

datatype log_capability = Log_thread

record logger =
  lg_level :: log_level
  lg_log_thread :: bool
  lg_line :: "log_part list"

definition logger_new :: logger where
  "logger_new = \<lparr>lg_level = Log_none, lg_log_thread = False, lg_line = []\<rparr>"

definition level_int :: "log_level \<Rightarrow> nat" where
  "level_int l = (case l of Log_none \<Rightarrow> 0 | Log_error \<Rightarrow> 1 | Log_warning \<Rightarrow> 2 | Log_info \<Rightarrow> 3 | Log_debug \<Rightarrow> 4)"

text \<open>The severities are ordered by their values in the code.\<close>

instantiation log_level :: linorder
begin

definition less_eq_log_level :: "log_level \<Rightarrow> log_level \<Rightarrow> bool" where
  "less_eq_log_level a b \<longleftrightarrow> level_int a \<le> level_int b"

definition less_log_level :: "log_level \<Rightarrow> log_level \<Rightarrow> bool" where
  "less_log_level a b \<longleftrightarrow> level_int a < level_int b"

instance
  by standard (auto simp: less_eq_log_level_def less_log_level_def level_int_def split: log_level.splits)

end

definition set_level :: "log_level \<Rightarrow> logger \<Rightarrow> logger" where
  "set_level l lg = lg\<lparr>lg_level := l\<rparr>"

definition set_capability :: "log_capability \<Rightarrow> bool \<Rightarrow> logger \<Rightarrow> logger" where
  "set_capability cap enable lg = (case cap of Log_thread \<Rightarrow> lg\<lparr>lg_log_thread := enable\<rparr>)"

definition is_error_like :: "log_level \<Rightarrow> bool" where
  "is_error_like l \<longleftrightarrow> l = Log_error \<or> l = Log_warning"

definition color_from_level :: "log_level \<Rightarrow> ansi_sequence" where
  "color_from_level l =
     Color (case l of Log_none \<Rightarrow> 7 | Log_error \<Rightarrow> 9 | Log_warning \<Rightarrow> 11 | Log_info \<Rightarrow> 2 | Log_debug \<Rightarrow> 14)"

text \<open>\<^verbatim>\<open>{:<5}\<close> and \<^verbatim>\<open>{:>15}\<close>.\<close>

definition pad_left_aligned :: "nat \<Rightarrow> string \<Rightarrow> string" where
  "pad_left_aligned width s = s @ replicate (width - length s) (CHR '' '')"

definition pad_right_aligned :: "nat \<Rightarrow> string \<Rightarrow> string" where
  "pad_right_aligned width s = replicate (width - length s) (CHR '' '') @ s"

definition append_parts :: "log_part list \<Rightarrow> logger \<Rightarrow> logger" where
  "append_parts parts lg = lg\<lparr>lg_line := lg_line lg @ parts\<rparr>"

definition append_date :: "string \<Rightarrow> logger \<Rightarrow> logger" where
  "append_date date = append_parts [Sequence (Color 240), Piece date, Sequence Reset]"

definition append_level :: "log_level \<Rightarrow> logger \<Rightarrow> logger" where
  "append_level l =
     append_parts [Piece '' '', Sequence (color_from_level l), Piece (pad_left_aligned 5 (get_log_level_name l)), Sequence Reset]"

definition append_thread :: "string \<Rightarrow> logger \<Rightarrow> logger" where
  "append_thread thread_id lg =
     (if lg_log_thread lg
      then append_parts [Piece '' '', Sequence (Color 240), Piece (''['' @ pad_right_aligned 15 thread_id @ '']''), Sequence Reset] lg
      else lg)"

definition append_message :: "string \<Rightarrow> logger \<Rightarrow> logger" where
  "append_message text = append_parts [Piece ('' '' @ text @ [CHR 0x0A])]"

text \<open>
  \<^verbatim>\<open>log\<close>: \<open>date\<close> and \<open>text\<close> are the results of formatting the date and the message, \<open>always_flush\<close> is set
  in debug builds, \<open>print_impl\<close> prints on the state of the outside. Exceptions are dropped.
\<close>

definition log_message ::
  "(log_request \<Rightarrow> 'w \<Rightarrow> 'w) \<Rightarrow> bool \<Rightarrow> log_level \<Rightarrow> fault + string \<Rightarrow> string \<Rightarrow> fault + string \<Rightarrow> logger \<times> 'w \<Rightarrow> logger \<times> 'w" where
  "log_message print_impl always_flush l date thread_id text s =
     (case s of (lg, w) \<Rightarrow>
        if level_int (lg_level lg) < level_int l then (lg, w)
        else case date of
               Inl _ \<Rightarrow> (lg, w)
             | Inr d \<Rightarrow>
                 (let lg1 = append_level l (append_thread thread_id (append_date d lg))
                  in case text of
                       Inl _ \<Rightarrow> (lg1, w)
                     | Inr m \<Rightarrow>
                         (let lg2 = append_message m lg1
                          in (lg2\<lparr>lg_line := []\<rparr>,
                              print_impl \<lparr>lr_level = l, lr_line = lg_line lg2, lr_always_flush = always_flush\<rparr> w))))"

section \<open>Standard streams\<close>

record std_streams =
  std_cout :: string
  std_cerr :: string
  flushes :: nat

text \<open>\<^verbatim>\<open>PrintVisitor\<close> and \<^verbatim>\<open>ColorPrintVisitor\<close>.\<close>

definition print_part :: "log_part \<Rightarrow> string" where
  "print_part p = (case p of Sequence _ \<Rightarrow> [] | Piece s \<Rightarrow> s)"

definition color_print_part :: "log_part \<Rightarrow> string" where
  "color_print_part p = (case p of Sequence seq \<Rightarrow> write_escape_sequence seq | Piece s \<Rightarrow> s)"

definition stdout_text :: "bool \<Rightarrow> log_part list \<Rightarrow> string" where
  "stdout_text enable_color line = concat (map (if enable_color then color_print_part else print_part) line)"

definition stdout_print_impl :: "bool \<Rightarrow> log_request \<Rightarrow> std_streams \<Rightarrow> std_streams" where
  "stdout_print_impl enable_color req w =
     (let out = stdout_text enable_color (lr_line req);
          w1 = (if is_error_like (lr_level req) then w\<lparr>std_cerr := std_cerr w @ out\<rparr> else w\<lparr>std_cout := std_cout w @ out\<rparr>)
      in if lr_always_flush req then w1\<lparr>flushes := flushes w1 + 1\<rparr> else w1)"

definition global_logger_new :: logger where
  "global_logger_new = set_level Log_error logger_new"

section \<open>Lemmas\<close>

text \<open>The text of a whole entry, and the parts it is printed from.\<close>

definition entry_parts :: "bool \<Rightarrow> log_level \<Rightarrow> string \<Rightarrow> string \<Rightarrow> log_part list" where
  "entry_parts log_thread l date thread_id =
     [Sequence (Color 240), Piece date, Sequence Reset] @
     (if log_thread
      then [Piece '' '', Sequence (Color 240), Piece (''['' @ pad_right_aligned 15 thread_id @ '']''), Sequence Reset] else []) @
     [Piece '' '', Sequence (color_from_level l), Piece (pad_left_aligned 5 (get_log_level_name l)), Sequence Reset]"

lemma log_message_simps:
  "level_int (lg_level lg) < level_int l \<Longrightarrow> log_message pr fl l date tid text (lg, w) = (lg, w)"
  "\<not> level_int (lg_level lg) < level_int l \<Longrightarrow> log_message pr fl l (Inl e) tid text (lg, w) = (lg, w)"
  "\<not> level_int (lg_level lg) < level_int l \<Longrightarrow> log_message pr fl l (Inr d) tid (Inl e) (lg, w) =
     (lg\<lparr>lg_line := lg_line lg @ entry_parts (lg_log_thread lg) l d tid\<rparr>, w)"
  "\<not> level_int (lg_level lg) < level_int l \<Longrightarrow> log_message pr fl l (Inr d) tid (Inr m) (lg, w) =
     (lg\<lparr>lg_line := []\<rparr>,
      pr \<lparr>lr_level = l, lr_line = lg_line lg @ entry_parts (lg_log_thread lg) l d tid @ [Piece ('' '' @ m @ [CHR 0x0A])],
           lr_always_flush = fl\<rparr> w)"
  by (simp_all add: log_message_def append_date_def append_thread_def append_level_def append_message_def append_parts_def
      entry_parts_def Let_def)

lemma logger_line_empty: "lg_line lg = [] \<Longrightarrow> lg\<lparr>lg_line := []\<rparr> = (lg :: logger)"
  by (cases lg) simp

lemma stdout_text_append [simp]: "stdout_text c (xs @ ys) = stdout_text c xs @ stdout_text c ys"
  by (simp add: stdout_text_def)

text \<open>Removing escape sequences: from the escape character to the next \<^verbatim>\<open>m\<close>.\<close>

fun strip_escapes :: "bool \<Rightarrow> string \<Rightarrow> string" where
  "strip_escapes inside [] = []"
| "strip_escapes inside (c # cs) =
     (if inside then strip_escapes (c \<noteq> CHR ''m'') cs
      else if c = esc then strip_escapes True cs
      else c # strip_escapes False cs)"

lemma strip_plain: "esc \<notin> set s \<Longrightarrow> strip_escapes False (s @ t) = s @ strip_escapes False t"
  by (induction s) auto

lemma strip_inside: "CHR ''m'' \<notin> set s \<Longrightarrow> strip_escapes True (s @ CHR ''m'' # t) = strip_escapes False t"
  by (induction s) auto

lemma show_nat_no_letter: "c \<in> set (show_nat n) \<Longrightarrow> (of_char c :: nat) \<le> 57"
proof (induction n rule: show_nat.induct)
  case (1 n)
  have "(of_char (char_of (48 + n mod 10) :: char) :: nat) = 48 + n mod 10"
    by simp
  moreover have "n mod 10 \<le> 9"
    by simp
  ultimately show ?case
    using 1 by (auto simp: show_nat.simps [of n] split: if_splits)
qed

lemma no_letter_m: "CHR ''m'' \<notin> set (show_int i)"
proof -
  have "CHR ''m'' \<notin> set (show_nat n)" for n
    using show_nat_no_letter [of "CHR ''m''" n] by auto
  then show ?thesis
    by (simp add: show_int_def)
qed

lemma strip_sequence: "strip_escapes False (write_escape_sequence seq @ t) = strip_escapes False t"
proof (cases seq)
  case (Color code)
  have "strip_escapes True ((''[38;5;'' @ show_int code) @ CHR ''m'' # t) = strip_escapes False t"
    using no_letter_m by (intro strip_inside) simp
  with Color show ?thesis
    by (simp add: write_escape_sequence_def)
qed (simp add: write_escape_sequence_def)

definition no_escapes :: "log_part list \<Rightarrow> bool" where
  "no_escapes line \<longleftrightarrow> (\<forall>s. Piece s \<in> set line \<longrightarrow> esc \<notin> set s)"

lemma strip_colored: "no_escapes line \<Longrightarrow> strip_escapes False (stdout_text True line) = stdout_text False line"
proof (induction line)
  case (Cons p line)
  then have "no_escapes line"
    by (simp add: no_escapes_def)
  with Cons show ?case
    by (cases p) (simp_all add: stdout_text_def color_print_part_def print_part_def strip_sequence strip_plain no_escapes_def)
qed (simp add: stdout_text_def)

section \<open>Properties\<close>

text \<open>
  A message is printed if and only if its level is within the logger's, errors and warnings to
  standard error and the others to standard output, as one line that ends in a newline; with
  colours the output is the one without them plus escape sequences.
\<close>

theorem log_output:
  assumes "lg_line lg = []" "esc \<notin> set d" "esc \<notin> set m" "esc \<notin> set tid"
    "log_message (stdout_print_impl colored) flush l (Inr d) tid (Inr m) (lg, w) = (lg', w')"
  shows "lg' = lg \<and>
    (if l \<le> lg_level lg
     then \<exists>shown. strip_escapes False shown =
             d @ (if lg_log_thread lg then '' ['' @ pad_right_aligned 15 tid @ '']'' else []) @ '' '' @
             pad_left_aligned 5 (get_log_level_name l) @ '' '' @ m @ [CHR 0x0A] \<and>
           (\<not> colored \<longrightarrow> shown = strip_escapes False shown) \<and>
           (if is_error_like l then std_cerr w' = std_cerr w @ shown \<and> std_cout w' = std_cout w
            else std_cout w' = std_cout w @ shown \<and> std_cerr w' = std_cerr w)
     else w' = w)"
proof (cases "level_int (lg_level lg) < level_int l")
  case True
  with assms(5) show ?thesis
    by (simp add: log_message_simps less_eq_log_level_def)
next
  case False
  then have shown: "l \<le> lg_level lg"
    by (simp add: less_eq_log_level_def)
  let ?line = "entry_parts (lg_log_thread lg) l d tid @ [Piece ('' '' @ m @ [CHR 0x0A])]"
  have w': "lg' = lg" "w' = stdout_print_impl colored \<lparr>lr_level = l, lr_line = ?line, lr_always_flush = flush\<rparr> w"
    using assms(1,5) False by (auto simp: log_message_simps logger_line_empty)
  have "esc \<notin> set (get_log_level_name l)"
    by (cases l) (simp_all add: get_log_level_name_def esc_def)
  then have clean: "no_escapes ?line"
    using assms(2-4) by (auto simp: no_escapes_def entry_parts_def pad_right_aligned_def pad_left_aligned_def esc_def)
  have plain: "stdout_text False ?line = d @ (if lg_log_thread lg then '' ['' @ pad_right_aligned 15 tid @ '']'' else []) @ '' '' @
      pad_left_aligned 5 (get_log_level_name l) @ '' '' @ m @ [CHR 0x0A]"
    by (simp add: stdout_text_def print_part_def entry_parts_def)
  have "strip_escapes False (stdout_text False ?line) = stdout_text False ?line"
    using clean strip_plain [of "stdout_text False ?line" "[]"]
    by (auto simp: no_escapes_def stdout_text_def print_part_def split: log_part.splits)
  then have strip: "strip_escapes False (stdout_text colored ?line) = stdout_text False ?line"
    using strip_colored [OF clean] by (cases colored) simp_all
  have "(if is_error_like l then std_cerr w' = std_cerr w @ stdout_text colored ?line \<and> std_cout w' = std_cout w
      else std_cout w' = std_cout w @ stdout_text colored ?line \<and> std_cerr w' = std_cerr w)"
    by (simp add: w' stdout_print_impl_def Let_def)
  moreover have "\<not> colored \<longrightarrow> stdout_text colored ?line = strip_escapes False (stdout_text colored ?line)"
    using strip by auto
  ultimately show ?thesis
    using strip shown w'(1) unfolding plain by metis
qed

theorem log_output_witness:
  "\<exists>shown. strip_escapes False shown = ''d ERROR m'' @ [CHR 0x0A] \<and>
     std_cerr (snd (log_message (stdout_print_impl True) False Log_error (Inr ''d'') [] (Inr ''m'')
       (global_logger_new, \<lparr>std_cout = [], std_cerr = [], flushes = 0\<rparr>))) = shown"
proof -
  let ?s = "log_message (stdout_print_impl True) False Log_error (Inr ''d'') [] (Inr ''m'')
       (global_logger_new, \<lparr>std_cout = [], std_cerr = [], flushes = 0\<rparr>)"
  show ?thesis
    using log_output [of global_logger_new "''d''" "''m''" "[]" True False Log_error "\<lparr>std_cout = [], std_cerr = [], flushes = 0\<rparr>"
        "fst ?s" "snd ?s"]
    by (auto simp: global_logger_new_def set_level_def logger_new_def level_int_def is_error_like_def pad_left_aligned_def
        get_log_level_name_def esc_def less_eq_log_level_def)
qed

text \<open>
  A message whose formatting throws prints nothing, but what was built of its line stays: the
  next message is printed behind the date and the level of the failed one.
\<close>

theorem failed_message_sticks:
  assumes "lg_line lg = []" "l \<le> lg_level lg" "next_l \<le> lg_level lg"
  shows "case log_message (stdout_print_impl colored) flush l (Inr d) tid (Inl flt) (lg, w) of (lg1, w1) \<Rightarrow>
    w1 = w \<and> lg1 \<noteq> lg \<and>
    (case log_message (stdout_print_impl False) flush next_l (Inr next_d) tid (Inr next_m) (lg1, w1) of (lg2, w2) \<Rightarrow>
       lg2 = lg \<and>
       std_cerr w2 @ std_cout w2 = (if is_error_like next_l then std_cerr w @ stdout_text False
           (entry_parts (lg_log_thread lg) l d tid @ entry_parts (lg_log_thread lg) next_l next_d tid @ [Piece ('' '' @ next_m @ [CHR 0x0A])]) @ std_cout w
         else std_cerr w @ std_cout w @ stdout_text False
           (entry_parts (lg_log_thread lg) l d tid @ entry_parts (lg_log_thread lg) next_l next_d tid @ [Piece ('' '' @ next_m @ [CHR 0x0A])])))"
proof -
  let ?lg1 = "lg\<lparr>lg_line := entry_parts (lg_log_thread lg) l d tid\<rparr>"
  have "?lg1 \<noteq> lg"
    using assms(1) by (auto simp: entry_parts_def dest: arg_cong [of _ _ lg_line])
  moreover have "?lg1\<lparr>lg_line := []\<rparr> = lg"
    using logger_line_empty [OF assms(1)] by simp
  ultimately show ?thesis
    using assms by (simp add: log_message_simps less_eq_log_level_def stdout_print_impl_def Let_def logger_line_empty)
qed

theorem failed_message_sticks_witness:
  "lg_line (fst (log_message (stdout_print_impl False) False Log_error (Inr ''d'') [] (Inl (Throw ''x''))
      (global_logger_new, \<lparr>std_cout = [], std_cerr = [], flushes = 0\<rparr>))) \<noteq> []"
  using failed_message_sticks [where lg = global_logger_new and l = Log_error and next_l = Log_error and colored = False and flush = False
      and d = "''d''" and tid = "[]" and flt = "Throw ''x''" and w = "\<lparr>std_cout = [], std_cerr = [], flushes = 0\<rparr>"
      and next_d = "''e''" and next_m = "''m''"]
  by (auto simp: global_logger_new_def set_level_def logger_new_def level_int_def less_eq_log_level_def log_message_simps entry_parts_def)

end
