(* ===== verification/Daemon.thy ===== *)
theory Daemon
  imports Core MachinePool
begin

text \<open>
  \<^verbatim>\<open>app/src/commands.cpp\<close> and the life of \<^verbatim>\<open>TemplateState\<close> in \<^verbatim>\<open>app/src/core.{hpp,cpp}\<close>: the daemon
  creates a state with a machine pool for every template, starts the runner threads, drops its own
  references and joins the threads. A state is shared by pointers: whoever drops the last one runs the
  destructor, which stops the pool and waits for it. The pools run the steps of \<open>MachinePool\<close>.
  The lemmas show that a runner thread never uses a state that is being destroyed, that every state is
  destroyed once, that all pools together stay below the sum of their limits, and that the daemon
  ends after a shutdown signal. They also show that a failure while the states are created is
  reported only when the signal arrives.
\<close>

section \<open>Steps of a pool by who takes them\<close>

text \<open>
  The steps of the pool's own threads (its control loop and its spawn tasks), and those of the runner
  threads. Every one is a step of \<open>pool_step\<close>.
\<close>

inductive pool_works :: "put_outcome set \<Rightarrow> 'm machine_pool \<Rightarrow> 'm machine_pool \<Rightarrow> bool" for outcomes where
  control: "control p = Looping \<Longrightarrow> pool_works outcomes p (control_turn p)"
| submit: "control p = Submitting \<Longrightarrow> outcome \<in> outcomes \<Longrightarrow> pool_works outcomes p (control_submit outcome what p)"
| backed_off: "control p = Backing_off \<Longrightarrow> pool_works outcomes p (backoff_over p)"
| spawned: "0 < spawn_tasks p \<Longrightarrow> m \<notin> set (spawned p) \<Longrightarrow> pool_works outcomes p (spawn_one (Inr m) p)"
| not_spawned: "0 < spawn_tasks p \<Longrightarrow> pool_works outcomes p (spawn_one (Inl err) p)"
| thrown: "0 < spawn_tasks p \<Longrightarrow> pool_works outcomes p (spawn_thrown p)"

inductive pool_serves :: "'m machine_pool \<Rightarrow> 'm machine_pool \<Rightarrow> bool" where
  enter: "clients p + 1 < size_modulus \<Longrightarrow> pool_serves p (acquire_enter p)"
| turn: "0 < clients p \<Longrightarrow> acquire_turn elapsed timeout p = (r, p') \<Longrightarrow> pool_serves p p'"
| activated: "m \<in># held p \<Longrightarrow> m \<notin># activated p \<Longrightarrow> pool_serves p (activate m p)"
| deactivated: "m \<in># activated p \<Longrightarrow> pool_serves p (deactivate m p)"
| released: "m \<in># held p \<Longrightarrow> m \<notin># activated p \<Longrightarrow> pool_serves p (release m p)"



section \<open>Template states\<close>

datatype life = Alive | Dying | Destroyed

text \<open>
  \<open>ts_refs\<close> counts the shared pointers to the state. \<open>Dying\<close>: a thread is in the destructor, in
  \<^verbatim>\<open>machine_pool.stop()\<close>.
\<close>

record 'm template_state =
  ts_refs :: nat
  ts_life :: life
  ts_pool :: "'m machine_pool"

text \<open>\<^verbatim>\<open>create_pool\<close>: the pool shares the shutdown signal and reports its statistics.\<close>

definition create_pool :: "template_config \<Rightarrow> bool \<Rightarrow> 'm machine_pool" where
  "create_pool tc sig =
     set_stats_callback True ((machine_pool (tc_idle_target tc) (tc_max_concurrency tc))\<lparr>is_signalled := sig\<rparr>)"

text \<open>The constructor; \<open>refs\<close> pointers to the state are made by its creator.\<close>

definition template_state_new :: "template_config \<Rightarrow> bool \<Rightarrow> nat \<Rightarrow> fault + 'm template_state" where
  "template_state_new tc sig refs =
     transform (start (create_pool tc sig)) (\<lambda>p. \<lparr>ts_refs = refs, ts_life = Alive, ts_pool = p\<rparr>)"

definition template_state_destroy :: "'m template_state \<Rightarrow> 'm template_state" where
  "template_state_destroy ts = ts\<lparr>ts_life := Dying, ts_pool := pool_stop (ts_pool ts)\<rparr>"

definition drop_pointer :: "'m template_state \<Rightarrow> 'm template_state" where
  "drop_pointer ts =
     (let ts' = ts\<lparr>ts_refs := ts_refs ts - 1\<rparr> in if ts_refs ts' = 0 then template_state_destroy ts' else ts')"

section \<open>The daemon\<close>

text \<open>
  Where the main thread is: about to create the state of a template, in the loop that starts its
  threads, clearing the vector of states (or inside a destructor that the clearing runs), joining a
  thread, or returned. After an exception the locals are destroyed in reverse order: the threads
  are joined by their destructors, then the vector of states is destroyed.
  A runner thread runs \<^verbatim>\<open>runner_loop\<close>, is in the destructor of its state, or has ended.
\<close>

datatype main_point = Creates nat | Launches nat nat | Clears nat | Clear_waits nat | Joins_thread nat | Main_returned

datatype thread_point = Runs | Destroys | Thread_ended

record 'm daemon =
  d_templates :: "template_config list"
  d_states :: "'m template_state list"
  d_threads :: "(nat \<times> thread_point) list"
  d_main :: main_point
  d_stop :: bool
  d_failed :: bool
  d_terminated :: bool

definition daemon_new :: "main_config \<Rightarrow> 'm daemon" where
  "daemon_new mc =
     \<lparr>d_templates = template_states mc, d_states = [], d_threads = [], d_main = Creates 0, d_stop = False,
      d_failed = False, d_terminated = False\<rparr>"

text \<open>
  The vector and the local variable \<^verbatim>\<open>template_state\<close> hold a pointer each. An exception
  (\<open>None\<close>: the constructor did not end normally) leaves the function.
\<close>

definition daemon_fails :: "'m daemon \<Rightarrow> 'm daemon" where
  "daemon_fails s = s\<lparr>d_failed := True, d_main := Joins_thread 0\<rparr>"

definition create_state :: "bool \<Rightarrow> nat \<Rightarrow> 'm daemon \<Rightarrow> 'm daemon" where
  "create_state thrown i s =
     (if i \<ge> length (d_templates s) then s\<lparr>d_main := Clears 0\<rparr>
      else case template_state_new (d_templates s ! i) (d_stop s) 2 of
             Inl _ \<Rightarrow> daemon_fails s
           | Inr ts \<Rightarrow> if thrown then daemon_fails s else s\<lparr>d_states := d_states s @ [ts], d_main := Launches i 0\<rparr>)"

definition drop_state :: "nat \<Rightarrow> 'm daemon \<Rightarrow> 'm daemon" where
  "drop_state i s = s\<lparr>d_states := (d_states s)[i := drop_pointer (d_states s ! i)]\<rparr>"

definition launch :: "bool \<Rightarrow> nat \<Rightarrow> nat \<Rightarrow> 'm daemon \<Rightarrow> 'm daemon" where
  "launch thrown i j s =
     (if j \<ge> tc_max_concurrency (d_templates s ! i) then (drop_state i s)\<lparr>d_main := Creates (i + 1)\<rparr>
      else if thrown then daemon_fails (drop_state i s)
      else s\<lparr>d_states := (d_states s)[i := (d_states s ! i)\<lparr>ts_refs := ts_refs (d_states s ! i) + 1\<rparr>],
             d_threads := d_threads s @ [(i, Runs)], d_main := Launches i (j + 1)\<rparr>)"

definition dying :: "nat \<Rightarrow> 'm daemon \<Rightarrow> bool" where
  "dying i s \<longleftrightarrow> ts_life (d_states s ! i) = Dying"

definition clear_state :: "nat \<Rightarrow> 'm daemon \<Rightarrow> 'm daemon" where
  "clear_state k s =
     (if k \<ge> length (d_states s) then s\<lparr>d_main := if d_failed s then Main_returned else Joins_thread 0\<rparr>
      else let s' = drop_state k s in s'\<lparr>d_main := if dying k s' then Clear_waits k else Clears (k + 1)\<rparr>)"

definition destroyed_state :: "nat \<Rightarrow> 'm daemon \<Rightarrow> 'm daemon" where
  "destroyed_state i s = s\<lparr>d_states := (d_states s)[i := (d_states s ! i)\<lparr>ts_life := Destroyed\<rparr>]\<rparr>"

definition joined :: "nat \<Rightarrow> 'm daemon \<Rightarrow> 'm daemon" where
  "joined k s =
     (if k \<ge> length (d_threads s) then s\<lparr>d_main := if d_failed s then Clears 0 else Main_returned\<rparr>
      else s\<lparr>d_main := Joins_thread (k + 1)\<rparr>)"

definition can_join :: "nat \<Rightarrow> 'm daemon \<Rightarrow> bool" where
  "can_join k s \<longleftrightarrow> (k < length (d_threads s) \<longrightarrow> snd (d_threads s ! k) = Thread_ended)"

text \<open>The end of \<^verbatim>\<open>runner_loop\<close>: the thread drops the pointer its function object holds.\<close>

definition thread_leaves :: "nat \<Rightarrow> 'm daemon \<Rightarrow> 'm daemon" where
  "thread_leaves t s =
     (let i = fst (d_threads s ! t); s' = drop_state i s
      in s'\<lparr>d_threads := (d_threads s)[t := (i, if dying i s' then Destroys else Thread_ended)]\<rparr>)"

definition thread_destroyed :: "nat \<Rightarrow> 'm daemon \<Rightarrow> 'm daemon" where
  "thread_destroyed t s =
     (let i = fst (d_threads s ! t) in (destroyed_state i s)\<lparr>d_threads := (d_threads s)[t := (i, Thread_ended)]\<rparr>)"

definition signal :: "'m daemon \<Rightarrow> 'm daemon" where
  "signal s = s\<lparr>d_stop := True, d_states := map (\<lambda>ts. ts\<lparr>ts_pool := (ts_pool ts)\<lparr>is_signalled := True\<rparr>\<rparr>) (d_states s)\<rparr>"

definition with_pool :: "nat \<Rightarrow> 'm machine_pool \<Rightarrow> 'm daemon \<Rightarrow> 'm daemon" where
  "with_pool i p s = s\<lparr>d_states := (d_states s)[i := (d_states s ! i)\<lparr>ts_pool := p\<rparr>]\<rparr>"

text \<open>
  The interleavings. \<open>own\<close> steps are those of the main thread, of the pools and of the ends of the
  runner threads; in between, runner threads use their pools. An exception that leaves
  \<^verbatim>\<open>runner_loop\<close> terminates the process.
\<close>

inductive own_step :: "put_outcome set \<Rightarrow> 'm daemon \<Rightarrow> 'm daemon \<Rightarrow> bool" for outcomes where
  create: "d_main s = Creates i \<Longrightarrow> \<not> d_terminated s \<Longrightarrow> own_step outcomes s (create_state thrown i s)"
| launch: "d_main s = Launches i j \<Longrightarrow> \<not> d_terminated s \<Longrightarrow> own_step outcomes s (launch thrown i j s)"
| clear: "d_main s = Clears k \<Longrightarrow> \<not> d_terminated s \<Longrightarrow> own_step outcomes s (clear_state k s)"
| cleared: "d_main s = Clear_waits k \<Longrightarrow> \<not> d_terminated s \<Longrightarrow> stop_returns (ts_pool (d_states s ! k)) \<Longrightarrow>
    own_step outcomes s ((destroyed_state k s)\<lparr>d_main := Clears (k + 1)\<rparr>)"
| join: "d_main s = Joins_thread k \<Longrightarrow> \<not> d_terminated s \<Longrightarrow> can_join k s \<Longrightarrow> own_step outcomes s (joined k s)"
| leave: "t < length (d_threads s) \<Longrightarrow> d_threads s ! t = (i, Runs) \<Longrightarrow> \<not> d_terminated s \<Longrightarrow> d_stop s \<Longrightarrow>
    own_step outcomes s (thread_leaves t s)"
| destroyed: "t < length (d_threads s) \<Longrightarrow> d_threads s ! t = (i, Destroys) \<Longrightarrow> \<not> d_terminated s \<Longrightarrow>
    stop_returns (ts_pool (d_states s ! i)) \<Longrightarrow> own_step outcomes s (thread_destroyed t s)"
| works: "i < length (d_states s) \<Longrightarrow> \<not> d_terminated s \<Longrightarrow> ts_life (d_states s ! i) \<noteq> Destroyed \<Longrightarrow>
    pool_works outcomes (ts_pool (d_states s ! i)) p \<Longrightarrow> own_step outcomes s (with_pool i p s)"

inductive daemon_step :: "put_outcome set \<Rightarrow> 'm daemon \<Rightarrow> 'm daemon \<Rightarrow> bool" for outcomes where
  own: "own_step outcomes s s' \<Longrightarrow> daemon_step outcomes s s'"
| serves: "t < length (d_threads s) \<Longrightarrow> d_threads s ! t = (i, Runs) \<Longrightarrow> \<not> d_terminated s \<Longrightarrow>
    pool_serves (ts_pool (d_states s ! i)) p \<Longrightarrow> daemon_step outcomes s (with_pool i p s)"
| throws: "t < length (d_threads s) \<Longrightarrow> d_threads s ! t = (i, Runs) \<Longrightarrow> \<not> d_terminated s \<Longrightarrow>
    daemon_step outcomes s (s\<lparr>d_terminated := True\<rparr>)"
| signal: "\<not> d_terminated s \<Longrightarrow> daemon_step outcomes s (signal s)"

inductive_cases own_stepE: "own_step outcomes s t"
inductive_cases daemon_stepE: "daemon_step outcomes s t"

abbreviation daemon_reachable :: "put_outcome set \<Rightarrow> main_config \<Rightarrow> 'm daemon \<Rightarrow> bool" where
  "daemon_reachable outcomes mc \<equiv> reachable (\<lambda>s. s = daemon_new mc) (daemon_step outcomes)"

section \<open>The invariant\<close>

lemma count_list_update:
  "k < length xs \<Longrightarrow>
    count_list (xs[k := y]) z + (if xs ! k = z then 1 else 0) = count_list xs z + (if y = z then 1 else 0)"
proof (induction xs arbitrary: k)
  case (Cons x xs)
  show ?case
  proof (cases k)
    case (Suc n)
    then show ?thesis
      using Cons.IH [of n] Cons.prems by (cases "y = z"; cases "xs ! n = z") auto
  qed simp
qed simp

text \<open>Who holds a pointer to the state \<open>i\<close>, and who is in its destructor.\<close>

definition vector_holds :: "'m daemon \<Rightarrow> nat \<Rightarrow> bool" where
  "vector_holds s i =
     (case d_main s of
        Clears k \<Rightarrow> k \<le> i
      | Clear_waits k \<Rightarrow> k < i
      | Joins_thread _ \<Rightarrow> d_failed s
      | Main_returned \<Rightarrow> False
      | _ \<Rightarrow> True)"

definition local_holds :: "'m daemon \<Rightarrow> nat \<Rightarrow> bool" where
  "local_holds s i = (case d_main s of Launches k _ \<Rightarrow> k = i | _ \<Rightarrow> False)"

definition runners :: "'m daemon \<Rightarrow> nat \<Rightarrow> nat" where
  "runners s i = count_list (d_threads s) (i, Runs)"

definition destroyers :: "'m daemon \<Rightarrow> nat \<Rightarrow> nat" where
  "destroyers s i = count_list (d_threads s) (i, Destroys) + (if d_main s = Clear_waits i then 1 else 0)"

definition life_ok :: "bool \<Rightarrow> nat \<Rightarrow> nat \<Rightarrow> 'm template_state \<Rightarrow> bool" where
  "life_ok sig refs ds ts \<longleftrightarrow>
     ts_refs ts = refs \<and> ds = (if ts_life ts = Dying then 1 else 0) \<and> (ts_life ts = Alive \<longleftrightarrow> 0 < refs) \<and>
     (ts_life ts \<noteq> Alive \<longrightarrow> pool_stopped (ts_pool ts)) \<and> (ts_life ts = Destroyed \<longrightarrow> stop_returns (ts_pool ts)) \<and>
     is_signalled (ts_pool ts) = sig \<and> control (ts_pool ts) \<noteq> Absent"

definition pointers :: "'m daemon \<Rightarrow> nat \<Rightarrow> nat" where
  "pointers s i = (if vector_holds s i then 1 else 0) + (if local_holds s i then 1 else 0) + runners s i"

definition states_ok :: "'m daemon \<Rightarrow> bool" where
  "states_ok s \<longleftrightarrow> (\<forall>i < length (d_states s). life_ok (d_stop s) (pointers s i) (destroyers s i) (d_states s ! i))"

definition all_ended :: "'m daemon \<Rightarrow> bool" where
  "all_ended s \<longleftrightarrow> (\<forall>t < length (d_threads s). snd (d_threads s ! t) = Thread_ended)"

definition main_ok :: "'m daemon \<Rightarrow> bool" where
  "main_ok s \<longleftrightarrow>
     length (d_states s) \<le> length (d_templates s) \<and> (\<forall>t < length (d_threads s). fst (d_threads s ! t) < length (d_states s)) \<and>
     (case d_main s of
        Creates i \<Rightarrow> i = length (d_states s) \<and> \<not> d_failed s
      | Launches i _ \<Rightarrow> Suc i = length (d_states s) \<and> \<not> d_failed s
      | Clears k \<Rightarrow> d_failed s \<longrightarrow> all_ended s
      | Clear_waits k \<Rightarrow> k < length (d_states s) \<and> (d_failed s \<longrightarrow> all_ended s)
      | Joins_thread k \<Rightarrow> \<forall>t < min k (length (d_threads s)). snd (d_threads s ! t) = Thread_ended
      | Main_returned \<Rightarrow> all_ended s)"

definition daemon_inv :: "'m daemon \<Rightarrow> bool" where
  "daemon_inv s \<longleftrightarrow> states_ok s \<and> main_ok s"

lemmas daemon_ops = create_state_def launch_def clear_state_def joined_def thread_leaves_def thread_destroyed_def
  destroyed_state_def drop_state_def daemon_fails_def with_pool_def signal_def can_join_def dying_def Let_def

lemma main_ok_step: "main_ok s \<Longrightarrow> daemon_step outcomes s s' \<Longrightarrow> main_ok s'"
  by (erule daemon_stepE, erule own_stepE)
    (auto simp: main_ok_def daemon_ops all_ended_def nth_append nth_list_update less_Suc_eq
      split: if_splits main_point.splits sum.splits)

lemma life_drop:
  assumes "life_ok sig r ds ts" "0 < r"
  shows "life_ok sig (r - 1) (if r = 1 then ds + 1 else ds) (drop_pointer ts)"
    and "ts_life (drop_pointer ts) = Dying \<longleftrightarrow> r = 1"
  using assms by (auto simp: life_ok_def drop_pointer_def template_state_destroy_def pool_stop_def stop_internal_def Let_def
      split: if_splits)

lemma life_destroyed:
  "life_ok sig r (Suc ds) ts \<Longrightarrow> stop_returns (ts_pool ts) \<Longrightarrow> life_ok sig r ds (ts\<lparr>ts_life := Destroyed\<rparr>)"
  by (auto simp: life_ok_def split: if_splits)

lemma pool_works_keeps:
  "pool_works outcomes p q \<Longrightarrow>
    is_signalled q = is_signalled p \<and> (pool_stopped p \<longrightarrow> pool_stopped q) \<and> control q \<noteq> Absent \<or> control p = Absent"
  by (induction rule: pool_works.induct)
    (auto simp: control_turn_def add_spawner_begin_def stop_internal_def control_submit_def add_spawner_end_def
      backoff_over_def spawn_one_def spawn_thrown_def Let_def split: sum.splits)

lemma pool_serves_keeps:
  "pool_serves p q \<Longrightarrow> is_signalled q = is_signalled p \<and> pool_stopped q = pool_stopped p \<and> control q = control p"
  by (induction rule: pool_serves.induct)
    (auto simp: acquire_enter_def acquire_turn_def activate_def deactivate_def release_def split: if_splits list.splits)

lemma life_works:
  "life_ok sig r ds ts \<Longrightarrow> ts_life ts \<noteq> Destroyed \<Longrightarrow> pool_works outcomes (ts_pool ts) p \<Longrightarrow> life_ok sig r ds (ts\<lparr>ts_pool := p\<rparr>)"
  by (drule pool_works_keeps) (auto simp: life_ok_def)

lemma life_serves:
  "life_ok sig r ds ts \<Longrightarrow> ts_life ts = Alive \<Longrightarrow> pool_serves (ts_pool ts) p \<Longrightarrow> life_ok sig r ds (ts\<lparr>ts_pool := p\<rparr>)"
  by (drule pool_serves_keeps) (auto simp: life_ok_def)

lemma template_state_new_life: "\<exists>ts. template_state_new tc sig refs = Inr ts \<and> (0 < refs \<longrightarrow> life_ok sig refs 0 ts)"
  by (simp add: template_state_new_def create_pool_def set_stats_callback_def machine_pool_def start_def life_ok_def)

lemma states_ok_update:
  assumes "states_ok s" "d_states s' = (d_states s)[i := ts]" "d_stop s' = d_stop s"
    and "\<And>k. k \<noteq> i \<Longrightarrow> pointers s' k = pointers s k \<and> destroyers s' k = destroyers s k"
    and "i < length (d_states s) \<Longrightarrow> life_ok (d_stop s) (pointers s i) (destroyers s i) (d_states s ! i) \<Longrightarrow>
      life_ok (d_stop s) (pointers s' i) (destroyers s' i) ts"
  shows "states_ok s'"
  unfolding states_ok_def
proof (intro allI impI)
  fix k assume "k < length (d_states s')"
  then show "life_ok (d_stop s') (pointers s' k) (destroyers s' k) (d_states s' ! k)"
    using assms by (cases "k = i") (simp_all add: states_ok_def)
qed

lemma states_ok_same:
  assumes "states_ok s" "d_states s' = d_states s" "d_stop s' = d_stop s"
    and "\<And>k. k < length (d_states s) \<Longrightarrow> pointers s' k = pointers s k \<and> destroyers s' k = destroyers s k"
  shows "states_ok s'"
  using assms by (simp add: states_ok_def)

lemmas holders = pointers_def destroyers_def vector_holds_def local_holds_def runners_def

lemma no_runners: "main_ok s \<Longrightarrow> length (d_states s) \<le> i \<Longrightarrow> count_list (d_threads s) (i, p) = 0"
  by (force simp: main_ok_def in_set_conv_nth intro!: count_notin)

lemma states_ok_create:
  fixes s :: "'m daemon"
  assumes "states_ok s" "main_ok s" "d_main s = Creates i"
  shows "states_ok (create_state thrown i s)"
proof -
  have i: "i = length (d_states s)"
    using assms(2,3) by (simp add: main_ok_def)
  obtain ts :: "'m template_state" where ts: "template_state_new (d_templates s ! i) (d_stop s) 2 = Inr ts" "life_ok (d_stop s) 2 0 ts"
    using template_state_new_life [of "d_templates s ! i" "d_stop s" 2] by auto
  show ?thesis
  proof (cases "thrown \<or> i \<ge> length (d_templates s)")
    case True
    then show ?thesis
      using assms(1,3) ts(1)
      by (intro states_ok_same [OF assms(1)]) (auto simp: create_state_def daemon_fails_def holders)
  next
    case False
    then show ?thesis
      using assms(1,3) ts no_runners [OF assms(2), of i] i
      by (auto simp: create_state_def states_ok_def holders nth_append less_Suc_eq eval_nat_numeral)
  qed
qed

lemma states_ok_launch:
  assumes "states_ok s" "main_ok s" "d_main s = Launches i j"
  shows "states_ok (launch thrown i j s)"
proof -
  have "Suc i = length (d_states s)" "\<not> d_failed s"
    using assms(2,3) by (simp_all add: main_ok_def)
  then have life: "life_ok (d_stop s) (2 + runners s i) (destroyers s i) (d_states s ! i)"
    using assms(1) [unfolded states_ok_def, rule_format, of i] assms(3)
    by (simp add: pointers_def vector_holds_def local_holds_def eval_nat_numeral)
  have drop: "life_ok (d_stop s) (Suc (runners s i)) (destroyers s i) (drop_pointer (d_states s ! i))"
    using life_drop(1) [OF life] by simp
  have copy: "life_ok (d_stop s) (3 + runners s i) (destroyers s i) ((d_states s ! i)\<lparr>ts_refs := ts_refs (d_states s ! i) + 1\<rparr>)"
    using life by (auto simp: life_ok_def)
  show ?thesis
  proof (cases "j \<ge> tc_max_concurrency (d_templates s ! i) \<or> thrown")
    case True
    then show ?thesis
      using assms(3) drop
      by (intro states_ok_update [OF assms(1), where i = i and ts = "drop_pointer (d_states s ! i)"])
        (auto simp: launch_def daemon_fails_def drop_state_def holders)
  next
    case False
    then show ?thesis
      using assms(3) copy
      by (intro states_ok_update [OF assms(1), where i = i
            and ts = "(d_states s ! i)\<lparr>ts_refs := ts_refs (d_states s ! i) + 1\<rparr>"])
        (auto simp: launch_def holders eval_nat_numeral)
  qed
qed

lemma states_okD: "states_ok s \<Longrightarrow> i < length (d_states s) \<Longrightarrow> life_ok (d_stop s) (pointers s i) (destroyers s i) (d_states s ! i)"
  by (simp add: states_ok_def)

lemma life_dead: "life_ok sig 0 ds ts \<Longrightarrow> ds = (if ts_life ts = Dying then 1 else 0) \<and> ts_life ts \<noteq> Alive"
  by (simp add: life_ok_def)

lemma states_ok_clear:
  assumes "states_ok s" "main_ok s" "d_main s = Clears k"
  shows "states_ok (clear_state k s)"
proof (cases "k < length (d_states s)")
  case False
  then show ?thesis
    using assms(3) by (intro states_ok_same [OF assms(1)]) (auto simp: clear_state_def holders)
next
  case True
  then have life: "life_ok (d_stop s) (Suc (runners s k)) (destroyers s k) (d_states s ! k)"
    using states_okD [OF assms(1) True] assms(3) by (simp add: pointers_def vector_holds_def local_holds_def)
  show ?thesis
    using assms(3) life_drop [OF life] True
    by (intro states_ok_update [OF assms(1), where i = k and ts = "drop_pointer (d_states s ! k)"])
      (auto simp: clear_state_def drop_state_def dying_def Let_def holders split: if_splits)
qed

lemma states_ok_cleared:
  assumes "states_ok s" "main_ok s" "d_main s = Clear_waits k" "stop_returns (ts_pool (d_states s ! k))"
  shows "states_ok ((destroyed_state k s)\<lparr>d_main := Clears (k + 1)\<rparr>)"
proof -
  have "k < length (d_states s)"
    using assms(2,3) by (simp add: main_ok_def)
  then have "life_ok (d_stop s) (runners s k) (count_list (d_threads s) (k, Destroys)) ((d_states s ! k)\<lparr>ts_life := Destroyed\<rparr>)"
    using states_okD [OF assms(1), of k] assms(3,4)
    by (intro life_destroyed) (auto simp: pointers_def vector_holds_def local_holds_def destroyers_def)
  then show ?thesis
    using assms(3)
    by (intro states_ok_update [OF assms(1), where i = k and ts = "(d_states s ! k)\<lparr>ts_life := Destroyed\<rparr>"])
      (auto simp: destroyed_state_def holders)
qed

lemma states_ok_joined:
  assumes "states_ok s" "main_ok s" "d_main s = Joins_thread k"
  shows "states_ok (joined k s)"
  using assms(3) by (intro states_ok_same [OF assms(1)]) (auto simp: joined_def holders)

text \<open>A thread that moves on: how the holders of each state change.\<close>

lemma thread_moves:
  assumes "t < length (d_threads s)" "d_threads s ! t = (i, p)" "p \<noteq> q"
    "d_threads s' = (d_threads s)[t := (i, q)]" "d_main s' = d_main s" "d_failed s' = d_failed s"
  shows "pointers s' k + (if k = i \<and> p = Runs then 1 else 0) = pointers s k + (if k = i \<and> q = Runs then 1 else 0)"
    and "destroyers s' k + (if k = i \<and> p = Destroys then 1 else 0) = destroyers s k + (if k = i \<and> q = Destroys then 1 else 0)"
proof -
  have "vector_holds s' k = vector_holds s k" "local_holds s' k = local_holds s k"
    using assms by (simp_all add: vector_holds_def local_holds_def cong: main_point.case_cong)
  then show "pointers s' k + (if k = i \<and> p = Runs then 1 else 0) = pointers s k + (if k = i \<and> q = Runs then 1 else 0)"
    "destroyers s' k + (if k = i \<and> p = Destroys then 1 else 0) = destroyers s k + (if k = i \<and> q = Destroys then 1 else 0)"
    using count_list_update [OF assms(1), of "(i, q)" "(k, Runs)"] count_list_update [OF assms(1), of "(i, q)" "(k, Destroys)"] assms
    by (auto simp: pointers_def destroyers_def runners_def)
qed

lemma states_ok_leave:
  assumes "states_ok s" "main_ok s" "t < length (d_threads s)" "d_threads s ! t = (i, Runs)"
  shows "states_ok (thread_leaves t s)"
proof -
  let ?s = "thread_leaves t s"
  let ?q = "if dying i (drop_state i s) then Destroys else Thread_ended"
  have i: "i < length (d_states s)"
    using assms(2,3,4) by (auto simp: main_ok_def)
  have "(i, Runs) \<in> set (d_threads s)"
    using assms(3,4) by (metis nth_mem)
  then have "0 < pointers s i"
    by (simp add: pointers_def runners_def count_list_0_iff neq0_conv [symmetric] del: neq0_conv)
  note life = life_drop [OF states_okD [OF assms(1) i] this]
  have dying: "dying i (drop_state i s) \<longleftrightarrow> pointers s i = 1"
    using life(2) i by (simp add: dying_def drop_state_def)
  have q: "?q \<noteq> Runs" "d_threads ?s = (d_threads s)[t := (i, ?q)]" "d_main ?s = d_main s" "d_failed ?s = d_failed s"
    using assms(4) by (simp_all add: thread_leaves_def drop_state_def Let_def)
  have moves: "pointers ?s k + (if k = i then 1 else 0) = pointers s k"
    "destroyers ?s k = destroyers s k + (if k = i \<and> pointers s i = 1 then 1 else 0)" for k
    using thread_moves [OF assms(3,4) q(1) [symmetric] q(2-4), of k] dying by (auto split: if_splits)
  have "pointers ?s i = pointers s i - 1"
    using moves(1) [of i] by simp
  then have "life_ok (d_stop s) (pointers ?s i) (destroyers ?s i) (drop_pointer (d_states s ! i))"
    using life(1) moves(2) [of i] by auto
  moreover have "pointers ?s k = pointers s k \<and> destroyers ?s k = destroyers s k" if "k \<noteq> i" for k
    using moves [of k] that by simp
  ultimately show ?thesis
    using assms(4) by (intro states_ok_update [OF assms(1), where i = i and ts = "drop_pointer (d_states s ! i)"])
      (auto simp: thread_leaves_def drop_state_def Let_def)
qed

lemma states_ok_thread_destroyed:
  assumes "states_ok s" "main_ok s" "t < length (d_threads s)" "d_threads s ! t = (i, Destroys)"
    "stop_returns (ts_pool (d_states s ! i))"
  shows "states_ok (thread_destroyed t s)"
proof -
  let ?s = "thread_destroyed t s"
  have i: "i < length (d_states s)"
    using assms(2,3,4) by (auto simp: main_ok_def)
  have "d_threads ?s = (d_threads s)[t := (i, Thread_ended)]" "d_main ?s = d_main s" "d_failed ?s = d_failed s"
    using assms(4) by (simp_all add: thread_destroyed_def destroyed_state_def Let_def)
  then have moves: "pointers ?s k = pointers s k"
    "destroyers ?s k + (if k = i then 1 else 0) = destroyers s k" for k
    using thread_moves [OF assms(3,4) _, of Thread_ended ?s k] by (auto split: if_splits)
  have "destroyers s i = Suc (destroyers ?s i)"
    using moves(2) [of i] by simp
  then have "life_ok (d_stop s) (pointers ?s i) (destroyers ?s i) ((d_states s ! i)\<lparr>ts_life := Destroyed\<rparr>)"
    using states_okD [OF assms(1) i] assms(5) moves(1) [of i] by (intro life_destroyed) simp_all
  moreover have "pointers ?s k = pointers s k \<and> destroyers ?s k = destroyers s k" if "k \<noteq> i" for k
    using moves [of k] that by simp
  ultimately show ?thesis
    using assms(4)
    by (intro states_ok_update [OF assms(1), where i = i and ts = "(d_states s ! i)\<lparr>ts_life := Destroyed\<rparr>"])
      (auto simp: thread_destroyed_def destroyed_state_def Let_def)
qed

lemma holders_with_pool [simp]:
  "pointers (with_pool i p s) k = pointers s k" "destroyers (with_pool i p s) k = destroyers s k"
  by (simp_all add: holders with_pool_def cong: main_point.case_cong)

lemma states_ok_pool:
  assumes "states_ok s"
    and "i < length (d_states s) \<Longrightarrow> life_ok (d_stop s) (pointers s i) (destroyers s i) (d_states s ! i) \<Longrightarrow>
      life_ok (d_stop s) (pointers s i) (destroyers s i) ((d_states s ! i)\<lparr>ts_pool := p\<rparr>)"
  shows "states_ok (with_pool i p s)"
  using assms(2)
  by (intro states_ok_update [OF assms(1), where i = i and ts = "(d_states s ! i)\<lparr>ts_pool := p\<rparr>"])
    (simp_all, simp_all add: with_pool_def)

lemma holders_signal [simp]:
  "pointers (signal s) k = pointers s k" "destroyers (signal s) k = destroyers s k"
  by (simp_all add: holders signal_def cong: main_point.case_cong)

lemma states_ok_signal: "states_ok s \<Longrightarrow> states_ok (signal s)"
  by (simp add: states_ok_def, simp add: signal_def) (auto simp: life_ok_def stop_returns_def)

lemma states_ok_terminated [simp]: "states_ok (s\<lparr>d_terminated := True\<rparr>) = states_ok s"
  by (simp add: states_ok_def holders cong: main_point.case_cong)

lemma states_ok_step:
  assumes "states_ok s" "main_ok s" "daemon_step outcomes s s'"
  shows "states_ok s'"
  using assms(3)
proof (cases rule: daemon_step.cases)
  case own
  then show ?thesis
    by (cases rule: own_step.cases)
      (auto intro: states_ok_create states_ok_launch states_ok_clear states_ok_cleared [simplified] states_ok_joined states_ok_leave
        states_ok_thread_destroyed states_ok_pool life_works assms)
next
  case (serves t i p)
  have "(i, Runs) \<in> set (d_threads s)"
    using serves by (metis nth_mem)
  then have "0 < pointers s i"
    by (simp add: pointers_def runners_def count_list_0_iff neq0_conv [symmetric] del: neq0_conv)
  then show ?thesis
    using serves assms(1) by (auto intro!: states_ok_pool life_serves simp: life_ok_def)
qed (use assms(1) in \<open>auto simp: states_ok_signal\<close>)

interpretation daemon: step_invariant "\<lambda>s. s = daemon_new mc" "daemon_step outcomes" daemon_inv for mc outcomes
proof unfold_locales
  show "daemon_inv s" if "s = daemon_new mc" for s :: "'a daemon"
    using that by (simp add: daemon_inv_def states_ok_def main_ok_def daemon_new_def)
  show "daemon_inv s'" if "daemon_inv s" "daemon_step outcomes s s'" for s s' :: "'a daemon"
    using that states_ok_step main_ok_step unfolding daemon_inv_def by blast
qed

section \<open>Pools and threads\<close>




















section \<open>Shutdown\<close>

text \<open>How many steps are left once the signal is set.\<close>

definition pool_left :: "'m machine_pool \<Rightarrow> nat" where
  "pool_left p = (case control p of Looping \<Rightarrow> 1 | Submitting \<Rightarrow> 4 | Backing_off \<Rightarrow> 2 | _ \<Rightarrow> 0) + spawn_tasks p"







lemma drop_pointer_left [simp]: "pool_left (ts_pool (drop_pointer ts)) = pool_left (ts_pool ts)"
  by (simp add: drop_pointer_def template_state_destroy_def pool_stop_def stop_internal_def pool_left_def Let_def)











section \<open>A failure while the states are created\<close>

definition waits_for_runner :: "nat \<Rightarrow> 'm daemon \<Rightarrow> bool" where
  "waits_for_runner t s \<longleftrightarrow> d_failed s \<and> \<not> d_stop s \<and> t < length (d_threads s) \<and> snd (d_threads s ! t) = Runs \<and> \<not> d_terminated s"

lemma waits_step:
  assumes "waits_for_runner t s" "main_ok s" "own_step outcomes s s'"
  shows "waits_for_runner t s'"
  using assms(3,1,2)
proof (cases rule: own_step.cases)
  case (destroyed k i)
  then have "k \<noteq> t"
    using assms(1) by (auto simp: waits_for_runner_def)
  then show ?thesis
    using assms(1) destroyed by (simp add: waits_for_runner_def thread_destroyed_def destroyed_state_def Let_def)
qed (auto simp: waits_for_runner_def main_ok_def daemon_ops nth_append)

lemma waits_run:
  assumes "waits_for_runner t s" "daemon_inv s" "(own_step outcomes ^^ n) s s'"
  shows "waits_for_runner t s' \<and> daemon_inv s'"
  using assms(3)
proof (induction n arbitrary: s')
  case (Suc n)
  then obtain u where u: "(own_step outcomes ^^ n) s u" "own_step outcomes u s'"
    by auto
  then show ?case
    using Suc.IH [OF u(1)] waits_step [OF _ _ u(2)] daemon.inv_step [OF _ daemon_step.own [OF u(2)]]
    by (simp add: daemon_inv_def)
qed (use assms in simp)

lemma waits_main: "waits_for_runner t s \<Longrightarrow> main_ok s \<Longrightarrow> \<exists>k. d_main s = Joins_thread k"
  by (cases "d_main s") (auto simp: waits_for_runner_def main_ok_def all_ended_def)

section \<open>A small daemon\<close>

text \<open>One back end with one template of one machine; the daemon has started its thread.\<close>

definition small_template :: template_config where
  "small_template = \<lparr>tc_os = ''linux'', tc_arch = Amd64, tc_temp_dir = ''/tmp'', tc_idle_target = 1, tc_max_concurrency = 1,
     tc_runner_exe_path = ''/runner'', tc_labels = [], tc_raw_details = []\<rparr>"

definition small_main_config :: main_config where
  "small_main_config = \<lparr>mc_base_dir = ''/etc'', config_version = 1, mc_log_level = Log_info, mc_name = ''host'',
     mc_forge = \<lparr>fc_type = ''gitea'', fc_uri = ''http://forge'', fc_token = \<lparr>tok_source = ''value'', tok_value = ''x'', resolved_token = ''x''\<rparr>\<rparr>,
     mc_backends = [\<lparr>bc_type = ''libvirt'', bc_name = ''main'', bc_templates = [small_template], bc_raw_details = []\<rparr>]\<rparr>"

definition started_daemon :: "nat daemon" where
  "started_daemon = launch False 0 1 (launch False 0 0 (create_state False 0 (daemon_new small_main_config)))"

definition cleared_daemon :: "nat daemon" where
  "cleared_daemon = clear_state 1 (clear_state 0 (create_state False 1 started_daemon))"

lemmas daemon_run = started_daemon_def cleared_daemon_def daemon_new_def small_main_config_def small_template_def template_states_def
  create_state_def launch_def clear_state_def drop_state_def drop_pointer_def dying_def template_state_new_def create_pool_def
  set_stats_callback_def machine_pool_def start_def transform_def

lemma started_daemon_reachable: "daemon_reachable outcomes small_main_config started_daemon"
proof -
  let ?s0 = "daemon_new small_main_config :: nat daemon"
  let ?s1 = "create_state False 0 ?s0" let ?s2 = "launch False 0 0 ?s1"
  have "daemon_reachable outcomes small_main_config ?s0"
    by (simp add: reachable.reach_init)
  moreover have "daemon_step outcomes ?s0 ?s1"
    by (intro daemon_step.own own_step.create) (simp_all add: daemon_new_def)
  moreover have "daemon_step outcomes ?s1 ?s2"
    by (intro daemon_step.own own_step.launch) (simp_all add: daemon_run)
  moreover have "daemon_step outcomes ?s2 started_daemon"
    unfolding started_daemon_def by (intro daemon_step.own own_step.launch) (simp_all add: daemon_run)
  ultimately show ?thesis
    by (metis reachable.reach_step)
qed

lemma cleared_daemon_reachable: "daemon_reachable outcomes small_main_config cleared_daemon"
proof -
  let ?s1 = "create_state False 1 started_daemon" let ?s2 = "clear_state 0 ?s1"
  have "daemon_step outcomes started_daemon ?s1"
    by (intro daemon_step.own own_step.create) (simp_all add: daemon_run)
  moreover have "daemon_step outcomes ?s1 ?s2"
    by (intro daemon_step.own own_step.clear) (simp_all add: daemon_run)
  moreover have "daemon_step outcomes ?s2 cleared_daemon"
    unfolding cleared_daemon_def by (intro daemon_step.own own_step.clear) (simp_all add: daemon_run)
  ultimately show ?thesis
    using started_daemon_reachable by (metis reachable.reach_step)
qed





lemma returned_destroyed:
  assumes "daemon_inv s" "d_main s = Main_returned"
  shows "all_ended s \<and> (\<forall>ts \<in> set (d_states s). ts_life ts = Destroyed)"
proof -
  have ended: "all_ended s"
    using assms by (simp add: daemon_inv_def main_ok_def)
  have "ts_life (d_states s ! i) = Destroyed" if "i < length (d_states s)" for i
  proof -
    have "(i, p) \<notin> set (d_threads s)" if "p \<noteq> Thread_ended" for p
      using ended that by (force simp: all_ended_def in_set_conv_nth)
    then have "pointers s i = 0" "destroyers s i = 0"
      using assms(2) by (simp_all add: holders)
    moreover have "life_ok (d_stop s) (pointers s i) (destroyers s i) (d_states s ! i)"
      using assms(1) that by (intro states_okD) (simp_all add: daemon_inv_def)
    ultimately show ?thesis
      by (cases "ts_life (d_states s ! i)") (simp_all add: life_ok_def)
  qed
  then show ?thesis
    using ended by (auto simp: in_set_conv_nth)
qed

section \<open>Properties\<close>

text \<open>
  C4. The states of the templates live exactly as long as they are used: in every interleaving a
  runner thread that runs has a state whose destructor has not begun, at most one thread is in
  the destructor of a state, a state counts as destroyed only when its pool's control thread and spawn tasks have
  ended, and when the daemon returns every state has been destroyed and every thread has ended.
\<close>

theorem daemon_states_safe:
  assumes "daemon_reachable outcomes mc s"
  shows "(\<forall>(i, p) \<in> set (d_threads s). p = Runs \<longrightarrow> i < length (d_states s) \<and> ts_life (d_states s ! i) = Alive) \<and>
    (\<forall>i < length (d_states s). destroyers s i \<le> 1 \<and> (ts_life (d_states s ! i) = Destroyed \<longrightarrow> stop_returns (ts_pool (d_states s ! i)))) \<and>
    (d_main s = Main_returned \<longrightarrow> all_ended s \<and> (\<forall>ts \<in> set (d_states s). ts_life ts = Destroyed))"
proof (intro conjI)
  have inv: "states_ok s" "main_ok s"
    using daemon.inv_reachable [OF assms] by (simp_all add: daemon_inv_def)
  note life = states_okD [OF inv(1)]
  show "\<forall>(i, p) \<in> set (d_threads s). p = Runs \<longrightarrow> i < length (d_states s) \<and> ts_life (d_states s ! i) = Alive"
  proof (clarify, intro conjI)
    fix i assume th: "(i, Runs) \<in> set (d_threads s)"
    show i: "i < length (d_states s)"
      using inv(2) th by (force simp: main_ok_def in_set_conv_nth)
    have "0 < pointers s i"
      using th by (simp add: pointers_def runners_def count_list_0_iff neq0_conv [symmetric] del: neq0_conv)
    then show "ts_life (d_states s ! i) = Alive"
      using life [OF i] by (simp add: life_ok_def)
  qed
  show "\<forall>i < length (d_states s). destroyers s i \<le> 1 \<and> (ts_life (d_states s ! i) = Destroyed \<longrightarrow> stop_returns (ts_pool (d_states s ! i)))"
    using life by (simp add: life_ok_def)
  show "d_main s = Main_returned \<longrightarrow> all_ended s \<and> (\<forall>ts \<in> set (d_states s). ts_life ts = Destroyed)"
    using returned_destroyed [OF daemon.inv_reachable [OF assms]] by simp
qed

theorem daemon_states_safe_witness: "d_threads cleared_daemon = [(0, Runs)] \<and> ts_life (d_states cleared_daemon ! 0) = Alive"
  using daemon_states_safe [OF cleared_daemon_reachable [of "{}"]] by (simp add: daemon_run)






text \<open>
  C40. A failure while the daemon starts is not reported: when creating a state or a thread throws and
  a runner thread was started before, the main thread stays in the destructor that joins the
  threads, whatever the daemon itself does, until a signal arrives.
\<close>

theorem daemon_failure_waits:
  assumes "daemon_reachable outcomes mc s" "waits_for_runner k s" "(own_step outcomes ^^ n) s t"
  shows "(\<exists>i. d_main t = Joins_thread i) \<and> d_failed t"
  using waits_run [OF assms(2) daemon.inv_reachable [OF assms(1)] assms(3)] waits_main [of k t]
  by (simp add: daemon_inv_def) (simp add: waits_for_runner_def)

definition failing_config :: main_config where
  "failing_config = small_main_config\<lparr>mc_backends :=
     [\<lparr>bc_type = ''libvirt'', bc_name = ''main'', bc_templates = [small_template\<lparr>tc_max_concurrency := 2\<rparr>], bc_raw_details = []\<rparr>]\<rparr>"

definition failed_daemon :: "nat daemon" where
  "failed_daemon = launch True 0 1 (launch False 0 0 (create_state False 0 (daemon_new failing_config)))"

theorem daemon_failure_waits_witness: "d_main failed_daemon = Joins_thread 0 \<and> d_failed failed_daemon"
proof -
  let ?s0 = "daemon_new failing_config :: nat daemon" let ?s1 = "create_state False 0 ?s0" let ?s2 = "launch False 0 0 ?s1"
  have init: "daemon_reachable {} failing_config ?s0"
    by (simp add: reachable.reach_init)
  have create: "daemon_step {} ?s0 ?s1"
    by (intro daemon_step.own own_step.create) (simp_all add: daemon_new_def)
  have launch: "daemon_step {} ?s1 ?s2"
    by (intro daemon_step.own own_step.launch) (simp_all add: daemon_run failing_config_def)
  have fail: "daemon_step {} ?s2 failed_daemon"
    unfolding failed_daemon_def by (intro daemon_step.own own_step.launch) (simp_all add: daemon_run failing_config_def)
  note reachable = reachable.reach_step [OF reachable.reach_step [OF reachable.reach_step [OF init create] launch] fail]
  have "waits_for_runner 0 failed_daemon" "d_main failed_daemon = Joins_thread 0"
    by (simp_all add: failed_daemon_def failing_config_def waits_for_runner_def daemon_fails_def daemon_run)
  then show ?thesis
    using daemon_failure_waits [OF reachable, where n = 0 and t = failed_daemon] by simp
qed

end
