(* ===== verification/Shutdown.thy ===== *)
theory Shutdown
  imports Prelude
begin

text \<open>
  \<^verbatim>\<open>utility/src/shutdown_signal.cpp\<close>: the flag behind a mutex that the program polls, and the handlers
  of \<^verbatim>\<open>SIGINT\<close> and \<^verbatim>\<open>SIGTERM\<close> that set it. A handler runs on top of whatever a thread is
  doing, so every thread has a stack of frames. The lemmas show that the mutex protects the flag, that
  the flag is never reset, and that a handler which interrupts a thread inside \<^verbatim>\<open>is_signalled\<close> never
  ends and blocks every later poll.
\<close>

section \<open>State\<close>

text \<open>
  \<open>Polls\<close>: in \<^verbatim>\<open>is_signalled\<close>, with the mutex; \<open>Signal_waits\<close> and \<open>Signal_holds\<close>: in \<^verbatim>\<open>signal\<close>, before
  and after the mutex is locked. The first frame is the one that runs. \<open>owner\<close> is the mutex.
\<close>

datatype frame = Polls | Signal_waits | Signal_holds

record shutdown_signal =
  owner :: "nat option"
  signal_value :: bool
  frames :: "nat \<Rightarrow> frame list"

definition shutdown_signal_new :: shutdown_signal where
  "shutdown_signal_new = \<lparr>owner = None, signal_value = False, frames = (\<lambda>_. [])\<rparr>"

text \<open>\<^verbatim>\<open>install\<close> returns the one static signal; the first call creates it.\<close>

definition install :: "shutdown_signal option \<Rightarrow> shutdown_signal" where
  "install sig = (case sig of None \<Rightarrow> shutdown_signal_new | Some s \<Rightarrow> s)"

section \<open>Operations\<close>

definition set_frames :: "nat \<Rightarrow> frame list \<Rightarrow> shutdown_signal \<Rightarrow> shutdown_signal" where
  "set_frames t fs s = s\<lparr>frames := (frames s)(t := fs)\<rparr>"

definition is_signalled_begin :: "nat \<Rightarrow> shutdown_signal \<Rightarrow> shutdown_signal" where
  "is_signalled_begin t s = set_frames t (Polls # frames s t) (s\<lparr>owner := Some t\<rparr>)"

definition is_signalled_end :: "nat \<Rightarrow> shutdown_signal \<Rightarrow> bool \<times> shutdown_signal" where
  "is_signalled_end t s = (signal_value s, set_frames t (tl (frames s t)) (s\<lparr>owner := None\<rparr>))"

definition handler_begin :: "nat \<Rightarrow> shutdown_signal \<Rightarrow> shutdown_signal" where
  "handler_begin t s = set_frames t (Signal_waits # frames s t) s"

definition signal_lock :: "nat \<Rightarrow> shutdown_signal \<Rightarrow> shutdown_signal" where
  "signal_lock t s = set_frames t (Signal_holds # tl (frames s t)) (s\<lparr>owner := Some t\<rparr>)"

definition signal_end :: "nat \<Rightarrow> shutdown_signal \<Rightarrow> shutdown_signal" where
  "signal_end t s = set_frames t (tl (frames s t)) (s\<lparr>signal_value := True, owner := None\<rparr>)"

text \<open>\<^verbatim>\<open>std::mutex::lock\<close> waits while the mutex is owned, also when its owner is the caller.\<close>

inductive signal_step :: "shutdown_signal \<Rightarrow> shutdown_signal \<Rightarrow> bool" where
  poll: "frames s t = [] \<Longrightarrow> owner s = None \<Longrightarrow> signal_step s (is_signalled_begin t s)"
| polled: "frames s t = Polls # fs \<Longrightarrow> signal_step s (snd (is_signalled_end t s))"
| interrupt: "signal_step s (handler_begin t s)"
| lock: "frames s t = Signal_waits # fs \<Longrightarrow> owner s = None \<Longrightarrow> signal_step s (signal_lock t s)"
| signalled: "frames s t = Signal_holds # fs \<Longrightarrow> signal_step s (signal_end t s)"

inductive_cases signal_stepE: "signal_step s s'"

abbreviation signal_reachable :: "shutdown_signal \<Rightarrow> bool" where
  "signal_reachable \<equiv> reachable (\<lambda>s. s = shutdown_signal_new) signal_step"

section \<open>The invariant\<close>

definition holding :: "frame list \<Rightarrow> nat" where
  "holding fs = length (filter (\<lambda>f. f \<noteq> Signal_waits) fs)"

lemma holding_simps [simp]:
  "holding [] = 0" "holding (Polls # fs) = Suc (holding fs)" "holding (Signal_holds # fs) = Suc (holding fs)"
  "holding (Signal_waits # fs) = holding fs"
  by (simp_all add: holding_def)

text \<open>The owner of the mutex is in one critical section, and no other thread is in any.\<close>

definition mutex_ok :: "shutdown_signal \<Rightarrow> bool" where
  "mutex_ok s \<longleftrightarrow> (\<forall>t. holding (frames s t) = (if owner s = Some t then 1 else 0))"

lemmas signal_ops = is_signalled_begin_def is_signalled_end_def handler_begin_def signal_lock_def signal_end_def set_frames_def

lemma mutex_ok_frames:
  assumes "mutex_ok s"
  shows "owner s = None \<Longrightarrow> holding (frames s t) = 0"
    and "frames s t = f # fs \<Longrightarrow> f \<noteq> Signal_waits \<Longrightarrow> owner s = Some t \<and> holding fs = 0"
proof -
  have t: "holding (frames s t) = (if owner s = Some t then 1 else 0)"
    using assms by (simp add: mutex_ok_def)
  then show "owner s = None \<Longrightarrow> holding (frames s t) = 0"
    by simp
  show "frames s t = f # fs \<Longrightarrow> f \<noteq> Signal_waits \<Longrightarrow> owner s = Some t \<and> holding fs = 0"
    using t by (cases f) (auto split: if_splits)
qed

text \<open>A thread that changes its frames, with the mutex as it should be.\<close>

lemma mutex_ok_update:
  assumes "mutex_ok s" "owner s = None \<or> owner s = Some t \<or> own = owner s" "own = None \<or> own = Some t \<or> own = owner s"
    "holding fs = (if own = Some t then 1 else 0)"
  shows "mutex_ok (set_frames t fs (s\<lparr>owner := own\<rparr>))"
  using assms by (auto simp: mutex_ok_def set_frames_def)

lemma mutex_ok_value [simp]: "mutex_ok (s\<lparr>signal_value := v\<rparr>) = mutex_ok s"
  by (simp add: mutex_ok_def)

lemma mutex_ok_step:
  assumes "mutex_ok s" "signal_step s s'"
  shows "mutex_ok s'"
  using assms(2)
proof (cases rule: signal_step.cases)
  case (poll t)
  then show ?thesis
    using mutex_ok_update [OF assms(1), of t "Some t"] by (simp add: is_signalled_begin_def)
next
  case (polled t fs)
  then show ?thesis
    using mutex_ok_frames(2) [OF assms(1), of t Polls fs] mutex_ok_update [OF assms(1), of t None fs]
    by (simp add: is_signalled_end_def)
next
  case (interrupt t)
  have "s\<lparr>owner := owner s\<rparr> = s"
    by simp
  moreover have "holding (frames s t) = (if owner s = Some t then 1 else 0)"
    using assms(1) by (simp add: mutex_ok_def)
  ultimately show ?thesis
    using interrupt mutex_ok_update [OF assms(1), of t "owner s" "Signal_waits # frames s t"] by (simp add: handler_begin_def)
next
  case (lock t fs)
  then show ?thesis
    using mutex_ok_frames(1) [OF assms(1), of t] mutex_ok_update [OF assms(1), of t "Some t" "Signal_holds # fs"]
    by (simp add: signal_lock_def)
next
  case (signalled t fs)
  then have "mutex_ok (set_frames t fs (s\<lparr>signal_value := True, owner := None\<rparr>))"
    using mutex_ok_frames(2) [OF assms(1), of t Signal_holds fs] mutex_ok_update [of "s\<lparr>signal_value := True\<rparr>" t None fs] assms(1)
    by simp
  then show ?thesis
    using signalled by (simp add: signal_end_def)
qed

lemma mutex_ok_new: "mutex_ok shutdown_signal_new"
  by (simp add: mutex_ok_def shutdown_signal_new_def)

interpretation signal: step_invariant "\<lambda>s. s = shutdown_signal_new" signal_step mutex_ok
  by unfold_locales (auto intro: mutex_ok_step mutex_ok_new)


section \<open>A handler that cannot end\<close>

text \<open>The handler on thread \<open>t\<close> waits for the mutex that the frame below it holds.\<close>

definition self_blocked :: "nat \<Rightarrow> shutdown_signal \<Rightarrow> bool" where
  "self_blocked t s \<longleftrightarrow> owner s = Some t \<and> (\<exists>fs hs. frames s t = hs @ Signal_waits # Polls # fs \<and> set hs \<subseteq> {Signal_waits})"

lemma self_blockedI:
  "owner s = Some t \<Longrightarrow> frames s t = hs @ Signal_waits # Polls # fs \<Longrightarrow> set hs \<subseteq> {Signal_waits} \<Longrightarrow> self_blocked t s"
  unfolding self_blocked_def by blast

lemma self_blocked_top: "self_blocked t s \<Longrightarrow> \<exists>fs. frames s t = Signal_waits # fs"
  unfolding self_blocked_def
  by (metis append_Cons append_Nil list.exhaust list.set_intros(1) singletonD subset_code(1))

lemma self_blocked_step:
  assumes "mutex_ok s" "self_blocked t s" "signal_step s s'"
  shows "self_blocked t s' \<and> signal_value s' = signal_value s"
  using assms(3)
proof (cases rule: signal_step.cases)
  case (interrupt k)
  obtain fs hs where fs: "owner s = Some t" "frames s t = hs @ Signal_waits # Polls # fs" "set hs \<subseteq> {Signal_waits}"
    using assms(2) by (auto simp: self_blocked_def)
  show ?thesis
  proof (cases "k = t")
    case True
    have "frames s' t = (Signal_waits # hs) @ Signal_waits # Polls # fs" "set (Signal_waits # hs) \<subseteq> {Signal_waits}"
      using True fs interrupt by (simp_all add: handler_begin_def set_frames_def)
    moreover have "owner s' = Some t" "signal_value s' = signal_value s"
      using fs(1) interrupt by (simp_all add: handler_begin_def set_frames_def)
    ultimately show ?thesis
      by (blast intro: self_blockedI)
  qed (use assms(2) interrupt in \<open>simp add: self_blocked_def handler_begin_def set_frames_def\<close>)
next
  case (polled k fs)
  then have "owner s = Some k"
    using mutex_ok_frames(2) [OF assms(1)] by blast
  then show ?thesis
    using polled self_blocked_top [OF assms(2)] assms(2) by (auto simp: self_blocked_def)
next
  case (signalled k fs)
  then have "owner s = Some k"
    using mutex_ok_frames(2) [OF assms(1)] by blast
  then show ?thesis
    using signalled self_blocked_top [OF assms(2)] assms(2) by (auto simp: self_blocked_def)
qed (use assms(2) in \<open>simp_all add: self_blocked_def\<close>)

lemma self_blocked_run:
  assumes "signal_step\<^sup>*\<^sup>* s s'" "mutex_ok s" "self_blocked t s"
  shows "mutex_ok s' \<and> self_blocked t s' \<and> signal_value s' = signal_value s"
  using assms by (induction rule: rtranclp_induct) (auto dest: self_blocked_step mutex_ok_step)

lemma value_kept: "signal_step s s' \<Longrightarrow> signal_value s \<Longrightarrow> signal_value s'"
  by (erule signal_stepE) (auto simp: signal_ops)

lemma value_kept_run: "signal_step\<^sup>*\<^sup>* s s' \<Longrightarrow> signal_value s \<Longrightarrow> signal_value s'"
  by (induction rule: rtranclp_induct) (auto dest: value_kept)

section \<open>Properties\<close>

text \<open>
  The shutdown flag: at any time at most one thread is inside \<^verbatim>\<open>is_signalled\<close> or
  \<^verbatim>\<open>signal\<close> with the mutex, a handler that ends has set the flag, and once set it stays set, so
  every later poll returns true.
\<close>

theorem shutdown_flag:
  assumes "signal_reachable s" "signal_step\<^sup>*\<^sup>* s s'"
  shows "(\<forall>t k. 0 < holding (frames s t) \<and> 0 < holding (frames s k) \<longrightarrow> t = k) \<and>
    signal_value (signal_end t s) \<and> (signal_value s \<longrightarrow> fst (is_signalled_end k s'))"
proof -
  have "mutex_ok s"
    using assms(1) by (rule signal.inv_reachable)
  then have "\<forall>t k. 0 < holding (frames s t) \<and> 0 < holding (frames s k) \<longrightarrow> t = k"
    by (auto simp: mutex_ok_def split: if_splits)
  then show ?thesis
    using value_kept_run [OF assms(2)] by (simp add: signal_end_def is_signalled_end_def set_frames_def)
qed

text \<open>A run: thread 1 polls, and thread 0 receives a signal.\<close>

definition polling_signal :: shutdown_signal where
  "polling_signal = is_signalled_begin 1 shutdown_signal_new"

lemma polling_reachable: "signal_reachable polling_signal"
proof (rule reachable.reach_step)
  show "signal_reachable shutdown_signal_new"
    by (simp add: reachable.reach_init)
  show "signal_step shutdown_signal_new polling_signal"
    unfolding polling_signal_def by (rule signal_step.poll) (simp_all add: shutdown_signal_new_def)
qed

theorem shutdown_flag_witness: "signal_value (signal_end 1 polling_signal) \<and> \<not> 0 < holding (frames polling_signal 0)"
  using shutdown_flag [OF polling_reachable rtranclp.rtrancl_refl, of 1 0]
  by (simp add: polling_signal_def is_signalled_begin_def set_frames_def shutdown_signal_new_def)

text \<open>
  C21. A signal that arrives while the thread it is delivered to is inside \<^verbatim>\<open>is_signalled\<close> is lost and
  stops the program's polls: whatever any thread does afterwards, the handler never gets the mutex,
  the flag keeps its value, and no thread can enter \<^verbatim>\<open>is_signalled\<close> or \<^verbatim>\<open>signal\<close> again.
\<close>

theorem interrupted_poll_deadlocks:
  assumes "signal_reachable s" "frames s t = Polls # fs" "signal_step\<^sup>*\<^sup>* (handler_begin t s) s'"
  shows "signal_value s' = signal_value s \<and> owner s' = Some t \<and> (\<exists>hs. frames s' t = Signal_waits # hs)"
proof -
  have inv: "mutex_ok s"
    using assms(1) by (rule signal.inv_reachable)
  then have "owner s = Some t"
    using mutex_ok_frames(2) [OF inv assms(2)] by simp
  then have "self_blocked t (handler_begin t s)"
    using assms(2) by (intro self_blockedI [where hs = "[]" and fs = fs]) (simp_all add: handler_begin_def set_frames_def)
  moreover have "mutex_ok (handler_begin t s)"
    using inv by (rule mutex_ok_step) (rule signal_step.interrupt)
  ultimately have "self_blocked t s'" "signal_value s' = signal_value s"
    using self_blocked_run [OF assms(3)] by (simp_all add: handler_begin_def set_frames_def)
  then show ?thesis
    using self_blocked_top by (auto simp: self_blocked_def)
qed

theorem interrupted_poll_deadlocks_witness:
  "\<not> signal_value (handler_begin 1 polling_signal) \<and> owner (handler_begin 1 polling_signal) = Some 1"
  using interrupted_poll_deadlocks [OF polling_reachable, of 1 "[]" "handler_begin 1 polling_signal"]
  by (simp add: polling_signal_def is_signalled_begin_def set_frames_def shutdown_signal_new_def)

end
