(* ===== verification/HttpTransfer.thy ===== *)
theory HttpTransfer
  imports Http
begin

text \<open>
  \<^verbatim>\<open>utility/src/http.cpp\<close>, the part that libcurl calls back: the functions that collect headers and
  body, and the locks of the share handle. libcurl is a parameter: a transfer is the list of chunks
  it delivers, with its result; as documented, it gives up with code 23 when a callback
  does not return the size of its chunk. The lemmas show that a response has the whole body or is an
  error, and that two transfers are never inside the same part of the shared data.
\<close>

section \<open>Callbacks\<close>

definition size_mul :: "nat \<Rightarrow> nat \<Rightarrow> nat" where
  "size_mul m n = (m * n) mod size_modulus"

text \<open>\<open>fits n\<close>: a container of \<open>n\<close> bytes can be allocated; otherwise the container is unchanged.\<close>

definition write_header_fn :: "(nat \<Rightarrow> bool) \<Rightarrow> string \<Rightarrow> nat \<Rightarrow> nat \<Rightarrow> string \<Rightarrow> nat \<times> string" where
  "write_header_fn fits buffer elem_size n output_string =
     (if fits (length output_string + size_mul elem_size n)
      then (size_mul elem_size n, output_string @ take (size_mul elem_size n) buffer)
      else (0, output_string))"

definition resize :: "byte list \<Rightarrow> nat \<Rightarrow> byte list" where
  "resize xs n = take n xs @ replicate (n - length xs) 0"

definition memcpy_at :: "byte list \<Rightarrow> nat \<Rightarrow> byte list \<Rightarrow> byte list" where
  "memcpy_at ys offset xs = take offset ys @ xs @ drop (offset + length xs) ys"

definition write_body_fn :: "(nat \<Rightarrow> bool) \<Rightarrow> byte list \<Rightarrow> nat \<Rightarrow> nat \<Rightarrow> byte list \<Rightarrow> nat \<times> byte list" where
  "write_body_fn fits buffer elem_size n body =
     (let old_size = length body in
      if fits (length body + size_mul elem_size n)
      then (size_mul elem_size n,
            memcpy_at (resize body (length body + size_mul elem_size n)) old_size (take (size_mul elem_size n) buffer))
      else (0, body))"

section \<open>A transfer\<close>

datatype chunk = Header_chunk string nat nat | Body_chunk "byte list" nat nat

text \<open>The buffer of a chunk has as many bytes as its sizes say.\<close>

definition chunk_ok :: "chunk \<Rightarrow> bool" where
  "chunk_ok ch = (case ch of Header_chunk b k n \<Rightarrow> length b = k * n \<and> k * n < size_modulus
                           | Body_chunk b k n \<Rightarrow> length b = k * n \<and> k * n < size_modulus)"

fun deliver :: "(nat \<Rightarrow> bool) \<Rightarrow> chunk list \<Rightarrow> string \<times> byte list \<Rightarrow> bool \<times> string \<times> byte list" where
  "deliver fits [] (hs, body) = (True, hs, body)"
| "deliver fits (Header_chunk b k n # chs) (hs, body) =
     (case write_header_fn fits b k n hs of (ret, hs') \<Rightarrow>
        if ret = k * n then deliver fits chs (hs', body) else (False, hs', body))"
| "deliver fits (Body_chunk b k n # chs) (hs, body) =
     (case write_body_fn fits b k n body of (ret, body') \<Rightarrow>
        if ret = k * n then deliver fits chs (hs, body') else (False, hs, body'))"

text \<open>
  What libcurl does for a transfer: \<open>None\<close> when it has no handle, else the chunks, the code of
  \<^verbatim>\<open>curl_easy_perform\<close> when the callbacks take them all, and the status.
\<close>

record exchange =
  ex_chunks :: "chunk list"
  ex_code :: int
  ex_status :: int

definition easy_curl :: "(nat \<Rightarrow> bool) \<Rightarrow> (transfer \<Rightarrow> 's \<Rightarrow> exchange option \<times> 's) \<Rightarrow> 's curl" where
  "easy_curl fits server t s =
     (case server t s of
        (None, s') \<Rightarrow> (No_handle, s')
      | (Some ex, s') \<Rightarrow>
          (case deliver fits (ex_chunks ex) ([], []) of (complete, _, body) \<Rightarrow>
             (if \<not> complete then Curl_error 23
              else if ex_code ex \<noteq> 0 then Curl_error (ex_code ex)
              else Completed (ex_status ex) body, s')))"

section \<open>The share handle\<close>

text \<open>
  One mutex for every kind of data (\<open>None\<close>: not locked). \<open>None\<close> as a result means that the call
  waits; a number out of range throws.
\<close>

definition share_new :: "nat \<Rightarrow> nat option list" where
  "share_new last_data = replicate last_data None"

definition lock_fn :: "nat \<Rightarrow> nat \<Rightarrow> nat option list \<Rightarrow> (fault + nat option list) option" where
  "lock_fn handle lock_data mutexes =
     (if lock_data \<ge> length mutexes then Some (Inl (Throw ''array::at''))
      else (case mutexes ! lock_data of
              None \<Rightarrow> Some (Inr (mutexes[lock_data := Some handle]))
            | Some _ \<Rightarrow> None))"

definition unlock_fn :: "nat \<Rightarrow> nat option list \<Rightarrow> fault + nat option list" where
  "unlock_fn lock_data mutexes =
     (if lock_data \<ge> length mutexes then Inl (Throw ''array::at'') else Inr (mutexes[lock_data := None]))"

lemma share_exclusive:
  assumes "lock_fn handle d ms = Some (Inr ms')"
  shows "lock_fn other d ms' = None" and "unlock_fn d ms' = Inr ms" and "k \<noteq> d \<Longrightarrow> ms' ! k = ms ! k"
  using assms by (auto simp: lock_fn_def unlock_fn_def list_update_same_conv split: if_splits option.splits)

section \<open>The body\<close>

fun body_of :: "chunk list \<Rightarrow> byte list" where
  "body_of [] = []"
| "body_of (Header_chunk _ _ _ # chs) = body_of chs"
| "body_of (Body_chunk b _ _ # chs) = b @ body_of chs"

fun headers_of :: "chunk list \<Rightarrow> string" where
  "headers_of [] = []"
| "headers_of (Header_chunk b _ _ # chs) = b @ headers_of chs"
| "headers_of (Body_chunk _ _ _ # chs) = headers_of chs"

lemma write_header_ok:
  assumes "length b = k * n" "k * n < size_modulus"
  shows "write_header_fn fits b k n hs = (if fits (length hs + length b) then (k * n, hs @ b) else (0, hs))"
  using assms by (simp add: write_header_fn_def size_mul_def)

lemma write_body_ok:
  assumes "length b = k * n" "k * n < size_modulus"
  shows "write_body_fn fits b k n body = (if fits (length body + length b) then (k * n, body @ b) else (0, body))"
  using assms by (simp add: write_body_fn_def size_mul_def memcpy_at_def resize_def Let_def)

text \<open>A chunk of no bytes that does not fit also counts as taken: nothing is lost.\<close>

lemma deliver_complete:
  "list_all chunk_ok chs \<Longrightarrow> deliver fits chs (hs, body) = (True, hs', body') \<Longrightarrow>
    hs' = hs @ headers_of chs \<and> body' = body @ body_of chs"
  by (induction fits chs "(hs, body)" arbitrary: hs body rule: deliver.induct)
    (auto simp: chunk_ok_def write_header_ok write_body_ok split: if_splits)

lemma deliver_fits:
  "list_all chunk_ok chs \<Longrightarrow> (\<forall>n \<le> length hs + length (headers_of chs). fits n) \<Longrightarrow>
    (\<forall>n \<le> length body + length (body_of chs). fits n) \<Longrightarrow>
    deliver fits chs (hs, body) = (True, hs @ headers_of chs, body @ body_of chs)"
  by (induction fits chs "(hs, body)" arbitrary: hs body rule: deliver.induct)
    (auto simp: chunk_ok_def write_header_ok write_body_ok)

section \<open>Properties\<close>

text \<open>
  C19. A response is complete: however libcurl splits headers and body into chunks and however memory
  runs out, when \<^verbatim>\<open>send\<close> returns a response its body is the concatenation of all the chunks of the body;
  and it does return it for every status from 0 to 399 when the transfer succeeds and memory suffices.
\<close>

theorem response_complete:
  assumes "server (make_transfer c (run_middlewares (m_req_middlewares c) req)) s = (Some ex, s')" "list_all chunk_ok (ex_chunks ex)"
  shows "(\<forall>resp. fst (http_send (easy_curl fits server) c req s) = Inr (Inr resp) \<longrightarrow>
      resp_body resp = body_of (ex_chunks ex) \<and> ex_code ex = 0) \<and>
    ((\<forall>n \<le> length (headers_of (ex_chunks ex)) + length (body_of (ex_chunks ex)). fits n) \<and> ex_code ex = 0 \<and>
      0 \<le> ex_status ex \<and> ex_status ex < 400 \<longrightarrow>
      http_send (easy_curl fits server) c req s =
        (Inr (Inr \<lparr>resp_status = ex_status ex, resp_body = body_of (ex_chunks ex)\<rparr>), s'))"
proof (intro conjI allI impI)
  obtain complete hs body where d: "deliver fits (ex_chunks ex) ([], []) = (complete, hs, body)"
    by (cases "deliver fits (ex_chunks ex) ([], [])")
  fix resp assume "fst (http_send (easy_curl fits server) c req s) = Inr (Inr resp)"
  then have "complete" "ex_code ex = 0" "resp_body resp = body"
    using assms(1) d by (auto simp: http_send_def easy_curl_def Let_def split: if_splits sum.splits)
  then show "resp_body resp = body_of (ex_chunks ex)" "ex_code ex = 0"
    using deliver_complete [OF assms(2), of fits "[]" "[]" hs body] d by simp_all
next
  assume ex: "(\<forall>n \<le> length (headers_of (ex_chunks ex)) + length (body_of (ex_chunks ex)). fits n) \<and> ex_code ex = 0 \<and>
      0 \<le> ex_status ex \<and> ex_status ex < 400"
  then have "deliver fits (ex_chunks ex) ([], []) = (True, headers_of (ex_chunks ex), body_of (ex_chunks ex))"
    using deliver_fits [OF assms(2), of "[]" fits "[]"] by simp
  moreover have "in_type long_t (ex_status ex)"
    using ex by (simp add: in_type_def long_t_def type_min_def type_max_def)
  then have "safe_cast_int int_t long_t (ex_status ex) = Inr (ex_status ex)"
    using ex by (simp add: status_cast)
  ultimately show "http_send (easy_curl fits server) c req s =
        (Inr (Inr \<lparr>resp_status = ex_status ex, resp_body = body_of (ex_chunks ex)\<rparr>), s')"
    using assms(1) ex by (simp add: http_send_def easy_curl_def Let_def)
qed

theorem response_complete_witness:
  "http_send (easy_curl (\<lambda>n. n < 100) (\<lambda>t n. (Some \<lparr>ex_chunks = [Header_chunk ''A: b'' 1 4, Body_chunk [1, 2] 1 2, Body_chunk [3] 1 1],
        ex_code = 0, ex_status = 200\<rparr>, n + 1))) (http_client_new ''http://h'')
     \<lparr>req_method = Get, req_path = ''/x'', req_payload = [], req_headers = []\<rparr> (0 :: nat) =
   (Inr (Inr \<lparr>resp_status = 200, resp_body = [1, 2, 3]\<rparr>), 1)"
proof -
  let ?ex = "\<lparr>ex_chunks = [Header_chunk ''A: b'' 1 4, Body_chunk [1, 2] 1 2, Body_chunk [3] 1 1], ex_code = 0, ex_status = 200\<rparr>"
  have "list_all chunk_ok (ex_chunks ?ex)"
    by (simp add: chunk_ok_def size_modulus_def)
  then show ?thesis
    using response_complete [where server = "\<lambda>t n. (Some ?ex, n + 1)" and ex = ?ex and s = "0 :: nat" and s' = 1
        and fits = "\<lambda>n. n < 100" and c = "http_client_new ''http://h''"
        and req = "\<lparr>req_method = Get, req_path = ''/x'', req_payload = [], req_headers = []\<rparr>"]
    by simp
qed

end
