(* ===== verification/TestDriver.thy ===== *)
theory TestDriver
  imports Prelude "HOL-Library.List_Lexorder" "HOL-Library.Char_ord"
begin

text \<open>
  \<^verbatim>\<open>test_driver/src/test_driver.cpp\<close> and \<^verbatim>\<open>test_driver.hpp\<close>: the registry of test cases, the
  requirements they check, and the program that runs one or all of them. A test case is a function on
  the state of the outside. The lemmas show that the driver runs every registered test once, in the
  order of the names, and that its exit code is 0 only when they all passed.
\<close>

section \<open>Test cases\<close>

record failure_info =
  fi_condition :: string
  fi_file :: string
  fi_line :: int

datatype test_outcome = Passed | Failure failure_info | Threw string | Threw_unknown

record 'w test_reg =
  test_name :: string
  test_fn :: "'w \<Rightarrow> test_outcome \<times> 'w"

text \<open>\<^verbatim>\<open>tests()[reg.name()] = std::move(reg)\<close> on the sorted map.\<close>

fun assign_test :: "'w test_reg \<Rightarrow> (string \<times> 'w test_reg) list \<Rightarrow> (string \<times> 'w test_reg) list" where
  "assign_test t [] = [(test_name t, t)]"
| "assign_test t ((k, u) # rest) =
     (if test_name t = k then (k, t) # rest
      else if test_name t < k then (test_name t, t) # (k, u) # rest
      else (k, u) # assign_test t rest)"

definition auto_test_reg :: "'w test_reg list \<Rightarrow> (string \<times> 'w test_reg) list" where
  "auto_test_reg regs = fold assign_test regs []"

section \<open>Requirements\<close>

text \<open>
  \<^verbatim>\<open>REQUIRE\<close> and its variants: \<open>None\<close> when the test goes on. \<open>info\<close> makes the record of a condition's
  text. How the function given to \<^verbatim>\<open>REQUIRE_THROW\<close> ends: normally, with the exception expected, or
  with another.
\<close>

datatype call_end = Returns | Throws_expected | Throws_other

definition require :: "(string \<Rightarrow> failure_info) \<Rightarrow> string \<Rightarrow> bool \<Rightarrow> failure_info option" where
  "require info cond holds = (if holds then None else Some (info cond))"

definition require_false :: "(string \<Rightarrow> failure_info) \<Rightarrow> string \<Rightarrow> bool \<Rightarrow> failure_info option" where
  "require_false info cond holds = (if holds then Some (info cond) else None)"

definition require_throw :: "(string \<Rightarrow> failure_info) \<Rightarrow> call_end \<Rightarrow> failure_info option" where
  "require_throw info e =
     (let did_throw = (e \<noteq> Returns); unexpected_exception_thrown = (e = Throws_other)
      in case require info ''did_throw'' did_throw of
           Some f \<Rightarrow> Some f
         | None \<Rightarrow> require info ''!unexpected_exception_thrown'' (\<not> unexpected_exception_thrown))"

definition require_nothrow :: "(string \<Rightarrow> failure_info) \<Rightarrow> call_end \<Rightarrow> failure_info option" where
  "require_nothrow info e = require info ''!did_throw'' (e = Returns)"

section \<open>Commands\<close>

record 'w test_run =
  run_out :: string
  run_err :: string
  run_world :: 'w

definition nl :: string where
  "nl = [CHR 0x0A]"

definition cmd_help :: "'w test_run \<Rightarrow> int \<times> 'w test_run" where
  "cmd_help s = (0, s\<lparr>run_out := run_out s @ ''Usage: program [--[help|list]|test_name].'' @ nl\<rparr>)"

definition cmd_list :: "(string \<times> 'w test_reg) list \<Rightarrow> 'w test_run \<Rightarrow> int \<times> 'w test_run" where
  "cmd_list tests s =
     (if tests = [] then (3, s\<lparr>run_err := run_err s @ ''No tests found.'' @ nl\<rparr>)
      else (0, s\<lparr>run_out := run_out s @ concat (map (\<lambda>(k, t). test_name t @ nl) tests)\<rparr>))"

definition failure_text :: "string \<Rightarrow> test_outcome \<Rightarrow> string" where
  "failure_text name outcome =
     (case outcome of
        Passed \<Rightarrow> []
      | Failure info \<Rightarrow> ''Test \"'' @ name @ ''\" failed ['' @ fi_condition info @ ''] at '' @ fi_file info @ '':'' @
          show_int (fi_line info) @ ''.'' @ nl
      | Threw what \<Rightarrow> ''Test \"'' @ name @ ''\" threw exception with message \"'' @ what @ ''\".'' @ nl
      | Threw_unknown \<Rightarrow> ''Test \"'' @ name @ ''\" threw unknown exception.'' @ nl)"

definition invoke :: "'w test_reg \<Rightarrow> 'w test_run \<Rightarrow> test_outcome \<times> 'w test_run" where
  "invoke t s = (case test_fn t (run_world s) of (outcome, w) \<Rightarrow> (outcome, s\<lparr>run_world := w\<rparr>))"

definition cmd_run_test :: "(string \<times> 'w test_reg) list \<Rightarrow> string \<Rightarrow> 'w test_run \<Rightarrow> int \<times> 'w test_run" where
  "cmd_run_test tests name s =
     (case map_of tests name of
        None \<Rightarrow> (4, s\<lparr>run_err := run_err s @ ''Test not found: '' @ name @ nl\<rparr>)
      | Some t \<Rightarrow>
          (case invoke t s of (outcome, s1) \<Rightarrow>
             (case outcome of Passed \<Rightarrow> 0 | Failure _ \<Rightarrow> 1 | _ \<Rightarrow> 2,
              s1\<lparr>run_err := run_err s1 @ failure_text (test_name t) outcome\<rparr>)))"

text \<open>One turn of the loop over all tests: \<^verbatim>\<open>setw\<close> and \<^verbatim>\<open>setfill\<close> pad the name with dots.\<close>

definition test_label :: "nat \<Rightarrow> string \<Rightarrow> string" where
  "test_label name_width name = name @ replicate (name_width - length name) (CHR ''.'') @ '': ''"

definition run_turn :: "nat \<Rightarrow> 'w test_reg \<Rightarrow> nat \<times> 'w test_run \<Rightarrow> nat \<times> 'w test_run" where
  "run_turn name_width t x =
     (case x of (success_count, s) \<Rightarrow>
        (case invoke t (s\<lparr>run_out := run_out s @ test_label name_width (test_name t)\<rparr>) of (outcome, s1) \<Rightarrow>
           if outcome = Passed then (size_inc success_count, s1\<lparr>run_out := run_out s1 @ ''OK'' @ nl\<rparr>)
           else (success_count, s1\<lparr>run_out := run_out s1 @ ''FAIL'' @ nl,
                                   run_err := run_err s1 @ failure_text (test_name t) outcome\<rparr>)))"

definition cmd_run_all_tests :: "(string \<times> 'w test_reg) list \<Rightarrow> 'w test_run \<Rightarrow> int \<times> 'w test_run" where
  "cmd_run_all_tests tests s =
     (if tests = [] then (3, s)
      else let name_width = fold (\<lambda>(k, t) w. max w (length (test_name t))) tests 0;
               (success_count, s') = fold (\<lambda>(k, t). run_turn name_width t) tests (0, s)
           in (if success_count = length tests then 0 else 1, s'))"

definition test_main :: "(string \<times> 'w test_reg) list \<Rightarrow> string list \<Rightarrow> 'w test_run \<Rightarrow> int \<times> 'w test_run" where
  "test_main tests args s =
     (case args of
        _ # arg # _ \<Rightarrow>
          if arg = ''--help'' then cmd_help s
          else if arg = ''--list'' then cmd_list tests s
          else cmd_run_test tests arg s
      | _ \<Rightarrow> cmd_run_all_tests tests s)"

section \<open>The registry\<close>

lemma assign_test_keys: "fst ` set (assign_test t ts) = insert (test_name t) (fst ` set ts)"
  by (induction t ts rule: assign_test.induct) auto

lemma assign_test_sorted: "sorted_wrt (<) (map fst ts) \<Longrightarrow> sorted_wrt (<) (map fst (assign_test t ts))"
proof (induction t ts rule: assign_test.induct)
  case (2 t k u rest)
  have "fst ` set (assign_test t rest) = insert (test_name t) (fst ` set rest)"
    by (rule assign_test_keys)
  with 2 show ?case
    by (auto simp: image_iff)
qed simp

lemma assign_test_names: "\<forall>(k, u) \<in> set ts. test_name u = k \<Longrightarrow> \<forall>(k, u) \<in> set (assign_test t ts). test_name u = k"
  by (induction t ts rule: assign_test.induct) auto

lemma assign_test_lookup:
  "sorted_wrt (<) (map fst ts) \<Longrightarrow> map_of (assign_test t ts) = (map_of ts)(test_name t \<mapsto> t)"
proof (induction t ts rule: assign_test.induct)
  case (2 t k u rest)
  then show ?case
    by (auto simp: fun_eq_iff)
qed (auto simp: fun_eq_iff)

definition registry_ok :: "(string \<times> 'w test_reg) list \<Rightarrow> bool" where
  "registry_ok ts \<longleftrightarrow> sorted_wrt (<) (map fst ts) \<and> (\<forall>(k, u) \<in> set ts. test_name u = k)"

lemma registry_ok_assign: "registry_ok ts \<Longrightarrow> registry_ok (assign_test t ts)"
  unfolding registry_ok_def using assign_test_sorted assign_test_names by blast

lemma registry_fold:
  "registry_ok ts \<Longrightarrow> registry_ok (fold assign_test regs ts) \<and>
    map_of (fold assign_test regs ts) name =
      (case find (\<lambda>t. test_name t = name) (rev regs) of Some t \<Rightarrow> Some t | None \<Rightarrow> map_of ts name)"
proof (induction regs arbitrary: ts)
  case (Cons t regs)
  have find: "find P (xs @ ys) = (case find P xs of Some x \<Rightarrow> Some x | None \<Rightarrow> find P ys)" for P and xs ys :: "'b list"
    by (induction xs) auto
  have "map_of (assign_test t ts) = (map_of ts)(test_name t \<mapsto> t)"
    using Cons.prems by (simp add: registry_ok_def assign_test_lookup)
  then show ?case
    using Cons.IH [OF registry_ok_assign [OF Cons.prems]] by (auto simp: find split: option.splits)
qed (simp split: option.splits)

lemma length_fold_assign: "length (fold assign_test regs ts) \<le> length regs + length ts"
proof (induction regs arbitrary: ts)
  case (Cons t regs)
  have "length (assign_test t ts) \<le> Suc (length ts)"
    by (induction t ts rule: assign_test.induct) auto
  then show ?case
    using Cons [of "assign_test t ts"] by simp
qed simp

lemma fold_assign_nonempty: "regs \<noteq> [] \<or> ts \<noteq> [] \<Longrightarrow> fold assign_test regs ts \<noteq> []"
proof (induction regs arbitrary: ts)
  case (Cons t regs)
  have "assign_test t ts \<noteq> []"
    using assign_test_keys [of t ts] by auto
  then show ?case
    using Cons.IH by simp
qed simp

section \<open>Running\<close>

text \<open>What the tests do one after the other, and what the driver prints for them.\<close>

fun outcomes_of :: "(string \<times> 'w test_reg) list \<Rightarrow> 'w \<Rightarrow> (string \<times> test_outcome) list \<times> 'w" where
  "outcomes_of [] w = ([], w)"
| "outcomes_of ((k, t) # ts) w =
     (case test_fn t w of (outcome, w') \<Rightarrow> (case outcomes_of ts w' of (os, w'') \<Rightarrow> ((test_name t, outcome) # os, w'')))"

definition out_line :: "nat \<Rightarrow> string \<times> test_outcome \<Rightarrow> string" where
  "out_line width p = test_label width (fst p) @ (if snd p = Passed then ''OK'' else ''FAIL'') @ nl"

definition passed :: "(string \<times> test_outcome) list \<Rightarrow> nat" where
  "passed os = length (filter (\<lambda>p. snd p = Passed) os)"

lemma passed_simps [simp]: "passed [] = 0" "passed (p # os) = (if snd p = Passed then Suc (passed os) else passed os)"
  by (simp_all add: passed_def)

lemma passed_all: "passed os = length os \<longleftrightarrow> (\<forall>p \<in> set os. snd p = Passed)"
proof (induction os)
  case (Cons p os)
  have "passed os \<le> length os"
    by (simp add: passed_def)
  with Cons show ?case
    by auto
qed simp

lemma length_outcomes: "length (fst (outcomes_of ts w)) = length ts"
  by (induction ts w rule: outcomes_of.induct) (auto split: prod.splits)

lemma failure_text_passed [simp]: "failure_text name Passed = []"
  by (simp add: failure_text_def)

lemma run_turns:
  "outcomes_of ts (run_world s) = (os, w) \<Longrightarrow> n + length ts < size_modulus \<Longrightarrow>
    fold (\<lambda>(k, t). run_turn width t) ts (n, s) =
      (n + passed os,
       s\<lparr>run_out := run_out s @ concat (map (out_line width) os),
         run_err := run_err s @ concat (map (\<lambda>(name, outcome). failure_text name outcome) os), run_world := w\<rparr>)"
proof (induction ts arbitrary: n s os)
  case Nil
  then show ?case
    by simp
next
  case (Cons kt ts)
  obtain k t where kt: "kt = (k, t)"
    by (cases kt)
  obtain outcome w1 rest where step: "test_fn t (run_world s) = (outcome, w1)" "outcomes_of ts w1 = (rest, w)"
    "os = (test_name t, outcome) # rest"
    using Cons.prems(1) kt by (auto split: prod.splits)
  let ?n = "if outcome = Passed then n + 1 else n"
  let ?s1 = "s\<lparr>run_out := run_out s @ out_line width (test_name t, outcome),
      run_err := run_err s @ failure_text (test_name t) outcome, run_world := w1\<rparr>"
  have turn: "run_turn width t (n, s) = (?n, ?s1)"
    using step(1) Cons.prems(2) by (auto simp: run_turn_def invoke_def out_line_def)
  have "outcomes_of ts (run_world ?s1) = (rest, w)" "?n + length ts < size_modulus"
    using step(2) Cons.prems(2) by simp_all
  note IH = Cons.IH [OF this]
  show ?case
    using turn IH kt step(3) by simp
qed

section \<open>Properties\<close>

text \<open>
  The driver runs what is registered: the registry is sorted by name and has for every name the test
  registered last; without arguments each of its tests is run once, in that order, each prints one line
  with its verdict, and the exit code is 0 exactly when there is a test and all passed, 3 when there is
  none, and 1 otherwise.
\<close>

theorem driver_runs_all:
  assumes "length regs < size_modulus" "outcomes_of (auto_test_reg regs) (run_world s) = (os, w)"
  shows "registry_ok (auto_test_reg regs) \<and>
    map_of (auto_test_reg regs) name = find (\<lambda>t. test_name t = name) (rev regs) \<and>
    (case test_main (auto_test_reg regs) [program] s of (code, s') \<Rightarrow>
       code = (if regs = [] then 3 else if \<forall>p \<in> set os. snd p = Passed then 0 else 1) \<and> run_world s' = w \<and>
       (\<exists>width. run_out s' = run_out s @ concat (map (out_line width) os)))"
proof -
  let ?ts = "auto_test_reg regs :: (string \<times> 'a test_reg) list"
  have ok: "registry_ok ?ts" "map_of ?ts name = find (\<lambda>t. test_name t = name) (rev regs)"
    using registry_fold [of "[]" regs name] by (simp_all add: auto_test_reg_def registry_ok_def split: option.splits)
  have len: "length ?ts < size_modulus"
    using le_less_trans [OF length_fold_assign [of regs "[]"]] assms(1) by (simp add: auto_test_reg_def)
  have empty: "?ts = [] \<longleftrightarrow> regs = []"
    using fold_assign_nonempty [of regs "[]"] by (auto simp: auto_test_reg_def)
  have all: "passed os = length ?ts \<longleftrightarrow> (\<forall>p \<in> set os. snd p = Passed)"
    using length_outcomes [of ?ts "run_world s"] assms(2)
    by (simp add: passed_all [symmetric])
  let ?width = "fold (\<lambda>(k, t) w. max w (length (test_name t))) ?ts 0"
  have "case test_main ?ts [program] s of (code, s') \<Rightarrow>
       code = (if regs = [] then 3 else if \<forall>p \<in> set os. snd p = Passed then 0 else 1) \<and> run_world s' = w \<and>
       run_out s' = run_out s @ concat (map (out_line ?width) os)"
  proof (cases "regs = []")
    case True
    then show ?thesis
      using assms(2) by (simp add: auto_test_reg_def test_main_def cmd_run_all_tests_def)
  next
    case False
    then have "?ts \<noteq> []"
      using empty by simp
    let ?s' = "s\<lparr>run_out := run_out s @ concat (map (out_line ?width) os),
        run_err := run_err s @ concat (map (\<lambda>(name, outcome). failure_text name outcome) os), run_world := w\<rparr>"
    have turns: "fold (\<lambda>(k, t). run_turn ?width t) ?ts (0, s) = (passed os, ?s')"
      using run_turns [OF assms(2), of 0 ?width] len by simp
    have "test_main ?ts [program] s = (if passed os = length ?ts then 0 else 1, ?s')"
      unfolding test_main_def cmd_run_all_tests_def Let_def list.case turns prod.case using \<open>?ts \<noteq> []\<close> by (simp only: if_False)
    then show ?thesis
      using all False by (cases "\<forall>p \<in> set os. snd p = Passed") simp_all
  qed
  then show ?thesis
    using ok by (auto split: prod.splits)
qed

definition demo_tests :: "nat test_reg list" where
  "demo_tests = [\<lparr>test_name = ''b'', test_fn = (\<lambda>n. (Passed, n + 1))\<rparr>, \<lparr>test_name = ''a'', test_fn = (\<lambda>n. (Threw ''x'', 2 * n))\<rparr>]"

theorem driver_runs_all_witness:
  "fst (test_main (auto_test_reg demo_tests) [''tests''] \<lparr>run_out = [], run_err = [], run_world = 5\<rparr>) = 1"
proof -
  have "outcomes_of (auto_test_reg demo_tests) (run_world \<lparr>run_out = [], run_err = [], run_world = 5\<rparr>) =
      ([(''a'', Threw ''x''), (''b'', Passed)], 11)"
    by (simp add: demo_tests_def auto_test_reg_def)
  moreover have "length demo_tests < size_modulus"
    by (simp add: demo_tests_def size_modulus_def)
  ultimately show ?thesis
    using driver_runs_all [where regs = demo_tests and program = "''tests''" and name = "''a''"] by (fastforce simp: demo_tests_def split: prod.splits)
qed

end
