(* ===== verification/Loader.thy ===== *)
theory Loader
  imports Effects
begin

text \<open>
  \<^verbatim>\<open>virt/src/libvirt/libvirt.cpp\<close>, the loading of libvirt: \<^verbatim>\<open>SharedLibrary\<close> and its two instances, and the
  \<^verbatim>\<open>extern "C"\<close> functions, each of which calls the function of its name in one of the libraries with the
  arguments it was given. The libraries themselves (Boost.DLL opens them) are a parameter. The lemmas
  show that a library is opened successfully once at most, and that a call is the library's function, or
  throws without an effect when the library or the function is missing.
\<close>

section \<open>Libraries\<close>

text \<open>Arguments and results of C functions: pointers (0 is null), integers, strings, no result.\<close>

datatype c_value = C_pointer nat | C_int int | C_string string | C_void

type_synonym 'w c_function = "c_value list \<Rightarrow> 'w \<Rightarrow> c_value \<times> 'w"

type_synonym 'w symbols = "string \<Rightarrow> 'w c_function option"

datatype library = Libvirt_library | Libvirt_qemu_library

definition library_file :: "library \<Rightarrow> string" where
  "library_file lib = (case lib of Libvirt_library \<Rightarrow> ''libvirt.so.0'' | Libvirt_qemu_library \<Rightarrow> ''libvirt-qemu.so.0'')"

text \<open>
  \<open>open_file\<close> is \<^verbatim>\<open>boost::dll::shared_library\<close> on the search path of the system (\<open>None\<close>: it throws);
  \<open>instances\<close> are the static objects that have been made, \<open>opened\<close> counts the libraries opened.
\<close>

record 'w loader =
  open_file :: "string \<Rightarrow> 'w symbols option"
  instances :: "library \<Rightarrow> 'w symbols option"
  opened :: "library \<Rightarrow> nat"
  lib_world :: 'w

definition loader_new :: "(string \<Rightarrow> 'w symbols option) \<Rightarrow> 'w \<Rightarrow> 'w loader" where
  "loader_new files w = \<lparr>open_file = files, instances = (\<lambda>_. None), opened = (\<lambda>_. 0), lib_world = w\<rparr>"

text \<open>A static local object whose initialization throws is initialized again by the next call.\<close>

definition library_get :: "library \<Rightarrow> 'w loader \<Rightarrow> (fault + 'w symbols) \<times> 'w loader" where
  "library_get lib s =
     (case instances s lib of
        Some syms \<Rightarrow> (Inr syms, s)
      | None \<Rightarrow>
          (case open_file s (library_file lib) of
             None \<Rightarrow> (Inl (Throw (library_file lib)), s)
           | Some syms \<Rightarrow>
               (Inr syms, s\<lparr>instances := (instances s)(lib := Some syms), opened := (opened s)(lib := opened s lib + 1)\<rparr>)))"

definition invoke_symbol :: "'w symbols \<Rightarrow> string \<Rightarrow> c_value list \<Rightarrow> 'w loader \<Rightarrow> (fault + c_value) \<times> 'w loader" where
  "invoke_symbol syms name args s =
     (case syms name of
        None \<Rightarrow> (Inl (Throw name), s)
      | Some fn \<Rightarrow> (case fn args (lib_world s) of (r, w) \<Rightarrow> (Inr r, s\<lparr>lib_world := w\<rparr>)))"

section \<open>The forwarding functions\<close>

text \<open>The functions that are defined, with the library of each.\<close>

definition forwarded :: "(string \<times> library) list" where
  "forwarded =
     [(''virConnectClose'', Libvirt_library), (''virStoragePoolFree'', Libvirt_library), (''virStorageVolFree'', Libvirt_library),
      (''virStorageVolDelete'', Libvirt_library), (''virDomainFree'', Libvirt_library), (''virGetLastError'', Libvirt_library),
      (''virDomainSetLifecycleAction'', Libvirt_library), (''virDomainCreateXML'', Libvirt_library),
      (''virDomainResume'', Libvirt_library), (''virDomainDestroy'', Libvirt_library), (''virDomainLookupByName'', Libvirt_library),
      (''virDomainGetName'', Libvirt_library), (''virDomainQemuAgentCommand'', Libvirt_qemu_library),
      (''virStorageVolGetKey'', Libvirt_library), (''virStorageVolLookupByKey'', Libvirt_library),
      (''virStorageVolCreateXML'', Libvirt_library), (''virStoragePoolRefresh'', Libvirt_library),
      (''virStoragePoolLookupByName'', Libvirt_library), (''virEventAddTimeout'', Libvirt_library),
      (''virInitialize'', Libvirt_library), (''virEventRegisterDefaultImpl'', Libvirt_library),
      (''virEventRunDefaultImpl'', Libvirt_library), (''virEventRemoveTimeout'', Libvirt_library),
      (''virConnectOpen'', Libvirt_library), (''virConnectDomainEventRegisterAny'', Libvirt_library),
      (''virConnectDomainEventDeregisterAny'', Libvirt_library), (''virConnectRegisterCloseCallback'', Libvirt_library),
      (''virConnectUnregisterCloseCallback'', Libvirt_library), (''virConnectGetVersion'', Libvirt_library)]"

text \<open>A call of one of them; a name that is not defined does not link.\<close>

definition extern_call :: "string \<Rightarrow> c_value list \<Rightarrow> 'w loader \<Rightarrow> (fault + c_value) \<times> 'w loader" where
  "extern_call name args s =
     (case map_of forwarded name of
        None \<Rightarrow> (Inl Undefined, s)
      | Some lib \<Rightarrow>
          (case library_get lib s of
             (Inl flt, s1) \<Rightarrow> (Inl flt, s1)
           | (Inr syms, s1) \<Rightarrow> invoke_symbol syms name args s1))"

definition extern_calls :: "(string \<times> c_value list) list \<Rightarrow> 'w loader \<Rightarrow> 'w loader" where
  "extern_calls calls s = fold (\<lambda>(name, args) s. snd (extern_call name args s)) calls s"

section \<open>Lemmas\<close>

definition loader_ok :: "(string \<Rightarrow> 'w symbols option) \<Rightarrow> 'w loader \<Rightarrow> bool" where
  "loader_ok files s \<longleftrightarrow>
     open_file s = files \<and>
     (\<forall>lib. (instances s lib = None \<longrightarrow> opened s lib = 0) \<and>
        (\<forall>syms. instances s lib = Some syms \<longrightarrow> opened s lib = 1 \<and> files (library_file lib) = Some syms))"

lemma loader_ok_new: "loader_ok files (loader_new files w)"
  by (simp add: loader_ok_def loader_new_def)

lemma loader_ok_opened: "loader_ok files s \<Longrightarrow> opened s lib \<le> 1"
  by (cases "instances s lib") (simp_all add: loader_ok_def)

lemma library_get_cases:
  assumes "loader_ok files s"
  obtains (missing) "files (library_file lib) = None" "library_get lib s = (Inl (Throw (library_file lib)), s)"
  | (found) syms s1 where "files (library_file lib) = Some syms" "library_get lib s = (Inr syms, s1)" "loader_ok files s1"
      "lib_world s1 = lib_world s"
proof (cases "instances s lib")
  case None
  show ?thesis
  proof (cases "files (library_file lib)")
    case (Some syms)
    let ?s = "s\<lparr>instances := (instances s)(lib := Some syms), opened := (opened s)(lib := opened s lib + 1)\<rparr>"
    have "library_get lib s = (Inr syms, ?s)" "loader_ok files ?s"
      using assms None Some by (auto simp: library_get_def loader_ok_def)
    then show ?thesis
      using found [OF Some] by simp
  qed (use assms None missing in \<open>simp add: library_get_def loader_ok_def\<close>)
next
  case (Some syms)
  then show ?thesis
    using assms found [of syms s] by (simp add: library_get_def loader_ok_def)
qed

lemma loader_ok_world [simp]: "loader_ok files (s\<lparr>lib_world := w\<rparr>) = loader_ok files s"
  by (simp add: loader_ok_def)

text \<open>What a call does: the library's function on the outside, or an exception without an effect on it.\<close>

lemma extern_call_result:
  assumes "loader_ok files s" "map_of forwarded name = Some lib"
  shows "loader_ok files (snd (extern_call name args s)) \<and>
    (case files (library_file lib) of
       None \<Rightarrow> extern_call name args s = (Inl (Throw (library_file lib)), s)
     | Some syms \<Rightarrow>
         (case syms name of
            None \<Rightarrow> fst (extern_call name args s) = Inl (Throw name) \<and> lib_world (snd (extern_call name args s)) = lib_world s
          | Some fn \<Rightarrow> fst (extern_call name args s) = Inr (fst (fn args (lib_world s))) \<and>
              lib_world (snd (extern_call name args s)) = snd (fn args (lib_world s))))"
  using assms(1)
proof (cases rule: library_get_cases [where lib = lib])
  case missing
  then show ?thesis
    using assms by (simp add: extern_call_def)
next
  case (found syms s1)
  then show ?thesis
    using assms(2) by (auto simp: extern_call_def invoke_symbol_def split: option.splits prod.splits)
qed

lemma libraries_opened_once: "opened (extern_calls calls (loader_new files w)) lib \<le> 1"
proof -
  have call: "loader_ok files (snd (extern_call name args s))" if "loader_ok files s" for name args and s :: "'a loader"
  proof (cases "map_of forwarded name")
    case (Some lib)
    then show ?thesis
      using extern_call_result [OF that Some] by simp
  qed (use that in \<open>simp add: extern_call_def\<close>)
  have all: "loader_ok files (extern_calls calls s)" if "loader_ok files s" for s
    using that by (induction calls arbitrary: s) (auto simp: extern_calls_def call)
  show ?thesis
    by (rule loader_ok_opened) (rule all [OF loader_ok_new])
qed

end
