(* ===== verification/PoolExecutor.thy ===== *)
theory PoolExecutor
  imports ThreadPool
begin

text \<open>
  The executor that \<^verbatim>\<open>virt/src/machine_pool.cpp\<close> creates: no fixed worker, up to as many on-demand workers
  as the pool may have machines. The destructors stop the pool, and with it the executor, more than
  once. The lemmas follow two spawn tasks and a shutdown to a state in which the first stop
  has returned and the second throws.
\<close>

definition pool_workers :: "nat \<Rightarrow> (fault + (nat, 't) executor) option" where
  "pool_workers max_concurrency = impl 0 (Some 0) (Some max_concurrency) []"

text \<open>A state of such an executor.\<close>

definition pool_executor ::
  "nat \<Rightarrow> nat \<Rightarrow> 't list \<Rightarrow> nat list \<Rightarrow> nat list \<Rightarrow> (nat \<times> (nat, 't) point) list \<Rightarrow> nat pending_call multiset \<Rightarrow> 't list \<Rightarrow> 't list
    \<Rightarrow> (nat, 't) executor" where
  "pool_executor n busy queue ws dead points cs acc sta =
     \<lparr>m_min_thread_count = 0, m_max_thread_count = n, m_busy_count = busy, m_stop = False, m_cancel = False, m_queue = queue,
      m_workers = map (\<lambda>w. (w, \<lparr>worker_id = w, worker_thread = Some w\<rparr>)) ws,
      m_dead_workers = map (\<lambda>w. \<lparr>worker_id = w, worker_thread = Some w\<rparr>) dead,
      threads = map (\<lambda>(w, p). (w, \<lparr>is_ondemand = True, at = p\<rparr>)) points, calls = cs, accepted = acc, started = sta\<rparr>"

lemma pool_workers_value: "pool_workers n = Some (Inr (pool_executor n 0 [] [] [] [] {#} [] []))"
  by (simp add: pool_workers_def impl_def pool_executor_def)

text \<open>
  Two tasks have been queued and each has got a worker; the first worker has run both tasks and ended,
  the second has found nothing to do and sleeps. Then the same executor after \<^verbatim>\<open>stop\<close> has returned.
\<close>

definition one_asleep :: "nat \<Rightarrow> 't \<Rightarrow> 't \<Rightarrow> (nat, 't) executor" where
  "one_asleep n a b = pool_executor n 0 [] [2] [1] [(1, Exited), (2, Waiting)] {#} [a, b] [a, b]"

definition stopped_once :: "nat \<Rightarrow> 't \<Rightarrow> 't \<Rightarrow> (nat, 't) executor" where
  "stopped_once n a b = (pool_executor n 0 [] [2] [1] [(1, Exited), (2, Exited)] {#} [a, b] [a, b])\<lparr>m_stop := True,
     m_workers := [(2, \<lparr>worker_id = 2, worker_thread = None\<rparr>)]\<rparr>"

lemmas operations = put_def add_worker_def loop_top_def wait_or_take_def go_def notify_one_def task_done_def point_of_def
  pool_executor_def small_size Let_def

lemma tasks_run:
  assumes "2 \<le> n"
  shows "executor_step\<^sup>*\<^sup>* (pool_executor n 0 [] [] [] [] {#} [] []) (one_asleep n a b)"
proof -
  let ?e0 = "pool_executor n 0 [] [] [] [] {#} [] []"
  let ?e1 = "pool_executor n 0 [a] [1] [] [(1, Top)] {#Notify_one#} [a] []"
  let ?e2 = "pool_executor n 1 [] [1] [] [(1, Running a)] {#Notify_one#} [a] [a]"
  let ?e3 = "pool_executor n 1 [b] [1, 2] [] [(1, Running a), (2, Top)] {#Notify_one, Notify_one#} [a, b] [a]"
  let ?e4 = "pool_executor n 1 [b] [1, 2] [] [(1, Running a), (2, Top)] {#Notify_one#} [a, b] [a]"
  let ?e5 = "pool_executor n 1 [b] [1, 2] [] [(1, Running a), (2, Top)] {#} [a, b] [a]"
  let ?e6 = "pool_executor n 0 [b] [1, 2] [] [(1, Top), (2, Top)] {#} [a, b] [a]"
  let ?e7 = "pool_executor n 1 [] [1, 2] [] [(1, Running b), (2, Top)] {#} [a, b] [a, b]"
  let ?e8 = "pool_executor n 1 [] [1, 2] [] [(1, Running b), (2, Waiting)] {#} [a, b] [a, b]"
  have 1: "executor_step ?e0 ?e1"
    by (rule executor_step.put [of 1 _ a]) (use assms in \<open>simp_all add: operations\<close>)
  have 2: "executor_step ?e1 ?e2"
    using executor_step.loop_top [of ?e1 1] by (simp add: operations)
  have 3: "executor_step ?e2 ?e3"
    by (rule executor_step.put [of 2 _ b]) (use assms in \<open>simp_all add: operations\<close>)
  have 4: "executor_step ?e3 ?e4"
    using executor_step.notify_none [of ?e3] by (simp add: operations)
  have 5: "executor_step ?e4 ?e5"
    using executor_step.notify_none [of ?e4] by (simp add: operations)
  have 6: "executor_step ?e5 ?e6"
    by (rule executor_step.task_done [of _ 1 "\<lparr>is_ondemand = True, at = Running a\<rparr>" a]) (simp_all add: operations)
  have 7: "executor_step ?e6 ?e7"
    using executor_step.loop_top [of ?e6 1] by (simp add: operations)
  have 8: "executor_step ?e7 ?e8"
    using executor_step.loop_top [of ?e7 2] by (simp add: operations)
  have 9: "executor_step ?e8 (one_asleep n a b)"
    unfolding one_asleep_def
    by (rule executor_step.task_done [of _ 1 "\<lparr>is_ondemand = True, at = Running b\<rparr>" b]) (simp_all add: operations)
  note step = rtranclp.rtrancl_into_rtrancl
  show ?thesis
    by (rule step [OF step [OF step [OF step [OF step [OF step [OF step [OF step [OF r_into_rtranclp [of executor_step, OF 1]
      2] 3] 4] 5] 6] 7] 8] 9])
qed

lemma first_stop: "executor_step\<^sup>*\<^sup>* (one_asleep n a b) (stopped_once n a b)"
proof -
  define s1 where "s1 = stop (one_asleep n a b)"
  define s2 where "s2 = notify_all [Some 2] s1"
  define s3 where "s3 = wait_or_take 2 s2"
  define s4 where "s4 = s3\<lparr>calls := {#Join []#}\<rparr>"
  note defs = s1_def s2_def s3_def s4_def one_asleep_def stop_def notify_all_def wake_def join_next_def jthread_join_def operations
  have 1: "executor_step (one_asleep n a b) s1"
    unfolding s1_def by (rule executor_step.stop)
  have 2: "executor_step s1 s2"
    unfolding s2_def by (rule executor_step.notify_all) (simp add: defs)
  have 3: "executor_step s2 s3"
    unfolding s3_def by (rule executor_step.woken) (simp add: defs)
  have 4: "executor_step s3 s4"
    by (rule executor_step.join_next [of "Some 2" "[]"]) (simp_all add: defs)
  have 5: "executor_step s4 (call_return s4)"
    by (rule executor_step.call_return) (simp add: s4_def)
  have "call_return s4 = stopped_once n a b"
    by (simp add: defs call_return_def stopped_once_def)
  note step = rtranclp.rtrancl_into_rtrancl
  show ?thesis
    using step [OF step [OF step [OF step [OF r_into_rtranclp [of executor_step, OF 1] 2] 3] 4] 5]
    unfolding \<open>call_return s4 = stopped_once n a b\<close> .
qed

section \<open>Property\<close>

text \<open>
  C20. Stopping the executor of a machine pool twice can throw: for every limit of two or more machines
  there is a run in which two spawn tasks end and the first \<^verbatim>\<open>stop\<close> returns with every thread
  ended, and then the second \<^verbatim>\<open>stop\<close> joins an empty handle, which throws out of a destructor.
\<close>

theorem pool_shutdown_can_throw:
  fixes e :: "(nat, 't) executor"
  assumes "2 \<le> n" "pool_workers n = Some (Inr e)"
  shows "\<exists>s. executor_step\<^sup>*\<^sup>* e s \<and> m_stop s \<and> calls s = {#} \<and> num is_live s = 0 \<and> started s = accepted s \<and>
    calls (stop s) = {#Notify_all [None]#} \<and> executor_step (stop s) (notify_all [None] (stop s)) \<and>
    Join [None] \<in># calls (notify_all [None] (stop s)) \<and>
    join_next None [] (notify_all [None] (stop s)) = Some (Inl (Throw ''Invalid argument''))"
proof -
  let ?s = "stopped_once n undefined undefined :: (nat, 't) executor"
  have "e = pool_executor n 0 [] [] [] [] {#} [] []"
    using assms(2) by (simp add: pool_workers_value)
  then have "executor_step\<^sup>*\<^sup>* e ?s"
    using rtranclp_trans [OF tasks_run [OF assms(1)] first_stop] by simp
  moreover have calls: "calls (stop ?s) = {#Notify_all [None]#}"
    by (simp add: stop_def stopped_once_def pool_executor_def)
  moreover have "executor_step (stop ?s) (notify_all [None] (stop ?s))"
    by (rule executor_step.notify_all) (simp add: calls)
  moreover have "m_stop ?s" "calls ?s = {#}" "num is_live ?s = 0" "started ?s = accepted ?s"
    by (simp_all add: stopped_once_def pool_executor_def num_def tally_def is_live_def)
  ultimately show ?thesis
    by (intro exI [of _ ?s]) (simp add: notify_all_def join_next_def jthread_join_def)
qed

theorem pool_shutdown_can_throw_witness:
  "\<exists>e s. pool_workers 2 = Some (Inr (e :: (nat, nat) executor)) \<and> executor_step\<^sup>*\<^sup>* e s \<and> calls (stop s) = {#Notify_all [None]#}"
proof -
  obtain e :: "(nat, nat) executor" where e: "pool_workers 2 = Some (Inr e)"
    by (simp add: pool_workers_value)
  then show ?thesis
    using pool_shutdown_can_throw [OF order_refl e] by blast
qed

end
