(* ===== verification/Environment.thy ===== *)
theory Environment
  imports Config
begin

text \<open>
  \<^verbatim>\<open>utility/src/env.cpp\<close>: \<^verbatim>\<open>setenv\<close> and \<^verbatim>\<open>unsetenv\<close> on the environment that \<^verbatim>\<open>getenv\<close> of \<open>Config\<close>
  reads. The POSIX functions are given C strings, which end at the first null character, and
  leave the environment as it is when the name is empty or has an equals sign; their result is
  ignored. A mutex makes each of the three one step.
\<close>

definition c_str :: "string \<Rightarrow> string" where
  "c_str s = takeWhile (\<lambda>c. c \<noteq> CHR 0x00) s"

definition valid_variable :: "string \<Rightarrow> bool" where
  "valid_variable name \<longleftrightarrow> name \<noteq> [] \<and> CHR ''='' \<notin> set name"

definition setenv :: "string \<Rightarrow> string \<Rightarrow> host \<Rightarrow> host" where
  "setenv name val h =
     (if valid_variable (c_str name) then h\<lparr>environment := (environment h)(c_str name \<mapsto> c_str val)\<rparr> else h)"

definition unsetenv :: "string \<Rightarrow> host \<Rightarrow> host" where
  "unsetenv name h =
     (if valid_variable (c_str name) then h\<lparr>environment := (environment h)(c_str name := None)\<rparr> else h)"

lemma c_str_id: "CHR 0x00 \<notin> set s \<Longrightarrow> c_str s = s"
  by (simp add: c_str_def takeWhile_eq_all_conv) blast

text \<open>
  A variable that is set is read back, the others are unchanged, and setting a variable whose name is
  not valid has no effect and is not reported.
\<close>

lemma environment_laws:
  assumes "CHR 0x00 \<notin> set name" "CHR 0x00 \<notin> set val" "CHR 0x00 \<notin> set other"
  shows "valid_variable name \<Longrightarrow> getenv (setenv name val h) other = (if other = name then Some val else getenv h other)"
    and "valid_variable name \<Longrightarrow> getenv (unsetenv name h) other = (if other = name then None else getenv h other)"
    and "\<not> valid_variable name \<Longrightarrow> setenv name val h = h"
  using assms by (simp_all add: setenv_def unsetenv_def getenv_def c_str_id)

end
