(* ===== verification/StringStream.thy ===== *)
theory StringStream
  imports Streams
begin

text \<open>
  \<^verbatim>\<open>StringStreambuf\<close>, \<^verbatim>\<open>StringIstreamData\<close>, \<^verbatim>\<open>string_istream\<close> and \<^verbatim>\<open>make_istream\<close> of
  \<^verbatim>\<open>modules/utility/include/utility/io/stream.hpp\<close> with the storage their pointers point into. In
  \<open>Streams\<close> a \<^verbatim>\<open>string_istream\<close> is its bytes; here the bytes lie in an object, on the heap or with the
  caller, and the lemmas show when the two agree: as long as the storage lives. A move keeps the
  pointers, so the moved stream of a string that is stored in its object reads freed storage.
\<close>

section \<open>Storage\<close>

text \<open>
  An implementation of \<^verbatim>\<open>std::string\<close> keeps a string of up to \<open>sso\<close> characters in the string object
  (none when \<open>sso\<close> is 0) and a longer one on the heap. Objects are numbered; \<open>left\<close> is what a move
  leaves in the object of a short string.
\<close>

datatype storage = In_object nat | is_heap: On_heap nat | With_caller nat

type_synonym memory = "storage \<rightharpoonup> byte list"

record string_impl =
  sso :: nat
  left :: "byte list \<Rightarrow> byte list"

definition string_new :: "string_impl \<Rightarrow> nat \<Rightarrow> nat \<Rightarrow> byte list \<Rightarrow> memory \<Rightarrow> storage \<times> memory" where
  "string_new I obj block bs mem =
     (let place = (if length bs \<le> sso I then In_object obj else On_heap block) in (place, mem(place \<mapsto> bs)))"

text \<open>
  The move constructor of a string into the object \<open>dst\<close>: the place of the new string, and the memory
  with the string in the object \<open>src\<close> that is left behind.
\<close>

definition string_move :: "string_impl \<Rightarrow> nat \<Rightarrow> nat \<Rightarrow> storage \<Rightarrow> memory \<Rightarrow> storage \<times> memory" where
  "string_move I dst src place mem =
     (case (place, mem place) of
        (In_object a, Some bs) \<Rightarrow> (In_object dst, mem(In_object dst \<mapsto> bs, In_object a \<mapsto> left I bs))
      | _ \<Rightarrow> (place, mem(In_object src \<mapsto> [])))"

section \<open>The buffer and the stream\<close>

text \<open>The pointers of \<^verbatim>\<open>setg\<close> as offsets into the storage.\<close>

record string_streambuf =
  points_to :: storage
  gptr :: nat
  egptr :: nat

definition string_streambuf_on :: "storage \<Rightarrow> nat \<Rightarrow> string_streambuf" where
  "string_streambuf_on data len = \<lparr>points_to = data, gptr = 0, egptr = len\<rparr>"

definition string_streambuf_move :: "string_streambuf \<Rightarrow> string_streambuf" where
  "string_streambuf_move other = \<lparr>points_to = points_to other, gptr = gptr other, egptr = egptr other\<rparr>"

record string_istream =
  object :: nat
  m_owned_data :: storage
  m_buf :: string_streambuf
  eof_bit :: bool
  fail_bit :: bool

definition stored_size :: "storage \<Rightarrow> memory \<Rightarrow> nat" where
  "stored_size place mem = (case mem place of Some bs \<Rightarrow> length bs | None \<Rightarrow> 0)"

text \<open>On data of the caller, whose string is not owned.\<close>

definition string_istream_view :: "nat \<Rightarrow> storage \<Rightarrow> nat \<Rightarrow> memory \<Rightarrow> string_istream \<times> memory" where
  "string_istream_view obj data len mem =
     (\<lparr>object = obj, m_owned_data = In_object obj, m_buf = string_streambuf_on data len, eof_bit = False, fail_bit = False\<rparr>,
      mem(In_object obj \<mapsto> []))"

text \<open>On a string that is moved into the stream from the object \<open>src\<close>.\<close>

definition string_istream_owned :: "string_impl \<Rightarrow> nat \<Rightarrow> nat \<Rightarrow> storage \<Rightarrow> memory \<Rightarrow> string_istream \<times> memory" where
  "string_istream_owned I obj src place mem =
     (case string_move I obj src place mem of (owned, mem1) \<Rightarrow>
        (\<lparr>object = obj, m_owned_data = owned, m_buf = string_streambuf_on owned (stored_size owned mem1),
          eof_bit = False, fail_bit = False\<rparr>, mem1))"

text \<open>
  The move constructor: the string is moved, the buffer keeps its pointers, and the base class is a
  new \<^verbatim>\<open>std::istream\<close>.
\<close>

definition string_istream_move :: "string_impl \<Rightarrow> nat \<Rightarrow> string_istream \<Rightarrow> memory \<Rightarrow> string_istream \<times> string_istream \<times> memory" where
  "string_istream_move I obj other mem =
     (case string_move I obj (object other) (m_owned_data other) mem of (owned, mem1) \<Rightarrow>
        (\<lparr>object = obj, m_owned_data = owned, m_buf = string_streambuf_move (m_buf other), eof_bit = False, fail_bit = False\<rparr>,
         other\<lparr>m_owned_data := In_object (object other)\<rparr>, mem1))"

definition string_istream_destroy :: "string_istream \<Rightarrow> memory \<Rightarrow> memory" where
  "string_istream_destroy s mem = mem(m_owned_data s := None)"

text \<open>\<^verbatim>\<open>read\<close> of a stream: the storage is looked at when there is a character to copy.\<close>

definition string_istream_read :: "nat \<Rightarrow> string_istream \<Rightarrow> memory \<Rightarrow> fault + byte list \<times> string_istream" where
  "string_istream_read n s mem =
     (if eof_bit s \<or> fail_bit s then Inr ([], s\<lparr>fail_bit := True\<rparr>)
      else let b = m_buf s; k = min n (egptr b - gptr b)
           in if k = 0 then Inr ([], s\<lparr>eof_bit := 0 < n, fail_bit := 0 < n\<rparr>)
              else case mem (points_to b) of
                     None \<Rightarrow> Inl Undefined
                   | Some bs \<Rightarrow>
                       if length bs < gptr b + k then Inl Undefined
                       else Inr (take k (drop (gptr b) bs),
                                 s\<lparr>m_buf := b\<lparr>gptr := gptr b + k\<rparr>, eof_bit := k < n, fail_bit := k < n\<rparr>))"

section \<open>The stream as a sequence of bytes\<close>

definition stream_valid :: "memory \<Rightarrow> byte list \<Rightarrow> string_istream \<Rightarrow> bool" where
  "stream_valid mem bs s \<longleftrightarrow>
     mem (points_to (m_buf s)) = Some bs \<and> egptr (m_buf s) = length bs \<and> gptr (m_buf s) \<le> length bs"

definition stream_bytes :: "byte list \<Rightarrow> string_istream \<Rightarrow> istream" where
  "stream_bytes bs s =
     (make_istream bs)\<lparr>buf_pos := gptr (m_buf s), eofbit := eof_bit s, failbit := fail_bit s\<rparr>"

text \<open>While the storage lives a read is the read of \<open>Streams\<close>.\<close>

lemma read_refines:
  assumes "stream_valid mem bs s"
  shows "\<exists>s'. string_istream_read n s mem = Inr (fst (istream_read n (stream_bytes bs s)), s') \<and> stream_valid mem bs s' \<and>
    stream_bytes bs s' = (snd (istream_read n (stream_bytes bs s)))\<lparr>gcount := 0\<rparr>"
  using assms
  by (auto simp: string_istream_read_def stream_valid_def stream_bytes_def istream_read_def make_istream_def istream_on_def
      stream_good_def sentry_def available_def Let_def min_def)

lemma owned_stream_valid:
  assumes "string_new I src block bs mem = (place, mem1)" "string_istream_owned I obj src place mem1 = (s, mem2)" "obj \<noteq> src"
  shows "stream_valid mem2 bs s \<and> stream_bytes bs s = make_istream bs \<and> object s = obj \<and>
    points_to (m_buf s) = m_owned_data s \<and> m_owned_data s = (if length bs \<le> sso I then In_object obj else On_heap block)"
  using assms
  by (auto simp: string_new_def string_istream_owned_def string_move_def stream_valid_def stream_bytes_def stored_size_def
      string_streambuf_on_def make_istream_def istream_on_def Let_def split: if_splits)

lemma viewed_stream_valid:
  assumes "mem data = Some bs" "data \<noteq> In_object obj" "string_istream_view obj data (length bs) mem = (s, mem1)"
  shows "stream_valid mem1 bs s \<and> stream_bytes bs s = make_istream bs"
  using assms
  by (auto simp: string_istream_view_def stream_valid_def stream_bytes_def string_streambuf_on_def make_istream_def istream_on_def)

section \<open>Moving a stream\<close>

text \<open>A stream that owns its string: the buffer points into it.\<close>

definition owns_bytes :: "string_impl \<Rightarrow> memory \<Rightarrow> byte list \<Rightarrow> string_istream \<Rightarrow> bool" where
  "owns_bytes I mem bs s \<longleftrightarrow> stream_valid mem bs s \<and> points_to (m_buf s) = m_owned_data s \<and>
     (if length bs \<le> sso I then m_owned_data s = In_object (object s) else is_heap (m_owned_data s))"

lemma owned_stream_owns:
  assumes "string_new I src block bs mem = (place, mem1)" "string_istream_owned I obj src place mem1 = (s, mem2)" "obj \<noteq> src"
  shows "owns_bytes I mem2 bs s"
  using owned_stream_valid [OF assms] by (auto simp: owns_bytes_def)

lemma read_owns:
  assumes "owns_bytes I mem bs s" "string_istream_read n s mem = Inr (out, s')"
  shows "owns_bytes I mem bs s'"
proof -
  have "stream_valid mem bs s'"
    using read_refines [of mem bs s n] assms by (auto simp: owns_bytes_def)
  then show ?thesis
    using assms by (auto simp: owns_bytes_def string_istream_read_def Let_def split: if_splits option.splits)
qed

text \<open>
  A stream with its string on the heap survives the move and the end of the old stream: it goes on at
  the position of the old one, with its state cleared. One with its string in the object reads freed
  storage, unless it has no characters left.
\<close>

theorem moved_string_stream:
  assumes "owns_bytes I mem bs s" "string_istream_move I obj s mem = (s1, old, mem1)" "obj \<noteq> object s"
  shows "if length bs \<le> sso I
         then gptr (m_buf s) < length bs \<and> 0 < n \<longrightarrow> string_istream_read n s1 (string_istream_destroy old mem1) = Inl Undefined
         else owns_bytes I (string_istream_destroy old mem1) bs s1 \<and>
           stream_bytes bs s1 = (stream_bytes bs s)\<lparr>eofbit := False, failbit := False\<rparr>"
proof (cases "length bs \<le> sso I")
  case True
  then have at: "m_owned_data s = In_object (object s)" "points_to (m_buf s) = In_object (object s)"
    "mem (In_object (object s)) = Some bs" "egptr (m_buf s) = length bs"
    using assms(1) by (auto simp: owns_bytes_def stream_valid_def)
  then have "points_to (m_buf s1) = In_object (object s)" "gptr (m_buf s1) = gptr (m_buf s)" "egptr (m_buf s1) = length bs"
    "\<not> eof_bit s1" "\<not> fail_bit s1" "string_istream_destroy old mem1 (In_object (object s)) = None"
    using assms(2) by (auto simp: string_istream_move_def string_move_def string_streambuf_move_def string_istream_destroy_def)
  then show ?thesis
    using True by (auto simp: string_istream_read_def Let_def min_def)
next
  case False
  then obtain block where at: "m_owned_data s = On_heap block" "points_to (m_buf s) = On_heap block"
    "mem (On_heap block) = Some bs" "egptr (m_buf s) = length bs" "gptr (m_buf s) \<le> length bs"
    using assms(1) by (cases "m_owned_data s") (auto simp: owns_bytes_def stream_valid_def)
  then show ?thesis
    using False assms(2)
    by (auto simp: string_istream_move_def string_move_def string_streambuf_move_def string_istream_destroy_def owns_bytes_def
        stream_valid_def stream_bytes_def make_istream_def istream_on_def)
qed

definition small_strings :: string_impl where
  "small_strings = \<lparr>sso = 15, left = (\<lambda>bs. [])\<rparr>"

definition stream_of :: "byte list \<Rightarrow> string_istream \<times> memory" where
  "stream_of bs =
     (case string_new small_strings 0 0 bs (\<lambda>_. None) of (place, mem) \<Rightarrow> string_istream_owned small_strings 1 0 place mem)"

theorem moved_string_stream_witness:
  "case stream_of [104, 105] of (s, mem) \<Rightarrow>
     (case string_istream_move small_strings 2 s mem of (s1, old, mem1) \<Rightarrow>
        string_istream_read 1 s1 (string_istream_destroy old mem1) = Inl Undefined)"
proof -
  obtain s mem where s: "stream_of [104, 105] = (s, mem)"
    by (cases "stream_of [104, 105]")
  obtain s1 old mem1 where m: "string_istream_move small_strings 2 s mem = (s1, old, mem1)"
    by (cases "string_istream_move small_strings 2 s mem")
  obtain place mem0 where n: "string_new small_strings 0 0 [104, 105] (\<lambda>_. None) = (place, mem0)"
    by (cases "string_new small_strings 0 0 [104, 105] (\<lambda>_. None)")
  have o: "string_istream_owned small_strings 1 0 place mem0 = (s, mem)"
    using s n by (simp add: stream_of_def)
  note v = owned_stream_valid [OF n o]
  have "object s = 1" "gptr (m_buf s) = 0"
    using v by (simp_all add: stream_bytes_def make_istream_def istream_on_def)
  then show ?thesis
    using moved_string_stream [OF owned_stream_owns [OF n o] m, of 1] s m by (simp add: small_strings_def)
qed

end
