(* ===== verification/Calendar.thy ===== *)
theory Calendar
  imports Logging
begin

text \<open>
  \<^verbatim>\<open>utc_date\<close> and \<^verbatim>\<open>utc_to_local_date\<close> of \<^verbatim>\<open>modules/utility/src/datetime.cpp\<close> on the Gregorian calendar
  of \<^verbatim>\<open>gmtime_r\<close> and \<^verbatim>\<open>timegm\<close>, and the date of a log entry, which \<^verbatim>\<open>Logger::append_date\<close> makes with
  them. A time is the number of seconds since 1970; the time zone is its offset from UTC at every time.
  The lemmas show that the two conversions are inverse to each other, what date an entry carries, and from
  which time on nothing is logged any more.
\<close>

section \<open>The calendar\<close>

definition is_leap :: "int \<Rightarrow> bool" where
  "is_leap y \<longleftrightarrow> y mod 4 = 0 \<and> (y mod 100 \<noteq> 0 \<or> y mod 400 = 0)"

definition year_length :: "int \<Rightarrow> int" where
  "year_length y = (if is_leap y then 366 else 365)"

text \<open>Days from the first of January of the year 1.\<close>

definition days_before_year :: "int \<Rightarrow> int" where
  "days_before_year y = 365 * (y - 1) + (y - 1) div 4 - (y - 1) div 100 + (y - 1) div 400"

definition month_lengths :: "bool \<Rightarrow> int list" where
  "month_lengths leap = [31, if leap then 29 else 28, 31, 30, 31, 30, 31, 31, 30, 31, 30, 31]"

definition days_before_month :: "bool \<Rightarrow> int \<Rightarrow> int" where
  "days_before_month leap m = sum_list (take (nat m) (month_lengths leap))"

definition epoch_day :: int where
  "epoch_day = 719162"

text \<open>The year of a day and the day of the year, from the cycles of 400, 100, 4 years and one.\<close>

definition year_of_day :: "int \<Rightarrow> int \<times> int" where
  "year_of_day n =
     (let n400 = n div 146097; r400 = n mod 146097;
          n100 = min 3 (r400 div 36524); r100 = r400 - 36524 * n100;
          n4 = r100 div 1461; r4 = r100 mod 1461;
          n1 = min 3 (r4 div 365)
      in (400 * n400 + 100 * n100 + 4 * n4 + n1 + 1, r4 - 365 * n1))"

fun month_of_day :: "int list \<Rightarrow> int \<Rightarrow> int \<times> int" where
  "month_of_day [] d = (0, d)"
| "month_of_day (l # ls) d = (if d < l then (0, d) else case month_of_day ls (d - l) of (m, r) \<Rightarrow> (m + 1, r))"

text \<open>\<^verbatim>\<open>gmtime_r\<close> fails when the year does not fit into an \<^verbatim>\<open>int\<close>; \<^verbatim>\<open>timegm\<close> accepts any month.\<close>

definition tm_of_seconds :: "int \<Rightarrow> tm" where
  "tm_of_seconds t =
     (case year_of_day (t div 86400 + epoch_day) of (y, yday) \<Rightarrow>
      case month_of_day (month_lengths (is_leap y)) yday of (m, d) \<Rightarrow>
        \<lparr>tm_year = y - 1900, tm_mon = m, tm_mday = d + 1,
         tm_hour = t mod 86400 div 3600, tm_min = t mod 3600 div 60, tm_sec = t mod 60\<rparr>)"

definition gmtime :: "int \<Rightarrow> tm option" where
  "gmtime t = (if in_type int_t (tm_year (tm_of_seconds t)) then Some (tm_of_seconds t) else None)"

definition timegm :: "tm \<Rightarrow> int" where
  "timegm t =
     (let y = 1900 + tm_year t + tm_mon t div 12;
          days = days_before_year y + days_before_month (is_leap y) (tm_mon t mod 12) + tm_mday t - 1 - epoch_day
      in days * 86400 + tm_hour t * 3600 + tm_min t * 60 + tm_sec t)"

text \<open>A valid date of the calendar.\<close>

definition calendar_date :: "tm \<Rightarrow> bool" where
  "calendar_date t \<longleftrightarrow> 0 \<le> tm_mon t \<and> tm_mon t < 12 \<and> 1 \<le> tm_mday t \<and>
     tm_mday t \<le> month_lengths (is_leap (1900 + tm_year t)) ! nat (tm_mon t) \<and>
     0 \<le> tm_hour t \<and> tm_hour t < 24 \<and> 0 \<le> tm_min t \<and> tm_min t < 60 \<and> 0 \<le> tm_sec t \<and> tm_sec t < 60"

section \<open>The functions of the code\<close>

text \<open>When the conversion fails the result is the date it was initialised with.\<close>

definition zero_tm :: tm where
  "zero_tm = \<lparr>tm_year = 0, tm_mon = 0, tm_mday = 0, tm_hour = 0, tm_min = 0, tm_sec = 0\<rparr>"

definition utc_date :: "int \<Rightarrow> tm" where
  "utc_date now = (case gmtime now of Some result \<Rightarrow> result | None \<Rightarrow> zero_tm)"

definition utc_to_local_date :: "(int \<Rightarrow> int) \<Rightarrow> tm \<Rightarrow> tm" where
  "utc_to_local_date offset from =
     (let t = timegm from in case gmtime (t + offset t) of Some result \<Rightarrow> result | None \<Rightarrow> zero_tm)"

definition log_date :: "(int \<Rightarrow> int) \<Rightarrow> int \<Rightarrow> fault + string" where
  "log_date offset now = format_date_for_display (utc_to_local_date offset (utc_date now))"

section \<open>Years\<close>

lemma div_step:
  fixes y k :: int
  assumes "0 < k"
  shows "y div k = (y - 1) div k + (if y mod k = 0 then 1 else 0)"
proof -
  let ?q = "(y - 1) div k" and ?r = "(y - 1) mod k"
  have y: "y = k * ?q + (?r + 1)"
    using mult_div_mod_eq [of k "y - 1"] by simp
  have r: "0 \<le> ?r" "?r < k"
    using assms by simp_all
  show ?thesis
  proof (cases "?r + 1 = k")
    case True
    then have "y = k * (?q + 1) + 0"
      using y by (simp add: distrib_left)
    then have "y div k = ?q + 1" "y mod k = 0"
      using assms int_div_pos_eq [of y k "?q + 1" 0] int_mod_pos_eq [of y k "?q + 1" 0] by simp_all
    then show ?thesis
      by simp
  next
    case False
    then have "y div k = ?q" "y mod k = ?r + 1"
      using r int_div_pos_eq [OF y] int_mod_pos_eq [OF y] by simp_all
    then show ?thesis
      using r by simp
  qed
qed

lemma leap_day:
  "(q \<Longrightarrow> p) \<Longrightarrow> (r \<Longrightarrow> q) \<Longrightarrow>
    (if p \<and> (\<not> q \<or> r) then 366 else 365 :: int) = 365 + (if p then 1 else 0) - (if q then 1 else 0) + (if r then 1 else 0)"
  by (cases p; cases q; cases r) simp_all

lemma year_sum:
  fixes y :: int
  assumes "l = 365 + i4 - i100 + i400" "a4 = b4 + i4" "a100 = b100 + i100" "a400 = b400 + i400"
  shows "365 * y + a4 - a100 + a400 = 365 * (y - 1) + b4 - b100 + b400 + l"
  using assms by simp

lemma days_before_next_year: "days_before_year (y + 1) = days_before_year y + year_length y"
proof -
  have "y mod 100 = 0 \<Longrightarrow> y mod 4 = 0" "y mod 400 = 0 \<Longrightarrow> y mod 100 = 0"
    using mod_mod_cancel [of 4 100 y] mod_mod_cancel [of 100 400 y] by simp_all
  then have "year_length y = 365 + (if y mod 4 = 0 then 1 else 0) - (if y mod 100 = 0 then 1 else 0) + (if y mod 400 = 0 then 1 else 0)"
    unfolding year_length_def is_leap_def by (rule leap_day)
  then show ?thesis
    unfolding days_before_year_def add_diff_cancel_right' by (rule year_sum; intro div_step) simp_all
qed

lemma days_before_year_mono: "y \<le> z \<Longrightarrow> days_before_year y \<le> days_before_year z"
proof (induction z rule: int_ge_induct)
  case (step z)
  then show ?case
    by (simp add: days_before_next_year year_length_def)
qed simp

text \<open>The year of a day is determined by the days before it and its length.\<close>

lemma year_unique:
  assumes "days_before_year y + d = days_before_year z + e" "0 \<le> d" "d < year_length y" "0 \<le> e" "e < year_length z"
  shows "y = z \<and> d = e"
proof -
  have False if "a < b" "days_before_year a + f = days_before_year b + g" "f < year_length a" "0 \<le> g" for a b f g
    using days_before_year_mono [of "a + 1" b] that by (simp add: days_before_next_year)
  from this [of y z d e] this [of z y e d] show ?thesis
    using assms by (cases y z rule: linorder_cases) auto
qed

lemma year_of_day:
  assumes "year_of_day n = (y, d)"
  shows "days_before_year y + d = n \<and> 0 \<le> d \<and> d < year_length y"
proof -
  define a where "a = n div 146097"
  define r where "r = n mod 146097"
  define b where "b = min 3 (r div 36524)"
  define s where "s = r - 36524 * b"
  define c where "c = s div 1461"
  define u where "u = s mod 1461"
  define e where "e = min 3 (u div 365)"
  have n: "n = 146097 * a + r" "0 \<le> r" "r < 146097"
    by (simp_all add: a_def r_def)
  have b: "0 \<le> b" "b \<le> 3" "0 \<le> s" "s < 36525" "b < 3 \<Longrightarrow> s < 36524"
    using n unfolding b_def s_def by (auto simp: min_def)
  have c: "s = 1461 * c + u" "0 \<le> u" "u < 1461" "0 \<le> c"
    using b by (simp_all add: c_def u_def)
  have "c \<le> 24"
    using b(4) unfolding c_def by simp
  have e: "0 \<le> e" "e \<le> 3" "0 \<le> u - 365 * e" "u - 365 * e < 366" "e < 3 \<Longrightarrow> u - 365 * e < 365"
    using c unfolding e_def by (auto simp: min_def)
  have yd: "y - 1 = 400 * a + 100 * b + 4 * c + e" "d = u - 365 * e"
    using assms [unfolded year_of_day_def Let_def, folded a_def r_def, folded b_def, folded s_def, folded c_def u_def, folded e_def]
    by simp_all
  have "(y - 1) div 4 = 100 * a + 25 * b + c" "(y - 1) div 100 = 4 * a + b" "(y - 1) div 400 = a"
    using yd(1) b(1,2) c(4) \<open>c \<le> 24\<close> e(1,2) by (auto intro!: int_div_pos_eq [where r = e]
        int_div_pos_eq [where r = "4 * c + e"] int_div_pos_eq [where r = "100 * b + 4 * c + e"])
  then have "days_before_year y + d = n"
    using yd n(1) c(1) s_def by (simp add: days_before_year_def)
  moreover have "is_leap y" if "d = 365"
  proof -
    have "e = 3"
      using e(2,5) that yd(2) by (cases "e < 3") simp_all
    then have "u = 1460"
      using that yd(2) by simp
    have "b = 3 \<or> c < 24"
      using b \<open>u = 1460\<close> c \<open>c \<le> 24\<close> by (cases "b < 3") auto
    moreover have "y mod 4 = 0"
      using yd(1) \<open>e = 3\<close> int_mod_pos_eq [of y 4 "100 * a + 25 * b + c + 1" 0] by simp
    moreover have "y mod 100 \<noteq> 0" if "c < 24"
      using yd(1) \<open>e = 3\<close> that c(4) int_mod_pos_eq [of y 100 "4 * a + b" "4 * c + 4"] by simp
    moreover have "y mod 400 = 0" if "b = 3" "c = 24"
      using yd(1) \<open>e = 3\<close> that int_mod_pos_eq [of y 400 "a + 1" 0] by simp
    ultimately show ?thesis
      using \<open>c \<le> 24\<close> unfolding is_leap_def by (cases "c < 24") auto
  qed
  moreover have "0 \<le> d" "d < 366"
    using e yd(2) by simp_all
  ultimately show ?thesis
    by (cases "d = 365") (simp_all add: year_length_def)
qed


section \<open>Months\<close>

lemma month_of_day:
  assumes "month_of_day ls d = (m, r)" "0 \<le> d" "d < sum_list ls"
  shows "0 \<le> m \<and> nat m < length ls \<and> sum_list (take (nat m) ls) + r = d \<and> 0 \<le> r \<and> r < ls ! nat m"
  using assms
proof (induction ls arbitrary: d m)
  case (Cons l ls)
  show ?case
  proof (cases "d < l")
    case False
    then obtain m' where m': "month_of_day ls (d - l) = (m', r)" "m = m' + 1"
      using Cons.prems(1) by (auto split: prod.splits)
    have "0 \<le> m' \<and> nat m' < length ls \<and> sum_list (take (nat m') ls) + r = d - l \<and> 0 \<le> r \<and> r < ls ! nat m'"
      using Cons.IH [OF m'(1)] Cons.prems False by simp
    then show ?thesis
      using m'(2) by (simp add: nat_add_distrib)
  qed (use Cons.prems in auto)
qed simp

lemma month_lengths_sum: "sum_list (month_lengths leap) = (if leap then 366 else 365)"
  by (simp add: month_lengths_def)

text \<open>A position in consecutive intervals is determined by its distance from the start.\<close>

lemma month_unique:
  fixes ls :: "int list"
  assumes "sum_list (take m ls) + r = sum_list (take n ls) + s" "0 \<le> r" "r < ls ! m" "0 \<le> s" "s < ls ! n"
    "m < length ls" "n < length ls" "\<forall>l \<in> set ls. 0 \<le> l"
  shows "m = n \<and> r = s"
  using assms
proof (induction ls arbitrary: m n)
  case (Cons l ls)
  have nonneg: "0 \<le> sum_list (take k ls)" for k
    using Cons.prems(8) by (intro sum_list_nonneg) (auto dest: in_set_takeD)
  show ?case
    using Cons nonneg [of "m - 1"] nonneg [of "n - 1"] by (cases m; cases n) auto
qed simp

section \<open>Times and dates\<close>

lemma clock_fields:
  fixes t :: int
  shows "t mod 86400 div 3600 * 3600 + t mod 3600 div 60 * 60 + t mod 60 = t mod 86400"
    "0 \<le> t mod 86400 div 3600" "t mod 86400 div 3600 < 24" "0 \<le> t mod 3600 div 60" "t mod 3600 div 60 < 60"
proof -
  have "t mod 86400 mod 3600 = t mod 3600" "t mod 3600 mod 60 = t mod 60"
    by (simp_all add: mod_mod_cancel)
  then show "t mod 86400 div 3600 * 3600 + t mod 3600 div 60 * 60 + t mod 60 = t mod 86400"
    using div_mult_mod_eq [of "t mod 86400" 3600] div_mult_mod_eq [of "t mod 3600" 60] by simp
qed simp_all

lemma timegm_split:
  assumes "0 \<le> tm_mon t" "tm_mon t < 12"
  shows "timegm t =
    (days_before_year (1900 + tm_year t) + (days_before_month (is_leap (1900 + tm_year t)) (tm_mon t) + (tm_mday t - 1)) - epoch_day) * 86400 +
    (tm_hour t * 3600 + tm_min t * 60 + tm_sec t)"
  using assms by (simp add: timegm_def Let_def)

lemma tm_of_seconds_date: "calendar_date (tm_of_seconds t)"
  and timegm_tm_of_seconds: "timegm (tm_of_seconds t) = t"
proof -
  obtain y yday where y: "year_of_day (t div 86400 + epoch_day) = (y, yday)"
    by (cases "year_of_day (t div 86400 + epoch_day)")
  obtain m d where m: "month_of_day (month_lengths (is_leap y)) yday = (m, d)"
    by (cases "month_of_day (month_lengths (is_leap y)) yday")
  note yd = year_of_day [OF y]
  have "yday < sum_list (month_lengths (is_leap y))"
    using yd by (simp add: month_lengths_sum year_length_def)
  note md = month_of_day [OF m _ this]
  have m12: "0 \<le> m" "m < 12" "m div 12 = 0" "m mod 12 = m"
    using md yd by (auto simp: month_lengths_def)
  have day: "days_before_year y + (sum_list (take (nat m) (month_lengths (is_leap y))) + d) - epoch_day = t div 86400"
    using md yd by simp
  show "calendar_date (tm_of_seconds t)"
    using md yd m12 clock_fields [of t] by (simp add: calendar_date_def tm_of_seconds_def y m)
  have "timegm (tm_of_seconds t) =
      (days_before_year y + (sum_list (take (nat m) (month_lengths (is_leap y))) + d) - epoch_day) * 86400 +
      (t mod 86400 div 3600 * 3600 + t mod 3600 div 60 * 60 + t mod 60)"
    using m12 by (subst timegm_split) (simp_all add: tm_of_seconds_def y m days_before_month_def)
  then show "timegm (tm_of_seconds t) = t"
    by (simp only: day clock_fields(1) div_mult_mod_eq)
qed


text \<open>A date of the calendar is the only one of its time.\<close>

lemma clock_unique:
  fixes h m s :: int
  assumes "h * 3600 + m * 60 + s = h' * 3600 + m' * 60 + s'" "0 \<le> m" "m < 60" "0 \<le> s" "s < 60" "0 \<le> m'" "m' < 60" "0 \<le> s'" "s' < 60"
  shows "h = h' \<and> m = m' \<and> s = s'"
proof -
  have "h = (h * 3600 + m * 60 + s) div 3600" "h' = (h' * 3600 + m' * 60 + s') div 3600"
    using assms(2-) by (auto intro!: int_div_pos_eq [symmetric])
  then have h: "h = h'"
    using assms(1) by simp
  then have ms: "m * 60 + s = m' * 60 + s'"
    using assms(1) by simp
  have "(m * 60 + s) div 60 = m" "(m' * 60 + s') div 60 = m'"
    using assms(2-) by (auto intro!: int_div_pos_eq)
  then have "m = m'"
    unfolding ms by metis
  then show ?thesis
    using h ms by simp
qed

lemma before_end:
  fixes ls :: "int list"
  assumes "m < length ls" "r < ls ! m" "\<forall>l \<in> set ls. 0 \<le> l"
  shows "sum_list (take m ls) + r < sum_list ls"
proof -
  have "0 \<le> sum_list (drop (Suc m) ls)"
    using assms(3) by (intro sum_list_nonneg) (auto dest: in_set_dropD)
  moreover have "sum_list ls = sum_list (take m ls) + (ls ! m + sum_list (drop (Suc m) ls))"
    using assms(1) by (metis id_take_nth_drop sum_list.Cons sum_list_append)
  ultimately show ?thesis
    using assms(2) by simp
qed

lemma months_nonneg: "\<forall>l \<in> set (month_lengths leap). 0 \<le> l"
  by (simp add: month_lengths_def)

lemma length_month_lengths [simp]: "length (month_lengths leap) = 12"
  by (simp add: month_lengths_def)

definition day_in_year :: "tm \<Rightarrow> int" where
  "day_in_year t = days_before_month (is_leap (1900 + tm_year t)) (tm_mon t) + (tm_mday t - 1)"

lemma calendar_date_parts:
  assumes "calendar_date t"
  shows "timegm t mod 86400 = tm_hour t * 3600 + tm_min t * 60 + tm_sec t"
    "timegm t div 86400 = days_before_year (1900 + tm_year t) + day_in_year t - epoch_day"
    "0 \<le> day_in_year t" "day_in_year t < year_length (1900 + tm_year t)"
proof -
  let ?s = "tm_hour t * 3600 + tm_min t * 60 + tm_sec t"
  have "0 \<le> tm_mon t" "tm_mon t < 12" "0 \<le> ?s" "?s < 86400"
    using assms by (auto simp: calendar_date_def)
  then show "timegm t mod 86400 = ?s" "timegm t div 86400 = days_before_year (1900 + tm_year t) + day_in_year t - epoch_day"
    by (simp_all only: timegm_split day_in_year_def mod_mult_self3 mod_pos_pos_trivial div_mult_self3 div_pos_pos_trivial)
  have "0 \<le> sum_list (take (nat (tm_mon t)) (month_lengths leap))" for leap
    using months_nonneg [of leap] by (intro sum_list_nonneg) (auto dest: in_set_takeD)
  then show "0 \<le> day_in_year t"
    using assms by (simp add: day_in_year_def days_before_month_def calendar_date_def)
  have "nat (tm_mon t) < length (month_lengths (is_leap (1900 + tm_year t)))"
    "tm_mday t - 1 < month_lengths (is_leap (1900 + tm_year t)) ! nat (tm_mon t)"
    using assms by (auto simp: calendar_date_def)
  from before_end [OF this months_nonneg] show "day_in_year t < year_length (1900 + tm_year t)"
    by (simp add: day_in_year_def days_before_month_def month_lengths_sum year_length_def)
qed

lemma timegm_inj:
  assumes t: "calendar_date t" and u: "calendar_date u" and eq: "timegm t = timegm u"
  shows "t = u"
proof -
  have "tm_hour t = tm_hour u \<and> tm_min t = tm_min u \<and> tm_sec t = tm_sec u"
    using calendar_date_parts(1) [OF t] calendar_date_parts(1) [OF u] eq t u
    by (intro clock_unique) (auto simp: calendar_date_def)
  moreover have days: "tm_year t = tm_year u \<and> day_in_year t = day_in_year u"
    using year_unique [of "1900 + tm_year t" "day_in_year t" "1900 + tm_year u" "day_in_year u"]
      calendar_date_parts(2-) [OF t] calendar_date_parts(2-) [OF u] eq by simp
  moreover have "nat (tm_mon t) = nat (tm_mon u) \<and> tm_mday t - 1 = tm_mday u - 1"
    using days t u months_nonneg
    by (intro month_unique [where ls = "month_lengths (is_leap (1900 + tm_year t))"])
      (auto simp: day_in_year_def days_before_month_def calendar_date_def)
  ultimately show ?thesis
    using t u by (cases t; cases u) (auto simp: calendar_date_def)
qed

lemma seconds_of_date: "calendar_date t \<Longrightarrow> tm_of_seconds (timegm t) = t"
  using timegm_inj [OF tm_of_seconds_date] timegm_tm_of_seconds by blast

lemma year_before:
  assumes "calendar_date t"
  shows "1900 + tm_year t < z \<longleftrightarrow> timegm t div 86400 + epoch_day < days_before_year z"
proof (cases "1900 + tm_year t < z")
  case True
  then show ?thesis
    using days_before_year_mono [of "1900 + tm_year t + 1" z] days_before_next_year [of "1900 + tm_year t"]
      calendar_date_parts(2-) [OF assms] by simp
next
  case False
  then show ?thesis
    using days_before_year_mono [of z "1900 + tm_year t"] calendar_date_parts(2-) [OF assms] by simp
qed

text \<open>The years of four digits, in seconds.\<close>

definition first_second :: int where
  "first_second = -30610224000"

definition end_of_dates :: int where
  "end_of_dates = 253402300800"

lemma div_below:
  fixes t k :: int
  shows "t div 86400 < k \<longleftrightarrow> t < k * 86400"
proof -
  obtain q r where "t = q * 86400 + r" "0 \<le> r" "r < 86400" "t div 86400 = q"
    using div_mult_mod_eq [of t 86400] by (metis pos_mod_bound pos_mod_sign zero_less_numeral)
  then show ?thesis
    by auto
qed

lemma four_digit_years:
  "1000 \<le> 1900 + tm_year (tm_of_seconds t) \<longleftrightarrow> first_second \<le> t"
  "1900 + tm_year (tm_of_seconds t) < 10000 \<longleftrightarrow> t < end_of_dates"
proof -
  have "1900 + tm_year (tm_of_seconds t) < z \<longleftrightarrow> t div 86400 < days_before_year z - epoch_day" for z
    using year_before [OF tm_of_seconds_date [of t], of z] by (auto simp: timegm_tm_of_seconds)
  from this [of 1000] this [of 10000] show "1000 \<le> 1900 + tm_year (tm_of_seconds t) \<longleftrightarrow> first_second \<le> t"
    "1900 + tm_year (tm_of_seconds t) < 10000 \<longleftrightarrow> t < end_of_dates"
    by (auto simp: days_before_year_def epoch_day_def first_second_def end_of_dates_def div_below not_less [symmetric])
qed


section \<open>The date of a log entry\<close>

lemma date_in_range:
  assumes "first_second \<le> t" "t < end_of_dates"
  shows "tm_ok (tm_of_seconds t)"
proof -
  have "month_lengths leap ! m \<le> 31" if "m < 12" for leap m
    using that by (auto simp: month_lengths_def nth_Cons split: nat.splits)
  from this [of "nat (tm_mon (tm_of_seconds t))" "is_leap (1900 + tm_year (tm_of_seconds t))"] show ?thesis
    using tm_of_seconds_date [of t] assms four_digit_years [of t] by (auto simp: tm_ok_def calendar_date_def nat_less_iff)
qed

lemma long_number: "10 ^ k \<le> n \<Longrightarrow> k < length (show_nat n)"
proof (induction k arbitrary: n)
  case 0
  then show ?case
    by (simp add: show_nat.simps [of n])
next
  case (Suc k)
  then have "10 ^ k \<le> n div 10" "\<not> n < 10"
    by (auto simp: less_eq_div_iff_mult_less_eq) (metis le_trans less_le_not_le mult.commute one_le_numeral one_le_power mult_le_mono1 nat_mult_1)
  with Suc.IH [of "n div 10"] show ?case
    by (simp add: show_nat.simps [of n])
qed

lemma display_format:
  "tm_ok t \<Longrightarrow> format_date_for_display t = Inr (strftime_F t @ '' '' @ strftime_T t)"
  "10000 \<le> 1900 + tm_year t \<Longrightarrow> format_date_for_display t = Inl (Throw ''Failed to format date'')"
proof -
  show "tm_ok t \<Longrightarrow> format_date_for_display t = Inr (strftime_F t @ '' '' @ strftime_T t)"
    using year_length [of t] by (simp add: format_date_for_display_def strftime_into_def strftime_F_def strftime_T_def local_date_time_format_def)
  assume y: "10000 \<le> 1900 + tm_year t"
  then have "10 ^ 4 \<le> nat (1900 + tm_year t)" "\<not> 1900 + tm_year t < 0"
    by simp_all
  with long_number [of 4] have "4 < length (show_int (1900 + tm_year t))"
    unfolding show_int_def by simp
  then show "format_date_for_display t = Inl (Throw ''Failed to format date'')"
    by (simp add: format_date_for_display_def strftime_into_def strftime_F_def strftime_T_def local_date_time_format_def)
qed

lemma log_date_local:
  assumes "gmtime now \<noteq> None" "gmtime (now + offset now) \<noteq> None"
  shows "log_date offset now = format_date_for_display (tm_of_seconds (now + offset now))"
  using assms by (auto simp: log_date_def utc_date_def utc_to_local_date_def gmtime_def Let_def timegm_tm_of_seconds split: if_splits)

text \<open>
  C38. The date of a log entry is the local time of the clock, in nineteen characters from which that
  time can be read back; from the year 10000 on it cannot be made, and then no message is logged any
  more, whatever its level, without an error.
\<close>

theorem log_date_exact:
  assumes "gmtime now \<noteq> None" "gmtime (now + offset now) \<noteq> None" "first_second \<le> now + offset now"
  shows "if now + offset now < end_of_dates
    then \<exists>text local. log_date offset now = Inr text \<and> length text = 19 \<and>
      parse_utc_date_string (text[10 := CHR ''T'']) = Inr local \<and> calendar_date local \<and> timegm local = now + offset now
    else \<forall>l msg s. log_message pr fl l (log_date offset now) tid msg s = s"
proof (cases "now + offset now < end_of_dates")
  case True
  let ?t = "tm_of_seconds (now + offset now)"
  have ok: "tm_ok ?t"
    using date_in_range [OF assms(3) True] .
  have len: "length (strftime_F ?t) = 10" "length (strftime_T ?t) = 8"
    using year_length [OF ok] by (simp_all add: strftime_F_def strftime_T_def)
  have "(strftime_F ?t @ '' '' @ strftime_T ?t)[10 := CHR ''T''] = strftime_F ?t @ ''T'' @ strftime_T ?t @ []"
    using len(1) by (simp add: list_update_append)
  then show ?thesis
    using True log_date_local [where offset = offset, OF assms(1,2)] display_format(1) [OF ok] date_read_back [OF ok, of "[]"] len
      tm_of_seconds_date timegm_tm_of_seconds by auto
next
  case False
  then have "log_date offset now = Inl (Throw ''Failed to format date'')"
    using log_date_local [where offset = offset, OF assms(1,2)] four_digit_years(2) [of "now + offset now"] display_format(2) by simp
  then show ?thesis
    using False by (auto simp: log_message_def)
qed

theorem log_date_exact_witness:
  "\<exists>text local. log_date (\<lambda>t. 3600) 1772319599 = Inr text \<and> length text = 19 \<and>
     parse_utc_date_string (text[10 := CHR ''T'']) = Inr local \<and> timegm local = 1772323199"
proof -
  have "gmtime 1772319599 \<noteq> None" "gmtime 1772323199 \<noteq> None"
    by (code_simp, code_simp)
  then show ?thesis
    using log_date_exact [of 1772319599 "\<lambda>t. 3600"] by (auto simp: first_second_def end_of_dates_def)
qed

end
