(* ===== verification/Uuid.thy ===== *)
theory Uuid
  imports Prelude
begin

text \<open>
  \<^verbatim>\<open>modules/utility/src/uuid.cpp\<close>: a random UUID as text. The generator and the printing are Boost's,
  parameters: \<open>seeded\<close> is the generator of a thread when it is made, \<open>draw\<close> its next value. The variable
  of the generator is \<^verbatim>\<open>thread_local\<close>, so each thread has its own, made on its first call. The lemmas
  show that threads do not influence each other, and when all identifiers differ.
\<close>

type_synonym 'g generators = "nat \<rightharpoonup> 'g"

definition uuid ::
  "(nat \<Rightarrow> 'g) \<Rightarrow> ('g \<Rightarrow> 'u \<times> 'g) \<Rightarrow> ('u \<Rightarrow> string) \<Rightarrow> nat \<Rightarrow> 'g generators \<Rightarrow> string \<times> 'g generators" where
  "uuid seeded draw to_string thread gens =
     (let rng = (case gens thread of Some g \<Rightarrow> g | None \<Rightarrow> seeded thread)
      in case draw rng of (u, rng') \<Rightarrow> (to_string u, gens(thread \<mapsto> rng')))"

text \<open>Calls of several threads one after the other: what each returned.\<close>

fun uuids ::
  "(nat \<Rightarrow> 'g) \<Rightarrow> ('g \<Rightarrow> 'u \<times> 'g) \<Rightarrow> ('u \<Rightarrow> string) \<Rightarrow> nat list \<Rightarrow> 'g generators \<Rightarrow> (nat \<times> string) list" where
  "uuids seeded draw to_string [] gens = []"
| "uuids seeded draw to_string (thread # threads) gens =
     (case uuid seeded draw to_string thread gens of (s, gens') \<Rightarrow> (thread, s) # uuids seeded draw to_string threads gens')"

text \<open>The values of one generator.\<close>

fun draws :: "('g \<Rightarrow> 'u \<times> 'g) \<Rightarrow> nat \<Rightarrow> 'g \<Rightarrow> 'u list" where
  "draws draw 0 g = []"
| "draws draw (Suc n) g = (case draw g of (u, g') \<Rightarrow> u # draws draw n g')"

lemma uuids_of_thread:
  "map snd (filter (\<lambda>p. fst p = t) (uuids seeded draw to_string threads gens)) =
     map to_string (draws draw (count_list threads t) (case gens t of Some g \<Rightarrow> g | None \<Rightarrow> seeded t))"
  by (induction threads arbitrary: gens) (auto simp: uuid_def Let_def split: prod.splits)

text \<open>A value of a generator is given to one call: what a call returns is determined by its place among those of its thread.\<close>

lemma uuids_of_thread_distinct:
  assumes "inj to_string" "distinct (draws draw (count_list threads t) (seeded t))"
  shows "distinct (map snd (filter (\<lambda>p. fst p = t) (uuids seeded draw to_string threads Map.empty)))"
  using assms by (simp add: uuids_of_thread distinct_map inj_on_subset [of to_string UNIV])

end
