(* ===== verification/Windows.thy ===== *)
theory Windows
  imports Environment
begin

text \<open>
  The Windows branches that compile: \<^verbatim>\<open>widen_string\<close> of \<^verbatim>\<open>utility/src/string.cpp\<close> and the loop of
  \<^verbatim>\<open>getenv\<close> in \<^verbatim>\<open>utility/src/env.cpp\<close>. The functions of the system are parameters, and \<^verbatim>\<open>narrow_string\<close>
  too, whose definition names undeclared variables. The lemmas show when \<^verbatim>\<open>widen_string\<close> throws, that
  the loop of \<^verbatim>\<open>getenv\<close> ends while nothing else changes the variable, and when it misses an empty one.
\<close>

type_synonym wide = "16 word"

section \<open>widen_string\<close>

text \<open>
  \<^verbatim>\<open>MultiByteToWideChar\<close> with and without a buffer: the number of characters, which is 0 for a failure,
  and the characters written.
\<close>

record wide_char_api =
  wide_length :: "byte list \<Rightarrow> int"
  wide_chars :: "byte list \<Rightarrow> int \<Rightarrow> int \<times> wide list"

definition widen_failed :: "fault + wide list" where
  "widen_failed = Inl (Throw ''Failed to convert string from UTF-8 to UTF-16'')"

definition widen_string :: "wide_char_api \<Rightarrow> byte list \<Rightarrow> fault + wide list" where
  "widen_string W data =
     (if length data = 0 then Inr []
      else and_then (safe_cast_int int_t size_t (int (length data))) (\<lambda>_.
        let required_length = wide_length W data
        in if required_length > 0
           then and_then (safe_cast_int size_t int_t required_length) (\<lambda>n.
                  case wide_chars W data required_length of (written, chars) \<Rightarrow>
                    if written > 0 then Inr (chars @ replicate (nat n - length chars) 0) else widen_failed)
           else widen_failed))"

text \<open>What the system documents: both calls agree, and fail on invalid UTF-8.\<close>

definition converts_by :: "wide_char_api \<Rightarrow> (byte list \<Rightarrow> wide list option) \<Rightarrow> bool" where
  "converts_by W decode \<longleftrightarrow> (\<forall>data. data \<noteq> [] \<longrightarrow>
     (case decode data of
        None \<Rightarrow> wide_length W data = 0
      | Some ws \<Rightarrow> ws \<noteq> [] \<and> length ws \<le> length data \<and>
          wide_length W data = int (length ws) \<and> wide_chars W data (int (length ws)) = (int (length ws), ws)))"

lemma widen_string_exact:
  assumes "converts_by W decode" "length data < 2 ^ 64"
  shows "widen_string W data =
    (if data = [] then Inr []
     else if 2 ^ 31 \<le> length data then Inl (Throw ''value > result max'')
     else case decode data of Some ws \<Rightarrow> Inr ws | None \<Rightarrow> widen_failed)"
proof -
  consider "data = []" | "data \<noteq> []" "2 ^ 31 \<le> length data" | "data \<noteq> []" "length data < 2 ^ 31"
    by linarith
  then show ?thesis
  proof cases
    case 3
    then have cast: "safe_cast_int int_t size_t (int (length data)) = Inr (int (length data))"
      by (subst safe_cast_int_Inr_iff) (auto simp: in_type_def int_t_def size_t_def type_min_def type_max_def)
    show ?thesis
    proof (cases "decode data")
      case None
      then show ?thesis
        using 3 assms cast by (auto simp: converts_by_def widen_string_def and_then_def)
    next
      case (Some ws)
      then have ws: "ws \<noteq> []" "length ws \<le> length data" "wide_length W data = int (length ws)"
        "wide_chars W data (int (length ws)) = (int (length ws), ws)"
        using 3 assms by (auto simp: converts_by_def dest!: spec [of _ data])
      then have "safe_cast_int size_t int_t (int (length ws)) = Inr (int (length ws))"
        using 3 by (subst safe_cast_int_Inr_iff) (auto simp: in_type_def int_t_def size_t_def type_min_def type_max_def)
      then show ?thesis
        using 3 cast ws Some by (simp add: widen_string_def and_then_def Let_def)
    qed
  next
    case 2
    then have "safe_cast_int int_t size_t (int (length data)) = Inl (Throw ''value > result max'')"
      using 2 assms(2) by (simp add: take_bit_int_eq_self safe_cast_int_def safe_cast_to_signed_def static_cast_def int_t_def size_t_def make_unsigned_def type_max_def)
    then show ?thesis
      using 2 by (simp add: widen_string_def and_then_def)
  qed (simp add: widen_string_def)
qed

section \<open>getenv\<close>

text \<open>
  \<^verbatim>\<open>GetEnvironmentVariableW\<close> for a buffer of a number of characters: what it returns, whether the last
  error is \<^verbatim>\<open>ERROR_ENVVAR_NOT_FOUND\<close> then, and the characters in the buffer. The loop is partial: \<open>None\<close>
  means that it never ends.
\<close>

type_synonym 's env_api = "nat \<Rightarrow> 's \<Rightarrow> (nat \<times> bool \<times> wide list) \<times> 's"

partial_function (option) getenv_loop ::
  "'s env_api \<Rightarrow> (wide list \<Rightarrow> fault + string) \<Rightarrow> nat \<Rightarrow> 's \<Rightarrow> ((fault + string option) \<times> 's) option" where
  "getenv_loop api narrow len s =
     (case api len s of ((returned, not_found, value_w), s') \<Rightarrow>
        if returned = 0
        then Some (if not_found then Inr None else if len = 1 then Inr (Some []) else Inr None, s')
        else if returned < len then Some (transform (narrow (take returned value_w)) Some, s')
        else getenv_loop api narrow returned s')"

definition getenv_windows ::
  "'s env_api \<Rightarrow> (wide list \<Rightarrow> fault + string) \<Rightarrow> 's \<Rightarrow> ((fault + string option) \<times> 's) option" where
  "getenv_windows api narrow s = getenv_loop api narrow 0 s"

text \<open>
  The documented function on a variable that nothing else changes. A call that succeeds leaves the last
  error of the thread, which is the state, as it is.
\<close>

definition documented_getenv :: "wide list option \<Rightarrow> bool env_api" where
  "documented_getenv variable len last_not_found =
     (case variable of
        None \<Rightarrow> ((0, True, []), True)
      | Some v \<Rightarrow> if len < length v + 1 then ((length v + 1, last_not_found, []), last_not_found)
                  else ((length v, last_not_found, v), last_not_found))"

text \<open>
  A variable is found with its value, except that an empty one is taken for missing when an earlier call
  of the thread has left the error of a missing variable.
\<close>

lemma getenv_windows_exact:
  "getenv_windows (documented_getenv variable) narrow stale =
     (case variable of
        None \<Rightarrow> Some (Inr None, True)
      | Some [] \<Rightarrow> Some (Inr (if stale then None else Some []), stale)
      | Some v \<Rightarrow> Some (transform (narrow v) Some, stale))"
  unfolding getenv_windows_def
  by (subst getenv_loop.simps, (subst getenv_loop.simps)?)
    (auto simp: documented_getenv_def getenv_loop.simps [of _ _ "Suc n" for n] split: option.splits list.splits)

end
