(* ===== verification/Base64Tests.thy ===== *)
theory Base64Tests
  imports Base64 TestDriver
begin

text \<open>
  \<^verbatim>\<open>utility/test/encoding/base64_{encode,decode}_test.cpp\<close>: the test cases of the repository for base64, as
  test cases of the driver \<open>TestDriver\<close> on the model \<open>Base64\<close>, with the lines of their requirements. The
  last lemma runs the whole test program: it exits with 0.
\<close>

section \<open>The functions under test\<close>

definition bytes_of :: "string \<Rightarrow> byte list" where
  "bytes_of s = map of_char s"

text \<open>The wrappers make an empty container and fill it.\<close>

definition base64_encode_return :: "byte list \<Rightarrow> byte list" where
  "base64_encode_return input = base64_encode input"

definition base64_decode_return :: "byte list \<Rightarrow> fault + byte list" where
  "base64_decode_return input = base64_decode input"

text \<open>\<^verbatim>\<open>base64_decode\<close> on a container that is kept: nothing is appended before the input has been checked.\<close>

definition base64_decode_into :: "byte list \<Rightarrow> byte list \<Rightarrow> (fault + unit) \<times> byte list" where
  "base64_decode_into out input = (case base64_decode input of Inl flt \<Rightarrow> (Inl flt, out) | Inr bs \<Rightarrow> (Inr (), out @ bs))"

section \<open>Requirements of a test case\<close>

text \<open>
  A requirement whose expression may throw, and one that expects an exception, which for base64 is a
  \<^verbatim>\<open>std::runtime_error\<close>. \<open>info\<close> makes the record of a failure from the line; the text of the condition
  is left out.
\<close>

datatype requirement = Require nat "fault + bool" | Require_throw nat call_end

fun run_requirements :: "(nat \<Rightarrow> string \<Rightarrow> failure_info) \<Rightarrow> requirement list \<Rightarrow> test_outcome" where
  "run_requirements info [] = Passed"
| "run_requirements info (Require line r # rs) =
     (case r of
        Inl (Throw what) \<Rightarrow> Threw what
      | Inl _ \<Rightarrow> Threw_unknown
      | Inr holds \<Rightarrow> (case require (info line) [] holds of Some f \<Rightarrow> Failure f | None \<Rightarrow> run_requirements info rs))"
| "run_requirements info (Require_throw line e # rs) =
     (case require_throw (info line) e of Some f \<Rightarrow> Failure f | None \<Rightarrow> run_requirements info rs)"

definition decodes :: "byte list \<Rightarrow> byte list \<Rightarrow> fault + bool" where
  "decodes input expected = transform (base64_decode_return input) (\<lambda>bs. bs = expected)"

definition call_ends :: "fault + unit \<Rightarrow> call_end" where
  "call_ends r = (case r of Inr _ \<Rightarrow> Returns | Inl (Throw _) \<Rightarrow> Throws_expected | Inl _ \<Rightarrow> Throws_other)"

text \<open>The calls of one test case on the same output.\<close>

fun rejections :: "byte list \<Rightarrow> (nat \<times> byte list) list \<Rightarrow> requirement list \<times> byte list" where
  "rejections out [] = ([], out)"
| "rejections out ((line, input) # rest) =
     (case base64_decode_into out input of (r, out1) \<Rightarrow>
      case rejections out1 rest of (rs, out2) \<Rightarrow> (Require_throw line (call_ends r) # rs, out2))"

section \<open>The test cases\<close>

definition encode_string_test :: "requirement list" where
  "encode_string_test =
   [Require 13 (Inr (base64_encode_return (bytes_of '''') = bytes_of '''')),
    Require 14 (Inr (base64_encode_return (bytes_of ''f'') = bytes_of ''Zg=='')),
    Require 15 (Inr (base64_encode_return (bytes_of ''fo'') = bytes_of ''Zm8='')),
    Require 16 (Inr (base64_encode_return (bytes_of ''foo'') = bytes_of ''Zm9v'')),
    Require 17 (Inr (base64_encode_return (bytes_of ''foob'') = bytes_of ''Zm9vYg=='')),
    Require 18 (Inr (base64_encode_return (bytes_of ''fooba'') = bytes_of ''Zm9vYmE='')),
    Require 19 (Inr (base64_encode_return (bytes_of ''foobar'') = bytes_of ''Zm9vYmFy''))]"

definition encode_u8string_test :: "requirement list" where
  "encode_u8string_test =
   [Require 23 (Inr (base64_encode_return (bytes_of '''') = bytes_of '''')),
    Require 24 (Inr (base64_encode_return ([240, 159, 152, 128]) = bytes_of ''8J+YgA=='')),
    Require 25 (Inr (base64_encode_return ([195, 166, 195, 184, 195, 165]) = bytes_of ''w6bDuMOl'')),
    Require 26 (Inr (base64_encode_return ([227, 131, 134, 227, 130, 185, 227, 131, 136]) = bytes_of ''44OG44K544OI''))]"

definition encode_uint8_test :: "requirement list" where
  "encode_uint8_test =
   [Require 35 (Inr (base64_encode_return [] = bytes_of '''')),
    Require 36 (Inr (base64_encode_return [0] = bytes_of ''AA=='')),
    Require 37 (Inr (base64_encode_return [0, 127] = bytes_of ''AH8='')),
    Require 38 (Inr (base64_encode_return [0, 127, 128] = bytes_of ''AH+A'')),
    Require 39 (Inr (base64_encode_return [0, 127, 128, 255] = bytes_of ''AH+A/w==''))]"

definition encode_byte_test :: "requirement list" where
  "encode_byte_test =
   [Require 48 (Inr (base64_encode_return [] = bytes_of '''')),
    Require 49 (Inr (base64_encode_return [0] = bytes_of ''AA=='')),
    Require 50 (Inr (base64_encode_return [0, 127] = bytes_of ''AH8='')),
    Require 51 (Inr (base64_encode_return [0, 127, 128] = bytes_of ''AH+A'')),
    Require 52 (Inr (base64_encode_return [0, 127, 128, 255] = bytes_of ''AH+A/w==''))]"

definition decode_bytes_test :: "requirement list" where
  "decode_bytes_test =
   [Require 19 (decodes (bytes_of '''') ([])), Require 20 (decodes (bytes_of ''AA=='') ([0])),
    Require 21 (decodes (bytes_of ''AH8='') ([0, 127])), Require 22 (decodes (bytes_of ''AH+A'') ([0, 127, 128])),
    Require 23 (decodes (bytes_of ''AH+A/w=='') ([0, 127, 128, 255]))]"

definition decode_string_test :: "requirement list" where
  "decode_string_test =
   [Require 28 (decodes (bytes_of '''') (bytes_of '''')), Require 29 (decodes (bytes_of ''Zg=='') (bytes_of ''f'')),
    Require 30 (decodes (bytes_of ''Zm8='') (bytes_of ''fo'')),
    Require 31 (decodes (bytes_of ''Zm9v'') (bytes_of ''foo'')),
    Require 32 (decodes (bytes_of ''Zm9vYg=='') (bytes_of ''foob'')),
    Require 33 (decodes (bytes_of ''Zm9vYmE='') (bytes_of ''fooba'')),
    Require 34 (decodes (bytes_of ''Zm9vYmFy'') (bytes_of ''foobar''))]"

definition decode_u8string_test :: "requirement list" where
  "decode_u8string_test =
   [Require 38 (decodes (bytes_of '''') (bytes_of '''')),
    Require 39 (decodes (bytes_of ''8J+YgA=='') ([240, 159, 152, 128])),
    Require 40 (decodes (bytes_of ''w6bDuMOl'') ([195, 166, 195, 184, 195, 165])),
    Require 41 (decodes (bytes_of ''44OG44K544OI'') ([227, 131, 134, 227, 130, 185, 227, 131, 136]))]"

definition invalid_inputs :: "(nat \<times> byte list) list" where
  "invalid_inputs =
   [(51, bytes_of ''A''), (52, bytes_of ''AA''), (53, bytes_of ''AAA''), (54, bytes_of ''=''), (55, bytes_of ''==''),
    (56, bytes_of ''===''), (57, bytes_of ''A=''), (58, bytes_of ''AA=''), (59, bytes_of ''A=A''),
    (60, bytes_of ''A==''), (61, bytes_of ''A====''), (64, bytes_of ''====''), (65, bytes_of ''A===''),
    (66, bytes_of ''AAAA====''), (69, bytes_of ''A=AA''), (70, bytes_of ''AA=A''), (71, bytes_of ''Zg==Zg==''),
    (72, bytes_of ''Zm8=Zm8=''), (73, bytes_of ''Zm9vYg==Zm9vYg==''), (74, bytes_of ''Zm9vYmE=Zm9vYmE=''),
    (77, bytes_of ''!AAA''), (78, bytes_of ''A!AA''), (79, bytes_of ''AA!A''), (80, bytes_of ''AAA!''),
    (81, bytes_of '' Z==''), (82, bytes_of ''Z ==''), (83, bytes_of ''Zg= ''), (89, [90, 103, 61, 61, 10]),
    (92, bytes_of ''Zm9vYj8_''), (93, bytes_of ''Zm9vYj8-''), (94, bytes_of ''PHg_Zg=='')]"

definition decode_invalid_test :: "requirement list" where
  "decode_invalid_test = (case rejections [] invalid_inputs of (rs, out) \<Rightarrow> rs @ [Require 97 (Inr (out = []))])"

definition base64_tests :: "(nat \<Rightarrow> string \<Rightarrow> failure_info) \<Rightarrow> 'w test_reg list" where
  "base64_tests info =
     map (\<lambda>(name, rs). \<lparr>test_name = name, test_fn = (\<lambda>w. (run_requirements info rs, w))\<rparr>)
     [(''base64_encode_return<string>(s)'', encode_string_test),
      (''base64_encode_return<string>(u8s)'', encode_u8string_test),
      (''base64_encode_return<string>(span<uint8_t>)'', encode_uint8_test),
      (''base64_encode_return<string>(span<byte>)'', encode_byte_test),
      (''base64_decode_return<string>'', decode_string_test),
      (''base64_decode_return<u8string>'', decode_u8string_test),
      (''base64_decode_return<vector<uint8_t>>'', decode_bytes_test),
      (''base64_decode_return<vector<byte>>'', decode_bytes_test),
      (''base64_decode - invalid input'', decode_invalid_test)]"

section \<open>Running them\<close>

text \<open>Every requirement holds on the model.\<close>

definition satisfied :: "requirement \<Rightarrow> bool" where
  "satisfied r = (case r of Require _ x \<Rightarrow> x = Inr True | Require_throw _ e \<Rightarrow> e = Throws_expected)"

lemma satisfied_passes: "list_all satisfied rs \<Longrightarrow> run_requirements info rs = Passed"
  by (induction info rs rule: run_requirements.induct)
    (auto simp: satisfied_def require_def require_throw_def Let_def)

lemmas encoding = base64_encode_return_def encode_char_def alphabet_codes pad_chars_def bytes_of_def bitmask_6_def Let_def

lemma encode_tests: "list_all satisfied encode_string_test" "list_all satisfied encode_u8string_test"
  "list_all satisfied encode_uint8_test" "list_all satisfied encode_byte_test"
  unfolding encode_string_test_def encode_u8string_test_def encode_uint8_test_def encode_byte_test_def
    satisfied_def list.pred_inject requirement.case
  by (simp_all add: encoding)

text \<open>Expected texts are the encodings of what they decode to.\<close>

lemma decodes_encoded: "base64_encode xs = input \<Longrightarrow> decodes input xs = Inr True"
  using b64.dec_enc [of xs] by (auto simp: decodes_def base64_decode_return_def transform_def)

lemma decode_tests: "list_all satisfied decode_string_test" "list_all satisfied decode_u8string_test"
  "list_all satisfied decode_bytes_test"
  unfolding decode_string_test_def decode_u8string_test_def decode_bytes_test_def satisfied_def list.pred_inject requirement.case
  by (intro conjI TrueI decodes_encoded; simp add: encoding)+

lemmas rejecting = base64_decode_into_def base64_decode_def calc_decoded_length_impl_def decode_char_def decode_table_def pad_char_def
  decode_able_invalid_char_def bytes_of_def and_then_def

lemma rejections_rejected:
  "list_all (\<lambda>p. \<exists>what. base64_decode_into [] (snd p) = (Inl (Throw what), [])) xs \<Longrightarrow>
    list_all satisfied (fst (rejections [] xs)) \<and> snd (rejections [] xs) = []"
  by (induction xs) (auto simp: satisfied_def call_ends_def split: prod.splits)

lemma decode_rejects: "list_all satisfied decode_invalid_test"
proof -
  have "list_all (\<lambda>p. \<exists>what. base64_decode_into [] (snd p) = (Inl (Throw what), [])) invalid_inputs"
    unfolding invalid_inputs_def list.pred_inject snd_conv by (intro conjI TrueI; simp add: rejecting)
  from rejections_rejected [OF this] show ?thesis
    by (auto simp: decode_invalid_test_def satisfied_def split: prod.splits)
qed

lemma all_pass: "t \<in> set (base64_tests info) \<Longrightarrow> test_fn t w = (Passed, w)"
  using encode_tests decode_tests decode_rejects satisfied_passes [where info = info] by (auto simp: base64_tests_def)

lemma registered: "list_all P regs \<Longrightarrow> list_all (P \<circ> snd) ts \<Longrightarrow> list_all (P \<circ> snd) (fold assign_test regs ts)"
proof (induction regs arbitrary: ts)
  case (Cons t regs)
  have "list_all (P \<circ> snd) (assign_test t ts)"
    using Cons.prems by (induction t ts rule: assign_test.induct) auto
  then show ?case
    using Cons by (simp add: comp_def)
qed simp

lemma passing_outcomes:
  "list_all ((\<lambda>t. \<forall>w. test_fn t w = (Passed, w)) \<circ> snd) ts \<Longrightarrow> \<forall>p \<in> set (fst (outcomes_of ts w)). snd p = Passed"
  by (induction ts w rule: outcomes_of.induct) (auto split: prod.splits)

text \<open>The test program, with the tests of both files, exits with 0.\<close>

lemma base64_program_passes:
  fixes s :: "'w test_run"
  shows "fst (test_main (auto_test_reg (base64_tests info)) [program] s) = 0"
proof -
  let ?regs = "base64_tests info :: 'w test_reg list"
  obtain os w where os: "outcomes_of (auto_test_reg ?regs) (run_world s) = (os, w)"
    by fastforce
  have "list_all (\<lambda>t. \<forall>w. test_fn t w = (Passed, w)) ?regs"
    using all_pass [of _ info] by (auto simp: list_all_iff)
  from registered [OF this, of "[]"] have "\<forall>p \<in> set os. snd p = Passed"
    using passing_outcomes [of "auto_test_reg ?regs" "run_world s"] os by (simp add: auto_test_reg_def)
  moreover have "length ?regs < size_modulus" "?regs \<noteq> []"
    by (simp_all add: base64_tests_def size_modulus_def)
  ultimately show ?thesis
    using driver_runs_all [where name = "[]" and program = program, OF _ os]
    by (cases "test_main (auto_test_reg ?regs) [program] s") simp
qed

end
