(* ===== verification/Spec2Isabelle.thy ===== *)
theory Spec2Isabelle
  imports Algorithm Base64 Strings ThreadPool MachinePool Interfaces Effects Http Gitea Config Core PoolView RunnerLoop
    EventLoop Libvirt Hypervisor Backend Streams Dates Files Logging Daemon Shutdown App HttpTransfer TestDriver Loader
    PoolExecutor Environment StringStream Calendar Uuid Windows
    Base64Tests
begin

text \<open>
  Verification development for gar-virt, a daemon that runs the tasks of a Gitea forge in virtual
  machines. All paths are relative to \<^verbatim>\<open>src/modules\<close>.

  \<^bold>\<open>The program.\<close> \<^verbatim>\<open>app/src/main.cpp\<close> loads a configuration and starts, for every machine template, a
  pool of virtual machines and as many runner threads as the pool may hold machines
  (\<^verbatim>\<open>app/src/commands.cpp\<close>). The control thread of a pool keeps enough machines ready; it spawns them
  on a thread pool, through a back end that talks to libvirt. A runner thread acquires a machine,
  registers a runner with the forge, fetches a task, copies the files the task needs into the
  machine, runs it there, reports a failure, and gives the machine back.

  \<^bold>\<open>Theories and sources.\<close>
  \<^item> \<open>Prelude\<close>: results and faults (\<^verbatim>\<open>utility/error.hpp\<close>, \<^verbatim>\<open>utility/result.hpp\<close>), the combinators of
    \<^verbatim>\<open>std::expected\<close>, wrap-around sizes, and the locales \<open>step_invariant\<close>, \<open>winding_down\<close> and \<open>codec\<close>.
  \<^item> \<open>Effects\<close>: operations on a state that may return a value or an error or throw, and clean-ups
    (\<^verbatim>\<open>utility/defer.hpp\<close>).
  \<^item> \<open>Algorithm\<close>, \<open>Base64\<close>, \<open>Strings\<close>, \<open>Streams\<close>: \<^verbatim>\<open>utility/algorithm.hpp\<close>, \<^verbatim>\<open>encoding/base64.hpp\<close>,
    \<^verbatim>\<open>string.{hpp,cpp}\<close>, and \<^verbatim>\<open>io/{stream,memstream,memstreambuf}.hpp\<close>.
  \<^item> \<open>Calendar\<close>, \<open>Uuid\<close>, \<open>Windows\<close>: the dates of \<^verbatim>\<open>datetime.cpp\<close> on the calendar and the date of a log entry;
    \<^verbatim>\<open>uuid.cpp\<close>; the branches of \<^verbatim>\<open>string.cpp\<close> and \<^verbatim>\<open>env.cpp\<close> for Windows.
  \<^item> \<open>StringStream\<close>: the string streams of \<^verbatim>\<open>io/stream.hpp\<close> with the storage they point into, refining \<open>Streams\<close>.
  \<^item> \<open>Dates\<close>, \<open>Files\<close>, \<open>Logging\<close>, \<open>Environment\<close>: \<^verbatim>\<open>utility/src/datetime.cpp\<close>, \<^verbatim>\<open>fs/{filesystem,temporary_file}.cpp\<close>,
    \<^verbatim>\<open>log/*.{hpp,cpp}\<close> and \<^verbatim>\<open>env.cpp\<close>.
  \<^item> \<open>ThreadPool\<close>: \<^verbatim>\<open>utility/src/concurrency/thread_pool_executor.cpp\<close>; \<open>PoolExecutor\<close>: the executor as
    the machine pool creates it, and its shutdown.
  \<^item> \<open>Http\<close>, \<open>HttpTransfer\<close>, \<open>Gitea\<close>: \<^verbatim>\<open>utility/src/http.cpp\<close> (requests and results, and the callbacks of a
    transfer) and the clients and runner of \<^verbatim>\<open>gitea/src\<close>.
  \<^item> \<open>Config\<close>: \<^verbatim>\<open>app/src/config.{hpp,cpp}\<close>, \<^verbatim>\<open>virt/src/arch.cpp\<close> and what they use of \<^verbatim>\<open>utility\<close>.
  \<^item> \<open>MachinePool\<close>: \<^verbatim>\<open>virt/src/machine_pool.cpp\<close>; \<open>PoolView\<close>: the same pool as one thread sees it
    while the other threads interfere.
  \<^item> \<open>EventLoop\<close>, \<open>Libvirt\<close>, \<open>Hypervisor\<close>, \<open>Backend\<close>: the event loop, the connection, machines and
    hypervisor of \<^verbatim>\<open>virt/src/libvirt/libvirt.cpp\<close> (definitions in \<open>Libvirt\<close>, lemmas in
    \<open>Hypervisor\<close>), and \<^verbatim>\<open>virt/src/libvirt/backend.cpp\<close>.
  \<^item> \<open>Loader\<close>: the loading of the libvirt libraries and the functions that forward to them, at the
    two ends of \<^verbatim>\<open>libvirt.cpp\<close>.
  \<^item> \<open>Interfaces\<close>, \<open>Core\<close>, \<open>RunnerLoop\<close>: the runner loop of \<^verbatim>\<open>app/src/core.cpp\<close> (definitions in
    \<open>Core\<close>) on the contract \<open>machine_source\<close> that it relies on.
  \<^item> \<open>Daemon\<close>: \<^verbatim>\<open>app/src/commands.cpp\<close> and the life of \<^verbatim>\<open>TemplateState\<close> in \<^verbatim>\<open>core.cpp\<close>, on the steps of
    \<open>MachinePool\<close>; \<open>Shutdown\<close>: \<^verbatim>\<open>utility/src/shutdown_signal.cpp\<close>; \<open>App\<close>: \<^verbatim>\<open>app/src/app_main.cpp\<close> and
    \<^verbatim>\<open>main.cpp\<close>, which compose \<open>Config\<close>, \<open>Logging\<close> and \<open>Daemon\<close>.
  \<^item> \<open>TestDriver\<close>: the driver of the tests, \<^verbatim>\<open>test_driver/src/test_driver.cpp\<close>; \<open>Base64Tests\<close>: the test
    cases of the repository, which pass on the model.

  \<^bold>\<open>How code is modelled.\<close> A method is a function on a record of the members it changes. A \<^verbatim>\<open>Result\<close>
  is a sum of \<open>error\<close> and value; a thrown exception, an abort, undefined behaviour and a deadlock are
  values of \<open>fault\<close>. Code that runs in several threads is a step relation whose steps are its
  critical sections (\<open>executor_step\<close>, \<open>pool_step\<close>, \<open>loop_step\<close>, \<open>hv_step\<close>, \<open>signal_step\<close>, and
  \<open>daemon_step\<close>, which contains the steps of all the pools); properties hold in every
  reachable state, by the locale \<open>step_invariant\<close>. Sizes are naturals below \<open>2 ^ 64\<close> with explicit
  wrap-around, bytes and the words of the encoder machine words. Third-party code is a parameter: libcurl and protobuf, yaml-cpp,
  the JSON library and libvirt are records of functions, and what the properties need of them is a
  named hypothesis (\<open>tracks_connections\<close>, \<open>guest_files\<close>, \<open>time_passes\<close>) with a concrete instance.

  \<^bold>\<open>Interfaces.\<close> \<open>codec\<close> (interpreted by \<open>Base64\<close> and \<open>Dates\<close>), \<open>step_invariant\<close> (by every step relation),
  \<open>winding_down\<close> (a relation that shrinks until it is finished, interpreted by \<open>EventLoop\<close> and \<open>Daemon\<close>),
  \<open>machine_source\<close> (the pool as the runner loop uses it, interpreted by \<open>PoolView\<close> on the model of
  the pool with arbitrary interference of other threads), \<open>byte_source\<close> (\<^verbatim>\<open>InputStream\<close>, interpreted
  by the three implementations).

  \<^bold>\<open>What the lemmas show.\<close> Algorithms: exactness and round trips. Thread pool: counts, order of tasks,
  no lost wake-up, draining on stop. Machine pool: exact counters, the limit, custody of machines, the
  decisions of the control loop, shutdown; and how a spawner that throws or a failing \<^verbatim>\<open>put\<close> breaks
  it. Daemon: no thread uses a state that is being destroyed, every state is destroyed once, all pools together
  stay below the limits of the configuration, the daemon ends after a signal; and how a failed start is not
  reported, a signal inside a poll deadlocks, and a second stop of an executor throws. Program: the
  runs that exit with 0, and the set-up of the log. Forge: order of requests, a registration removed once. Runner loop: whatever fails, machines
  are given back and deactivated, spawned machines are not leaked, a fetched task is run or reported
  (or dropped, on shutdown), the runner is unregistered. Event loop: safe and stoppable in every
  interleaving. Hypervisor and back end: connections are closed, decay is final, files and output
  of commands arrive as sent, waiting for the guest agent ends; responses of transfers are
  complete. Streams and files: they are byte sequences with
  a position; lines and files are read as written; names of temporary files are new. Dates are read as
  written, and the date of a log entry is the local time to the second. The log prints each entry once, whether coloured or not.

  \<^bold>\<open>Fuel.\<close> Loops that may not end take fuel or are partial functions. \<open>string_replace\<close> is partial, and
  diverges exactly for an empty pattern. Waiting for the guest agent (\<open>guest_agent_loop\<close>) needs five
  turns for each second of its time-out and one more, and is proved to end with them; reading a line
  needs two turns more than there are bytes left. \<open>ping_loop\<close>, \<open>fetch_task_loop\<close>, \<open>exec_loop\<close> and
  \<open>runner_loop\<close> have no bound in the code: their lemmas hold for any fuel, and it is shown that
  \<open>ping_loop\<close> and \<open>exec_loop\<close> do not end while the network or the process does not answer.

  The daemon has a measure, \<open>daemon_left\<close>: once the signal is set, four steps for each thread that is still
  to be started, five for each state, and what is left of the threads, the pools and the main thread.

  \<^bold>\<open>Not modelled.\<close> The clock; which template of a thread's state its log lines name; moves of
  objects with unique owners, except where they matter (machines, runners, streams, handles of
  threads); getters and classes that only forward to their implementation, which are the models of
  that implementation; the argument types of the functions that forward to libvirt; the code behind
  \<^verbatim>\<open>_WIN32\<close> other than \<^verbatim>\<open>widen_string\<close> and \<^verbatim>\<open>getenv\<close> (\<^verbatim>\<open>narrow_string\<close> does not compile); memory
  exhaustion except where the code handles it. These are declarations, and lines
  without behaviour of their own.
\<close>

end
